(* ===== verification/Prelude.thy ===== *)
theory Prelude
  imports Main "HOL-Library.Word"
begin

text \<open>
  The shared vocabulary of the development: Go's results (a value, an error or a panic),
  Go's fixed-width integers and byte slices, big-endian conversions between byte slices and
  numbers (\<open>encoding/binary\<close> and \<open>math/big\<close>), and the fixed-width values of
  \<open>go-ethereum/common\<close> (32-byte hashes, 20-byte addresses). Every other theory imports it.
\<close>

section \<open>Integers, bytes, hashes\<close>

type_synonym byte = "8 word"
type_synonym u32 = "32 word"
type_synonym u64 = "64 word"
type_synonym hash = "256 word"     \<comment> \<open>\<open>common.Hash\<close>, an array of 32 bytes\<close>
type_synonym address = "160 word"  \<comment> \<open>\<open>common.Address\<close>, an array of 20 bytes\<close>

named_theorems outcome_simps \<open>equations of the outcome combinators\<close>
named_theorems byte_simps \<open>lengths and values of big-endian byte strings\<close>

section \<open>Results of a Go function\<close>

text \<open>
  A Go function returns a value, returns an error, or panics (index out of range, slice bounds
  out of range, nil dereference, \<open>log.Fatal\<close>). A panic is a value of its own here, so that
  a caller cannot treat it as an error return.
\<close>

datatype ('e, 'a) outcome = Ok 'a | Err 'e | Panic

fun obind :: "('e, 'a) outcome \<Rightarrow> ('a \<Rightarrow> ('e, 'b) outcome) \<Rightarrow> ('e, 'b) outcome" where
  "obind (Ok x) f = f x"
| "obind (Err e) f = Err e"
| "obind Panic f = Panic"

fun of_option :: "'a option \<Rightarrow> ('e, 'a) outcome" where
  "of_option (Some x) = Ok x"
| "of_option None = Panic"

fun map_err :: "('e \<Rightarrow> 'f) \<Rightarrow> ('e, 'a) outcome \<Rightarrow> ('f, 'a) outcome" where
  "map_err g (Ok x) = Ok x"
| "map_err g (Err e) = Err (g e)"
| "map_err g Panic = Panic"

lemma obind_Ok_iff [outcome_simps]: "obind m f = Ok y \<longleftrightarrow> (\<exists>x. m = Ok x \<and> f x = Ok y)"
  by (cases m) auto

lemma obind_Panic_iff [outcome_simps]:
  "obind m f = Panic \<longleftrightarrow> m = Panic \<or> (\<exists>x. m = Ok x \<and> f x = Panic)"
  by (cases m) auto

lemma obind_Err_iff [outcome_simps]:
  "obind m f = Err e \<longleftrightarrow> m = Err e \<or> (\<exists>x. m = Ok x \<and> f x = Err e)"
  by (cases m) auto

lemma of_option_iff [outcome_simps]:
  "of_option v = Ok x \<longleftrightarrow> v = Some x" "of_option v = Panic \<longleftrightarrow> v = None" "of_option v \<noteq> Err e"
  by (cases v; auto)+

lemma map_err_iff [outcome_simps]:
  "map_err g m = Ok x \<longleftrightarrow> m = Ok x" "map_err g m = Panic \<longleftrightarrow> m = Panic"
  "map_err g m = Err f \<longleftrightarrow> (\<exists>e. m = Err e \<and> f = g e)"
  by (cases m; auto)+

section \<open>Slices\<close>

text \<open>
  \<open>s[i]\<close> and \<open>s[lo:hi]\<close> panic out of range. A Go slice never has more than
  \<open>2^63 - 1\<close> elements (the largest \<open>int\<close>), so an index past that is always out of
  range; capacity and length are not told apart.
\<close>

definition go_index :: "'a list \<Rightarrow> nat \<Rightarrow> 'a option" where
  "go_index xs i = (if i < length xs \<and> i < 2 ^ 63 then Some (xs ! i) else None)"

definition go_slice :: "'a list \<Rightarrow> nat \<Rightarrow> nat \<Rightarrow> 'a list option" where
  "go_slice xs lo hi =
     (if lo \<le> hi \<and> hi \<le> length xs \<and> hi < 2 ^ 63 then Some (take (hi - lo) (drop lo xs)) else None)"

lemma go_index_Some_iff [outcome_simps]:
  "go_index xs i = Some x \<longleftrightarrow> i < length xs \<and> i < 2 ^ 63 \<and> x = xs ! i"
  by (auto simp: go_index_def)

lemma go_slice_Some_iff [outcome_simps]:
  "go_slice xs lo hi = Some ys \<longleftrightarrow>
     lo \<le> hi \<and> hi \<le> length xs \<and> hi < 2 ^ 63 \<and> ys = take (hi - lo) (drop lo xs)"
  by (auto simp: go_slice_def)

lemma go_slice_mid:
  assumes "length pre + length ys < 2 ^ 63"
  shows "go_slice (pre @ ys @ post) (length pre) (length pre + length ys) = Some ys"
  using assms by (simp add: go_slice_def)

lemma go_index_mid:
  assumes "length pre < 2 ^ 63"
  shows "go_index (pre @ y # post) (length pre) = Some y"
  using assms by (simp add: go_index_def)

lemma those_map_Some [simp]: "those (map Some xs) = Some xs"
  by (induction xs) auto

section \<open>Big-endian numbers\<close>

definition be_nat :: "byte list \<Rightarrow> nat" where
  "be_nat bs = foldl (\<lambda>acc b. acc * 256 + unat b) 0 bs"

fun be_bytes :: "nat \<Rightarrow> nat \<Rightarrow> byte list" where
  "be_bytes 0 n = []"
| "be_bytes (Suc k) n = be_bytes k (n div 256) @ [word_of_nat n]"

fun be_min :: "nat \<Rightarrow> byte list" where
  "be_min n = (if n = 0 then [] else be_min (n div 256) @ [word_of_nat n])"

declare be_min.simps [simp del]

lemma unat_byte_of_nat [byte_simps]: "unat (word_of_nat n :: byte) = n mod 256"
  by (simp add: unat_of_nat)

lemma be_nat_Nil [simp]: "be_nat [] = 0"
  by (simp add: be_nat_def)

lemma be_nat_snoc [simp]: "be_nat (bs @ [b]) = be_nat bs * 256 + unat b"
  by (simp add: be_nat_def)

lemma be_nat_append: "be_nat (as @ bs) = be_nat as * 256 ^ length bs + be_nat bs"
proof (induction bs rule: rev_induct)
  case Nil
  show ?case by simp
next
  case (snoc b bs)
  have "be_nat (as @ bs @ [b]) = be_nat (as @ bs) * 256 + unat b"
    using be_nat_snoc [of "as @ bs" b] by simp
  with snoc show ?case by (simp add: algebra_simps)
qed

lemma be_nat_Cons: "be_nat (b # bs) = unat b * 256 ^ length bs + be_nat bs"
  using be_nat_append [of "[b]" bs] be_nat_snoc [of "[]" b] by simp

lemma be_nat_less: "be_nat bs < 256 ^ length bs"
proof (induction bs rule: rev_induct)
  case Nil
  show ?case by simp
next
  case (snoc b bs)
  have "unat b < 256"
    using unsigned_less [of b, where ?'a = nat] by simp
  with snoc show ?case by simp
qed

lemma length_be_bytes [simp]: "length (be_bytes k n) = k"
  by (induction k n rule: be_bytes.induct) auto

lemma be_nat_be_bytes [byte_simps]: "be_nat (be_bytes k n) = n mod 256 ^ k"
proof (induction k n rule: be_bytes.induct)
  case (1 n)
  show ?case by simp
next
  case (2 k n)
  have "n mod 256 ^ Suc k = 256 * (n div 256 mod 256 ^ k) + n mod 256"
    by (simp add: mod_mult2_eq)
  with 2 show ?case by (simp add: unat_byte_of_nat)
qed

lemma be_bytes_be_nat: "length bs = k \<Longrightarrow> be_bytes k (be_nat bs) = bs"
proof (induction k arbitrary: bs)
  case 0
  then show ?case by simp
next
  case (Suc k)
  then obtain as b where bs: "bs = as @ [b]" and "length as = k"
    by (metis length_Suc_conv_rev)
  have "unat b < 256"
    using unsigned_less [of b, where ?'a = nat] by simp
  then have "(be_nat as * 256 + unat b) div 256 = be_nat as"
    by simp
  moreover have "(word_of_nat (be_nat as * 256 + unat b) :: byte) = b"
    unfolding word_unat_eq_iff unat_byte_of_nat using \<open>unat b < 256\<close> by simp
  ultimately show ?case
    using Suc.IH [OF \<open>length as = k\<close>] by (simp add: bs del: of_nat_add of_nat_mult)
qed

lemma be_nat_inj: "length as = length bs \<Longrightarrow> be_nat as = be_nat bs \<Longrightarrow> as = bs"
  by (metis be_bytes_be_nat)

lemma be_min_0 [simp]: "be_min 0 = []"
  by (simp add: be_min.simps)

lemma be_min_eq_Nil_iff [simp]: "be_min n = [] \<longleftrightarrow> n = 0"
  by (subst be_min.simps) simp

lemma be_nat_be_min [byte_simps]: "be_nat (be_min n) = n"
proof (induction n rule: be_min.induct)
  case (1 n)
  show ?case
  proof (cases "n = 0")
    case True
    then show ?thesis by simp
  next
    case False
    with 1 show ?thesis by (simp add: be_min.simps [of n] unat_byte_of_nat)
  qed
qed

lemma be_min_eq_be_bytes: "256 ^ k \<le> n \<Longrightarrow> n < 256 ^ Suc k \<Longrightarrow> be_min n = be_bytes (Suc k) n"
proof (induction k arbitrary: n)
  case 0
  then show ?case by (simp add: be_min.simps)
next
  case (Suc k)
  have "256 ^ k \<le> n div 256" "n div 256 < 256 ^ Suc k"
    using Suc.prems by (auto simp: less_mult_imp_div_less less_eq_div_iff_mult_less_eq)
  from Suc.IH [OF this] Suc.prems show ?case
    by (subst be_min.simps) auto
qed

lemma length_be_min_le: "n < 256 ^ k \<Longrightarrow> length (be_min n) \<le> k"
proof (induction k arbitrary: n)
  case 0
  then show ?case by simp
next
  case (Suc k)
  then have "n div 256 < 256 ^ k"
    by (simp add: less_mult_imp_div_less)
  from Suc.IH [OF this] show ?case
    by (subst be_min.simps) simp
qed

section \<open>\<open>common.Hash\<close> and \<open>common.Address\<close>\<close>

text \<open>
  \<open>Bytes()\<close> gives the array's bytes; \<open>BytesToHash\<close> and \<open>BytesToAddress\<close> keep
  the last 32 (20) bytes of a longer slice and pad a shorter one with zeros on the left, as their
  documentation says. As a number, that is the big-endian value modulo \<open>2^256\<close> (\<open>2^160\<close>).
\<close>

definition hash_bytes :: "hash \<Rightarrow> byte list" where
  "hash_bytes h = be_bytes 32 (unat h)"

definition bytes_to_hash :: "byte list \<Rightarrow> hash" where
  "bytes_to_hash bs = word_of_nat (be_nat bs)"

definition address_bytes :: "address \<Rightarrow> byte list" where
  "address_bytes a = be_bytes 20 (unat a)"

definition bytes_to_address :: "byte list \<Rightarrow> address" where
  "bytes_to_address bs = word_of_nat (be_nat bs)"

lemma length_hash_bytes [simp]: "length (hash_bytes h) = 32"
  by (simp add: hash_bytes_def)

lemma length_address_bytes [simp]: "length (address_bytes a) = 20"
  by (simp add: address_bytes_def)

lemma be_nat_hash_bytes [byte_simps]: "be_nat (hash_bytes h) = unat h"
proof -
  have "unat h < 256 ^ 32"
    using unsigned_less [of h, where ?'a = nat] by simp
  then show ?thesis
    by (simp add: hash_bytes_def be_nat_be_bytes del: be_bytes.simps)
qed

lemma be_nat_address_bytes [byte_simps]: "be_nat (address_bytes a) = unat a"
proof -
  have "unat a < 256 ^ 20"
    using unsigned_less [of a, where ?'a = nat] by simp
  then show ?thesis
    by (simp add: address_bytes_def be_nat_be_bytes del: be_bytes.simps)
qed

lemma bytes_to_hash_hash_bytes [simp]: "bytes_to_hash (hash_bytes h) = h"
  by (simp add: bytes_to_hash_def byte_simps)

lemma bytes_to_address_address_bytes [simp]: "bytes_to_address (address_bytes a) = a"
  by (simp add: bytes_to_address_def byte_simps)

lemma hash_bytes_bytes_to_hash: "length bs = 32 \<Longrightarrow> hash_bytes (bytes_to_hash bs) = bs"
proof -
  assume len: "length bs = 32"
  then have "be_nat bs < 2 ^ 256"
    using be_nat_less [of bs] by simp
  then have "unat (bytes_to_hash bs) = be_nat bs"
    by (simp add: bytes_to_hash_def unat_of_nat)
  then show ?thesis
    using len by (simp add: hash_bytes_def be_bytes_be_nat)
qed

lemma hash_bytes_inj [simp]: "hash_bytes g = hash_bytes h \<longleftrightarrow> g = h"
  by (metis bytes_to_hash_hash_bytes)

lemma address_bytes_inj [simp]: "address_bytes a = address_bytes b \<longleftrightarrow> a = b"
  by (metis bytes_to_address_address_bytes)

end
