(* ===== verification/Hex.thy ===== *)
theory Hex
  imports Prelude
begin

unbundle bit_operations_syntax

text \<open>
  Hexadecimal and decimal text: \<open>hex/hex.go\<close> and \<open>encoding/encoding.go\<close>, with the
  parts of Go's standard library they rest on (\<open>encoding/hex\<close>, \<open>strconv.ParseUint\<close>,
  \<open>big.Int.SetString\<close>, \<open>big.Int.Text\<close>, zero padding of \<open>fmt\<close>). The lemmas give
  the round trips and the agreement of hexadecimal text with big-endian bytes that the
  transaction encoder and the witness decoder use.
\<close>

section \<open>Digits (standard library)\<close>

definition hex_char :: "nat \<Rightarrow> char" where
  "hex_char n = ''0123456789abcdef'' ! (n mod 16)"

definition hex_digit_val :: "char \<Rightarrow> nat option" where
  "hex_digit_val c =
     (let n = of_char c :: nat in
      if 48 \<le> n \<and> n \<le> 57 then Some (n - 48)
      else if 97 \<le> n \<and> n \<le> 102 then Some (n - 87)
      else if 65 \<le> n \<and> n \<le> 70 then Some (n - 55)
      else None)"

definition hex_digit :: "char \<Rightarrow> bool" where
  "hex_digit c = (hex_digit_val c \<noteq> None)"

lemma hex_digit_val_less: "hex_digit_val c = Some d \<Longrightarrow> d < 16"
  by (auto simp: hex_digit_val_def Let_def split: if_splits)

lemma hex_digit_table: "list_all (\<lambda>d. hex_digit_val (hex_char d) = Some d) [0..<16]"
  by (simp add: hex_char_def hex_digit_val_def upt_rec)

lemma hex_digit_val_hex_char [simp]: "hex_digit_val (hex_char n) = Some (n mod 16)"
proof -
  have "hex_digit_val (hex_char (n mod 16)) = Some (n mod 16)"
    using hex_digit_table by (simp add: list_all_iff)
  then show ?thesis by (simp add: hex_char_def)
qed

fun hex_text :: "nat \<Rightarrow> string" where
  "hex_text n = (if n < 16 then [hex_char n] else hex_text (n div 16) @ [hex_char n])"

declare hex_text.simps [simp del]

text \<open>The \<open>%d\<close> of \<open>fmt\<close>, for naturals.\<close>

fun dec_text :: "nat \<Rightarrow> string" where
  "dec_text n = (if n < 10 then [hex_char n] else dec_text (n div 10) @ [hex_char (n mod 10)])"

declare dec_text.simps [simp del]

fun digits_val :: "nat \<Rightarrow> nat \<Rightarrow> string \<Rightarrow> nat option" where
  "digits_val base acc [] = Some acc"
| "digits_val base acc (c # cs) =
     (case hex_digit_val c of
        None \<Rightarrow> None
      | Some d \<Rightarrow> if d < base then digits_val base (acc * base + d) cs else None)"

lemma digits_val_append:
  "digits_val b acc (s @ t) = Option.bind (digits_val b acc s) (\<lambda>a. digits_val b a t)"
  by (induction b acc s rule: digits_val.induct) (auto split: option.splits)

lemma digits_val_hex_text: "digits_val 16 0 (hex_text n) = Some n"
proof (induction n rule: hex_text.induct)
  case (1 n)
  show ?case
  proof (cases "n < 16")
    case True
    then show ?thesis by (simp add: hex_text.simps [of n])
  next
    case False
    with 1 show ?thesis by (simp add: hex_text.simps [of n] digits_val_append)
  qed
qed

lemma hex_text_not_Nil [simp]: "hex_text n \<noteq> []"
  by (subst hex_text.simps) simp

lemma set_hex_text: "c \<in> set (hex_text n) \<Longrightarrow> hex_digit c"
proof (induction n rule: hex_text.induct)
  case (1 n)
  then show ?case
    by (subst (asm) hex_text.simps) (auto simp: hex_digit_def split: if_splits)
qed

section \<open>\<open>encoding/hex\<close> and zero padding (standard library)\<close>

definition byte_hex :: "byte \<Rightarrow> string" where
  "byte_hex b = [hex_char (unat b div 16), hex_char (unat b)]"

definition encode_to_string :: "byte list \<Rightarrow> string" where
  "encode_to_string bs = concat (map byte_hex bs)"

datatype hex_error = InvalidByteError char | ErrLength

text \<open>\<open>hex.DecodeString\<close> returns the bytes decoded before the error together with it.\<close>

fun decode_string :: "string \<Rightarrow> byte list \<times> hex_error option" where
  "decode_string [] = ([], None)"
| "decode_string [c] =
     ([], Some (case hex_digit_val c of None \<Rightarrow> InvalidByteError c | Some _ \<Rightarrow> ErrLength))"
| "decode_string (p # q # s) =
     (case hex_digit_val p of
        None \<Rightarrow> ([], Some (InvalidByteError p))
      | Some a \<Rightarrow>
         (case hex_digit_val q of
            None \<Rightarrow> ([], Some (InvalidByteError q))
          | Some b \<Rightarrow> (let (bs, e) = decode_string s in (word_of_nat (16 * a + b) # bs, e))))"

definition hex2bytes :: "string \<Rightarrow> byte list" where \<comment> \<open>\<open>common.Hex2Bytes\<close>: the error is dropped\<close>
  "hex2bytes s = fst (decode_string s)"

definition pad_left :: "nat \<Rightarrow> string \<Rightarrow> string" where \<comment> \<open>\<open>fmt.Sprintf("%0ws", s)\<close>\<close>
  "pad_left w s = replicate (w - length s) (CHR ''0'') @ s"

lemma encode_to_string_append: "encode_to_string (as @ bs) = encode_to_string as @ encode_to_string bs"
  by (simp add: encode_to_string_def)

lemma encode_to_string_simps [simp]:
  "encode_to_string [] = []"
  "encode_to_string (b # bs) = hex_char (unat b div 16) # hex_char (unat b) # encode_to_string bs"
  by (simp_all add: encode_to_string_def byte_hex_def)

lemma length_encode_to_string [simp]: "length (encode_to_string bs) = 2 * length bs"
  by (induction bs) auto

lemma byte_nibbles: "(word_of_nat (16 * (unat b div 16 mod 16) + unat b mod 16) :: byte) = b"
proof -
  have "unat b < 256"
    using unsigned_less [of b, where ?'a = nat] by simp
  then have "16 * (unat b div 16 mod 16) + unat b mod 16 = unat b"
    by (simp add: less_mult_imp_div_less)
  then show ?thesis by simp
qed

lemma decode_encode [simp]: "decode_string (encode_to_string bs) = (bs, None)"
  by (induction bs) (auto simp: byte_nibbles simp del: of_nat_add of_nat_mult)

lemma hex2bytes_encode [simp]: "hex2bytes (encode_to_string bs) = bs"
  by (simp add: hex2bytes_def)

lemma digits_val_encode:
  "digits_val 16 acc (encode_to_string bs) = Some (acc * 256 ^ length bs + be_nat bs)"
proof (induction bs arbitrary: acc)
  case Nil
  then show ?case by simp
next
  case (Cons b bs)
  have "unat b < 256"
    using unsigned_less [of b, where ?'a = nat] by simp
  then have "(acc * 16 + unat b div 16 mod 16) * 16 + unat b mod 16 = acc * 256 + unat b"
    by (simp add: less_mult_imp_div_less)
  with Cons show ?case
    by (simp add: be_nat_Cons algebra_simps)
qed

fun hex_width :: "nat \<Rightarrow> nat \<Rightarrow> string" where
  "hex_width 0 n = []"
| "hex_width (Suc k) n = hex_width k (n div 16) @ [hex_char n]"

lemma hex_char_0 [simp]: "hex_char 0 = CHR ''0''"
  by (simp add: hex_char_def)

lemma hex_width_0 [simp]: "hex_width k 0 = replicate k (CHR ''0'')"
  by (induction k) (auto simp: replicate_append_same)

lemma pad_left_hex_text: "n < 16 ^ k \<Longrightarrow> 0 < k \<Longrightarrow> pad_left k (hex_text n) = hex_width k n"
proof (induction k arbitrary: n)
  case 0
  then show ?case by simp
next
  case (Suc k)
  show ?case
  proof (cases "n < 16")
    case True
    then show ?thesis by (simp add: hex_text.simps [of n] pad_left_def)
  next
    case False
    with Suc.prems have "n div 16 < 16 ^ k" "0 < k"
      by (cases k; auto simp: less_mult_imp_div_less)+
    with Suc.IH [of "n div 16"] False show ?thesis
      by (simp add: hex_text.simps [of n] pad_left_def)
  qed
qed

lemma hex_char_mod: "hex_char (n mod 256) = hex_char n" "hex_char (n mod 256 div 16) = hex_char (n div 16)"
proof -
  show "hex_char (n mod 256) = hex_char n"
    by (simp add: hex_char_def mod_mod_cancel)
  have "n mod 256 div 16 = n div 16 mod 16"
    using mod_mult2_eq [of n 16 16] by simp
  then show "hex_char (n mod 256 div 16) = hex_char (n div 16)"
    by (simp add: hex_char_def)
qed

lemma encode_be_bytes: "encode_to_string (be_bytes k n) = hex_width (2 * k) n"
  by (induction k n rule: be_bytes.induct)
     (simp_all add: encode_to_string_append unat_byte_of_nat hex_char_mod div_mult2_eq [symmetric])

lemma pad_left_hex_be_bytes:
  "n < 256 ^ k \<Longrightarrow> 0 < k \<Longrightarrow> pad_left (2 * k) (hex_text n) = encode_to_string (be_bytes k n)"
  by (simp add: encode_be_bytes pad_left_hex_text power_mult)

section \<open>\<open>strconv.ParseUint\<close> and \<open>big.Int.SetString\<close> (standard library)\<close>

datatype num_error = ErrSyntax | ErrRange

text \<open>
  \<open>ParseUint(s, base, 64)\<close> with an explicit base takes digits only (no sign, no underscore).
  The number Go returns beside an error is not part of the model.
\<close>

definition parse_uint64 :: "nat \<Rightarrow> string \<Rightarrow> (num_error, u64) outcome" where
  "parse_uint64 base s =
     (if s = [] then Err ErrSyntax
      else case digits_val base 0 s of
             None \<Rightarrow> Err ErrSyntax
           | Some n \<Rightarrow> if n < 2 ^ 64 then Ok (word_of_nat n) else Err ErrRange)"

text \<open>\<open>SetString(s, base)\<close> with base 10 or 16: an optional sign and at least one digit.\<close>

fun set_string :: "nat \<Rightarrow> string \<Rightarrow> int option" where
  "set_string base [] = None"
| "set_string base (c # cs) =
     (if c = CHR ''-'' then
        (if cs = [] then None else map_option (\<lambda>n. - int n) (digits_val base 0 cs))
      else if c = CHR ''+'' then
        (if cs = [] then None else map_option int (digits_val base 0 cs))
      else map_option int (digits_val base 0 (c # cs)))"

text \<open>
  A range error of \<open>ParseUint\<close> is reported as soon as the accumulator overflows, so text with a
  large prefix and a later bad digit gives a range error in Go and a syntax error here; both are
  errors, and the code never tells them apart.
\<close>

definition trim_prefix_0x :: "string \<Rightarrow> string" where \<comment> \<open>\<open>strings.TrimPrefix(s, "0x")\<close>\<close>
  "trim_prefix_0x s = (if take 2 s = ''0x'' then drop 2 s else s)"

lemma trim_prefix_0x_prefixed [simp]: "trim_prefix_0x (CHR ''0'' # CHR ''x'' # s) = s"
  by (simp add: trim_prefix_0x_def)

lemma hex_digit_x [simp]: "hex_digit_val (CHR ''x'') = None"
  by (simp add: hex_digit_val_def)

lemma hex_digit_signs [simp]: "hex_digit_val (CHR ''-'') = None" "hex_digit_val (CHR ''+'') = None"
  by (simp_all add: hex_digit_val_def)

lemma parse_uint64_encode:
  assumes "bs \<noteq> []" and "length bs \<le> 8"
  shows "parse_uint64 16 (encode_to_string bs) = Ok (word_of_nat (be_nat bs))"
proof -
  have "be_nat bs < 256 ^ length bs"
    by (rule be_nat_less)
  also have "\<dots> \<le> 256 ^ 8"
    using assms(2) by (intro power_increasing) auto
  finally have "be_nat bs < 2 ^ 64" by simp
  moreover have "encode_to_string bs \<noteq> []"
    using assms(1) by (cases bs) auto
  ultimately show ?thesis
    by (simp add: parse_uint64_def digits_val_encode)
qed

lemma set_string_hex_text: "set_string 16 (hex_text n) = Some (int n)"
proof -
  obtain c cs where hx: "hex_text n = c # cs"
    by (cases "hex_text n") auto
  then have "hex_digit c"
    using set_hex_text [of c n] by simp
  then have "c \<noteq> CHR ''-''" "c \<noteq> CHR ''+''"
    by (auto simp: hex_digit_def)
  then show ?thesis
    using digits_val_hex_text [of n] by (simp only: hx set_string.simps) simp
qed

section \<open>\<open>hex/hex.go\<close>\<close>

definition encode_to_hex :: "byte list \<Rightarrow> string" where
  "encode_to_hex bs = ''0x'' @ encode_to_string bs"

definition hex_encode_to_string :: "byte list \<Rightarrow> string" where
  "hex_encode_to_string bs = encode_to_string bs"

definition hex_decode_string :: "string \<Rightarrow> byte list \<times> hex_error option" where
  "hex_decode_string s = decode_string s"

definition decode_hex :: "string \<Rightarrow> byte list \<times> hex_error option" where
  "decode_hex s =
     (let str = trim_prefix_0x s;
          str = (if length str mod 2 \<noteq> 0 then CHR ''0'' # str else str)
      in decode_string str)"

definition must_decode_hex :: "string \<Rightarrow> ('e, byte list) outcome" where
  "must_decode_hex s = (case decode_hex s of (buf, None) \<Rightarrow> Ok buf | (buf, Some err) \<Rightarrow> Panic)"

text \<open>
  \<open>DecodeBig\<close> ignores whether \<open>SetString\<close> succeeded; the number is undefined when it did
  not, which is \<open>None\<close> here. \<open>Uint64()\<close> is undefined outside the range of \<open>uint64\<close>.
\<close>

definition decode_big :: "string \<Rightarrow> int option" where
  "decode_big s = set_string 16 (trim_prefix_0x s)"

definition decode_uint64 :: "string \<Rightarrow> u64 option" where
  "decode_uint64 s =
     (case decode_big s of
        None \<Rightarrow> None
      | Some i \<Rightarrow> if 0 \<le> i \<and> i < 2 ^ 64 then Some (word_of_int i) else None)"

definition encode_uint64 :: "u64 \<Rightarrow> string" where
  "encode_uint64 i = ''0x'' @ hex_text (unat i)"

definition bad_nibble :: u64 where
  "bad_nibble = NOT 0"

definition decode_nibble :: "char \<Rightarrow> u64" where
  "decode_nibble c =
     (let n = of_char c :: nat in
      if 48 \<le> n \<and> n \<le> 57 then word_of_nat (n - 48)
      else if 65 \<le> n \<and> n \<le> 70 then word_of_nat (n - 65 + 10)
      else if 97 \<le> n \<and> n \<le> 102 then word_of_nat (n - 97 + 10)
      else bad_nibble)"

definition encode_big :: "int \<Rightarrow> string" where \<comment> \<open>\<open>%#x\<close> prints the sign before the prefix\<close>
  "encode_big i =
     (if i = 0 then ''0x0''
      else if i < 0 then ''-0x'' @ hex_text (nat (- i))
      else ''0x'' @ hex_text (nat i))"

fun all_valid :: "string \<Rightarrow> bool" where
  "all_valid [] = True"
| "all_valid (b # bs) =
     (let n = of_char b :: nat in
      if \<not> (48 \<le> n \<and> n \<le> 57 \<or> 97 \<le> n \<and> n \<le> 102 \<or> 65 \<le> n \<and> n \<le> 70) then False else all_valid bs)"

definition is_valid :: "string \<Rightarrow> bool" where
  "is_valid s = all_valid (trim_prefix_0x s)"

lemma all_valid_iff: "all_valid s \<longleftrightarrow> (\<forall>c \<in> set s. hex_digit c)"
  by (induction s) (auto simp: hex_digit_def hex_digit_val_def Let_def)

lemma decode_string_ok_iff:
  "snd (decode_string s) = None \<longleftrightarrow> even (length s) \<and> (\<forall>c \<in> set s. hex_digit c)"
  by (induction s rule: decode_string.induct)
     (auto simp: hex_digit_def Let_def split: option.splits prod.splits)

lemma decode_hex_encode_to_hex: "decode_hex (encode_to_hex bs) = (bs, None)"
  by (simp add: decode_hex_def encode_to_hex_def Let_def)

text \<open>
  \<open>DecodeHex\<close> never fails for want of an even length: it succeeds exactly on the strings
  that \<open>IsValid\<close> accepts (an optional \<open>0x\<close>, then hexadecimal digits of either case).
\<close>

theorem decode_hex_ok_iff_valid: "snd (decode_hex s) = None \<longleftrightarrow> is_valid s"
proof -
  have "hex_digit (CHR ''0'')"
    by (simp add: hex_digit_def hex_digit_val_def)
  then show ?thesis
    by (cases "even (length (trim_prefix_0x s))")
       (auto simp: decode_hex_def is_valid_def all_valid_iff Let_def decode_string_ok_iff
          mod2_eq_if)
qed

end
