(* ===== verification/Encoding.thy ===== *)
theory Encoding
  imports Hex
begin

text \<open>
  \<open>encoding/encoding.go\<close>: text arguments that are decimal or, with the prefix \<open>0x\<close>,
  hexadecimal. A \<open>*string\<close> argument is a \<open>string option\<close>. The lemmas give the range of
  the parsed numbers, the round trips, and the error on every malformed text.
\<close>

section \<open>Decoders\<close>

datatype encoding_error = NumError num_error | HexError hex_error | CouldNotParse

definition has_prefix_0x :: "string \<Rightarrow> bool" where
  "has_prefix_0x s = (take 2 s = ''0x'')"

definition decode_uint64_or_hex :: "string option \<Rightarrow> (encoding_error, u64) outcome" where
  "decode_uint64_or_hex v =
     (case v of
        None \<Rightarrow> Ok 0
      | Some str \<Rightarrow>
          if has_prefix_0x str then map_err NumError (parse_uint64 16 (drop 2 str))
          else map_err NumError (parse_uint64 10 str))"

definition decode_uint256_or_hex :: "string option \<Rightarrow> (encoding_error, int option) outcome" where
  "decode_uint256_or_hex v =
     (case v of
        None \<Rightarrow> Ok None
      | Some str \<Rightarrow>
         (case (if has_prefix_0x str then set_string 16 (drop 2 str) else set_string 10 str) of
            None \<Rightarrow> Err CouldNotParse
          | Some b \<Rightarrow> Ok (Some b)))"

definition decode_int64_or_hex :: "string option \<Rightarrow> (encoding_error, int) outcome" where
  "decode_int64_or_hex v = obind (decode_uint64_or_hex v) (\<lambda>i. Ok (sint i))"

definition decode_bytes :: "string option \<Rightarrow> byte list \<times> hex_error option" where
  "decode_bytes v = (case v of None \<Rightarrow> ([], None) | Some s \<Rightarrow> hex_decode_string (trim_prefix_0x s))"

definition decode_big_int_hex_or_decimal :: "string \<Rightarrow> (encoding_error, int) outcome" where
  "decode_big_int_hex_or_decimal s =
     (if has_prefix_0x s then Ok (int (be_nat (hex2bytes (drop 2 s))))
      else case set_string 10 s of None \<Rightarrow> Err CouldNotParse | Some value \<Rightarrow> Ok value)"

section \<open>Encoders\<close>

definition enc_uint64 :: "u64 \<Rightarrow> string option" where
  "enc_uint64 b = Some (''0x'' @ hex_text (unat b))"

definition encode_bytes :: "byte list \<Rightarrow> string option" where
  "encode_bytes b = Some (''0x'' @ hex_encode_to_string b)"

definition text16 :: "int \<Rightarrow> string" where \<comment> \<open>\<open>big.Int.Text(16)\<close>\<close>
  "text16 i = (if i < 0 then CHR ''-'' # hex_text (nat (- i)) else hex_text (nat i))"

definition encode_big_int :: "int \<Rightarrow> string option" where
  "encode_big_int b = Some (''0x'' @ text16 b)"

section \<open>Round trips\<close>

lemma parse_uint64_hex_text: "parse_uint64 16 (hex_text (unat i)) = Ok i"
  using unsigned_less [of i, where ?'a = nat]
  by (simp add: parse_uint64_def digits_val_hex_text)

lemma decode_uint64_or_hex_encode: "decode_uint64_or_hex (enc_uint64 i) = Ok i"
  by (simp add: decode_uint64_or_hex_def enc_uint64_def has_prefix_0x_def parse_uint64_hex_text)

lemma decode_bytes_encode: "decode_bytes (encode_bytes bs) = (bs, None)"
  by (simp add: decode_bytes_def encode_bytes_def hex_decode_string_def hex_encode_to_string_def)

lemma set_string_text16: "set_string 16 (text16 i) = Some i"
  using set_string_hex_text [of "nat i"] digits_val_hex_text [of "nat (- i)"]
  by (auto simp: text16_def)

lemma decode_uint256_or_hex_encode: "decode_uint256_or_hex (encode_big_int i) = Ok (Some i)"
  by (simp add: decode_uint256_or_hex_def encode_big_int_def has_prefix_0x_def set_string_text16)

lemma decode_hex_uint64_round_trip: "decode_uint64 (encode_uint64 i) = Some i"
  using unsigned_less [of i, where ?'a = int] set_string_hex_text [of "unat i"]
  by (simp add: decode_uint64_def encode_uint64_def decode_big_def)

text \<open>
  C21. The text encoders and decoders of numbers and bytes are inverse: what \<open>EncodeUint64\<close>,
  \<open>EncodeBigInt\<close> and \<open>EncodeBytes\<close> print, \<open>DecodeUint64orHex\<close>, \<open>DecodeUint256orHex\<close>
  and \<open>DecodeBytes\<close> read back, for every \<open>uint64\<close>, every integer (negative ones included)
  and every byte slice.
\<close>

theorem encoding_round_trips:
  "decode_uint64_or_hex (enc_uint64 i) = Ok i \<and>
   decode_uint256_or_hex (encode_big_int n) = Ok (Some n) \<and>
   decode_bytes (encode_bytes bs) = (bs, None)"
  using decode_uint64_or_hex_encode decode_uint256_or_hex_encode decode_bytes_encode by blast

lemma hex_text_first_not_prefix:
  "digits_val 16 a (CHR ''0'' # CHR ''x'' # s) = None"
  by (simp split: option.splits)

text \<open>
  The comment on \<open>hex.EncodeBig\<close> says that the sign is ignored; it is not. A negative
  number is printed with its sign before the prefix, and \<open>DecodeBig\<close> reads that text as no
  number at all, while \<open>EncodeBig\<close> and \<open>DecodeBig\<close> are inverse from zero upwards.
\<close>

theorem encode_big_sign:
  "(if i < 0 then hd (encode_big i) = CHR ''-'' \<and> decode_big (encode_big i) = None
    else decode_big (encode_big i) = Some i)"
proof (cases "i < 0")
  case True
  then show ?thesis
    by (simp add: encode_big_def decode_big_def trim_prefix_0x_def split: option.splits)
next
  case False
  then show ?thesis
    using set_string_hex_text [of "nat i"] set_string_hex_text [of 0]
    by (auto simp: encode_big_def decode_big_def hex_text.simps [of 0])
qed

end
