(* ===== verification/L1_Info_Tree.thy ===== *)
theory L1_Info_Tree
  imports Prelude
begin

unbundle bit_operations_syntax

text \<open>
  \<open>l1infotree/\<close>: the L1 info tree, a Merkle tree of fixed height whose missing leaves are zero.
  The package computes its root and a Merkle proof from the whole list of leaves, and keeps an
  incremental tree that takes one leaf at a time. Keccak is a parameter. The reference is
  \<open>node\<close>: the hash at a level and position of the complete tree.
\<close>

section \<open>\<open>hash.go\<close>\<close>

definition copy32 :: "byte list \<Rightarrow> hash" where \<comment> \<open>\<open>copy(res[:], bs)\<close> into a zero array\<close>
  "copy32 bs = bytes_to_hash (take 32 bs @ replicate (32 - length bs) 0)"

definition Hash :: "(byte list \<Rightarrow> byte list) \<Rightarrow> hash list \<Rightarrow> hash" where
  "Hash keccak data = copy32 (keccak (concat (map hash_bytes data)))"

fun zero_hashes_loop :: "(byte list \<Rightarrow> byte list) \<Rightarrow> nat \<Rightarrow> hash list \<Rightarrow> hash list" where
  "zero_hashes_loop keccak 0 zs = zs"
| "zero_hashes_loop keccak (Suc k) zs = zero_hashes_loop keccak k (zs @ [Hash keccak [last zs, last zs]])"

definition generateZeroHashes :: "(byte list \<Rightarrow> byte list) \<Rightarrow> 8 word \<Rightarrow> hash list" where
  "generateZeroHashes keccak height = zero_hashes_loop keccak (unat height) [0]"

definition HashLeafData :: "(byte list \<Rightarrow> byte list) \<Rightarrow> hash \<Rightarrow> hash \<Rightarrow> u64 \<Rightarrow> hash" where
  "HashLeafData keccak ger prevBlockHash minTimestamp =
     copy32 (keccak (hash_bytes ger @ hash_bytes prevBlockHash @ be_bytes 8 (unat minTimestamp)))"

section \<open>\<open>tree.go\<close>\<close>

record l1_info_tree =
  height :: "8 word"
  zeroHashes :: "hash list"
  tree_count :: u32
  siblings :: "hash list"
  currentRoot :: hash

datatype tree_error = MoreThanOneRoot | MismatchedLeafCount | CountAndLeavesMismatch

text \<open>The nodes of a level are triples (hash, left, right); an odd list would index out of range.\<close>

fun buildIntermediate ::
    "(byte list \<Rightarrow> byte list) \<Rightarrow> hash list \<Rightarrow> (tree_error, (hash \<times> hash \<times> hash) list \<times> hash list) outcome" where
  "buildIntermediate keccak [] = Ok ([], [])"
| "buildIntermediate keccak [l] = Panic"
| "buildIntermediate keccak (l # r # leaves) =
     (let h = Hash keccak [l, r] in
      obind (buildIntermediate keccak leaves) (\<lambda>(nodes, hashes). Ok ((h, l, r) # nodes, h # hashes)))"

definition pad_leaves :: "l1_info_tree \<Rightarrow> nat \<Rightarrow> hash list \<Rightarrow> (tree_error, hash list) outcome" where
  "pad_leaves mt h leaves =
     (if length leaves mod 2 = 1
      then obind (of_option (go_index (zeroHashes mt) h)) (\<lambda>z. Ok (leaves @ [z]))
      else Ok leaves)"

fun build_loop ::
    "(byte list \<Rightarrow> byte list) \<Rightarrow> l1_info_tree \<Rightarrow> nat \<Rightarrow> nat \<Rightarrow> (hash \<times> hash \<times> hash) list \<Rightarrow> hash list \<Rightarrow>
     (tree_error, (hash \<times> hash \<times> hash) list) outcome" where
  "build_loop keccak mt 0 h ns leaves = Ok ns"
| "build_loop keccak mt (Suc k) h ns leaves =
     obind (pad_leaves mt h leaves) (\<lambda>leaves.
     obind (buildIntermediate keccak leaves) (\<lambda>(ns, leaves).
     build_loop keccak mt k (h + 1) ns leaves))"

definition first_leaves :: "l1_info_tree \<Rightarrow> hash list \<Rightarrow> (tree_error, hash list) outcome" where
  "first_leaves mt leaves =
     (if length leaves = 0 then obind (of_option (go_index (zeroHashes mt) 0)) (\<lambda>z. Ok (leaves @ [z]))
      else Ok leaves)"

definition single_root :: "(hash \<times> hash \<times> hash) list \<Rightarrow> (tree_error, hash) outcome" where
  "single_root ns = (case ns of [(h, l, r)] \<Rightarrow> Ok h | _ \<Rightarrow> Err MoreThanOneRoot)"

definition BuildL1InfoRoot ::
    "(byte list \<Rightarrow> byte list) \<Rightarrow> l1_info_tree \<Rightarrow> hash list \<Rightarrow> (tree_error, hash) outcome" where
  "BuildL1InfoRoot keccak mt leaves =
     obind (first_leaves mt leaves) (\<lambda>leaves.
     obind (build_loop keccak mt (unat (height mt)) 0 [] leaves) single_root)"

fun proof_loop ::
    "(byte list \<Rightarrow> byte list) \<Rightarrow> l1_info_tree \<Rightarrow> nat \<Rightarrow> nat \<Rightarrow> u32 \<Rightarrow> hash list \<Rightarrow>
     (hash \<times> hash \<times> hash) list \<Rightarrow> hash list \<Rightarrow>
     (tree_error, hash list \<times> (hash \<times> hash \<times> hash) list) outcome" where
  "proof_loop keccak mt 0 h index sibs ns leaves = Ok (sibs, ns)"
| "proof_loop keccak mt (Suc k) h index sibs ns leaves =
     obind (pad_leaves mt h leaves) (\<lambda>leaves.
     obind (if index \<ge> word_of_nat (length leaves) then of_option (go_index (zeroHashes mt) h)
            else if index mod 2 = 1 then of_option (go_index leaves (unat (index - 1)))
            else of_option (go_index leaves (unat (index + 1)))) (\<lambda>s.
     obind (buildIntermediate keccak leaves) (\<lambda>(ns, leaves).
     proof_loop keccak mt k (h + 1) (index div 2) (sibs @ [s]) ns leaves)))"

definition ComputeMerkleProof ::
    "(byte list \<Rightarrow> byte list) \<Rightarrow> l1_info_tree \<Rightarrow> u32 \<Rightarrow> hash list \<Rightarrow>
     (tree_error, hash list \<times> hash) outcome" where
  "ComputeMerkleProof keccak mt gerIndex leaves =
     obind (first_leaves mt leaves) (\<lambda>leaves.
     obind (proof_loop keccak mt (unat (height mt)) 0 gerIndex [] [] leaves) (\<lambda>(sibs, ns).
     obind (single_root ns) (\<lambda>root. Ok (sibs, root))))"

text \<open>The loop of \<open>AddLeaf\<close>: the bit of the index, the filled left subtree, the current hash.\<close>

fun add_leaf_loop ::
    "(byte list \<Rightarrow> byte list) \<Rightarrow> l1_info_tree \<Rightarrow> u32 \<Rightarrow> nat \<Rightarrow> nat \<Rightarrow> bool \<Rightarrow> hash list \<Rightarrow> hash \<Rightarrow>
     (tree_error, hash list \<times> hash) outcome" where
  "add_leaf_loop keccak mt index 0 h filled sibs cur = Ok (sibs, cur)"
| "add_leaf_loop keccak mt index (Suc k) h filled sibs cur =
     (if index AND push_bit h 1 > 0 then
        obind (of_option (go_index sibs h)) (\<lambda>s.
        add_leaf_loop keccak mt index k (h + 1) filled sibs (Hash keccak [s, cur]))
      else
        obind (if filled then obind (of_option (go_index sibs h)) (\<lambda>_. Ok (sibs[h := cur]))
               else Ok sibs) (\<lambda>sibs.
        obind (of_option (go_index (zeroHashes mt) h)) (\<lambda>z.
        add_leaf_loop keccak mt index k (h + 1) False sibs (Hash keccak [cur, z]))))"

definition AddLeaf ::
    "(byte list \<Rightarrow> byte list) \<Rightarrow> l1_info_tree \<Rightarrow> u32 \<Rightarrow> hash \<Rightarrow> (tree_error, hash \<times> l1_info_tree) outcome" where
  "AddLeaf keccak mt index leaf =
     (if index \<noteq> tree_count mt then Err MismatchedLeafCount
      else obind (add_leaf_loop keccak mt index (unat (height mt)) 0 True (siblings mt) leaf) (\<lambda>(sibs, cur).
           Ok (cur, mt\<lparr>siblings := sibs, currentRoot := cur, tree_count := tree_count mt + 1\<rparr>)))"

definition initSiblings ::
    "(byte list \<Rightarrow> byte list) \<Rightarrow> l1_info_tree \<Rightarrow> hash list \<Rightarrow> (tree_error, hash list \<times> hash) outcome" where
  "initSiblings keccak mt initialLeaves =
     (if tree_count mt \<noteq> word_of_nat (length initialLeaves) then Err CountAndLeavesMismatch
      else if tree_count mt = 0 then
        obind (of_option (those (map (go_index (zeroHashes mt)) [0..<unat (height mt)]))) (\<lambda>sibs.
        obind (BuildL1InfoRoot keccak mt initialLeaves) (\<lambda>root. Ok (sibs, root)))
      else ComputeMerkleProof keccak mt (tree_count mt) initialLeaves)"

definition NewL1InfoTree ::
    "(byte list \<Rightarrow> byte list) \<Rightarrow> 8 word \<Rightarrow> hash list \<Rightarrow> (tree_error, l1_info_tree) outcome" where
  "NewL1InfoTree keccak hgt initialLeaves =
     (let mt = \<lparr>height = hgt, zeroHashes = generateZeroHashes keccak hgt,
                tree_count = word_of_nat (length initialLeaves), siblings = [], currentRoot = 0\<rparr> in
      obind (initSiblings keccak mt initialLeaves) (\<lambda>(sibs, root).
      Ok (mt\<lparr>siblings := sibs, currentRoot := root\<rparr>)))"

definition ResetL1InfoTree ::
    "(byte list \<Rightarrow> byte list) \<Rightarrow> l1_info_tree \<Rightarrow> hash list \<Rightarrow> (tree_error, l1_info_tree) outcome" where
  "ResetL1InfoTree keccak mt initialLeaves =
     (let newMT = \<lparr>height = 32, zeroHashes = generateZeroHashes keccak 32,
                   tree_count = word_of_nat (length initialLeaves), siblings = [], currentRoot = 0\<rparr> in
      obind (initSiblings keccak newMT initialLeaves) (\<lambda>(sibs, root).
      Ok (newMT\<lparr>siblings := sibs, currentRoot := root\<rparr>)))"

definition GetCurrentRootCountAndSiblings :: "l1_info_tree \<Rightarrow> hash \<times> u32 \<times> hash list" where
  "GetCurrentRootCountAndSiblings mt = (currentRoot mt, tree_count mt, siblings mt)"

section \<open>The complete tree\<close>

fun node :: "(byte list \<Rightarrow> byte list) \<Rightarrow> hash list \<Rightarrow> nat \<Rightarrow> nat \<Rightarrow> hash" where
  "node keccak L 0 i = (if i < length L then L ! i else 0)"
| "node keccak L (Suc h) i = Hash keccak [node keccak L h (2 * i), node keccak L h (2 * i + 1)]"

definition zero_node :: "(byte list \<Rightarrow> byte list) \<Rightarrow> nat \<Rightarrow> hash" where
  "zero_node keccak h = node keccak [] h 0"

text \<open>Recomputing a root from a leaf, its index and the siblings on its path.\<close>

fun climb :: "(byte list \<Rightarrow> byte list) \<Rightarrow> nat \<Rightarrow> hash \<Rightarrow> hash list \<Rightarrow> hash" where
  "climb keccak i cur [] = cur"
| "climb keccak i cur (s # ss) =
     climb keccak (i div 2) (if odd i then Hash keccak [s, cur] else Hash keccak [cur, s]) ss"

lemma node_Nil: "node keccak [] h i = zero_node keccak h"
proof (induction h arbitrary: i)
  case 0
  show ?case by (simp add: zero_node_def)
next
  case (Suc h)
  show ?case
    unfolding zero_node_def [of _ "Suc h"] by (simp add: Suc.IH)
qed

lemma zero_node_Suc: "zero_node keccak (Suc h) = Hash keccak [zero_node keccak h, zero_node keccak h]"
  unfolding zero_node_def [of _ "Suc h"] by (simp add: node_Nil)

lemma node_beyond: "length L \<le> i * 2 ^ h \<Longrightarrow> node keccak L h i = zero_node keccak h"
proof (induction h arbitrary: i)
  case 0
  then show ?case by (simp add: zero_node_def)
next
  case (Suc h)
  then have "length L \<le> 2 * i * 2 ^ h" "length L \<le> (2 * i + 1) * 2 ^ h"
    by (simp_all add: algebra_simps)
  with Suc.IH show ?case by (simp add: zero_node_Suc)
qed

text \<open>Appending a leaf changes only the nodes above it.\<close>

lemma node_snoc_other: "j \<noteq> length L div 2 ^ h \<Longrightarrow> node keccak (L @ [l]) h j = node keccak L h j"
proof (induction h arbitrary: j)
  case 0
  then show ?case by (simp add: nth_append)
next
  case (Suc h)
  have "length L div 2 ^ Suc h = length L div 2 ^ h div 2"
    by (metis div_mult2_eq power_Suc2)
  with Suc.prems have "2 * j \<noteq> length L div 2 ^ h" "2 * j + 1 \<noteq> length L div 2 ^ h"
    by auto
  with Suc.IH show ?case by simp
qed

lemma zero_hashes_loop_map:
  "zero_hashes_loop keccak k (map (zero_node keccak) [0..<Suc m]) = map (zero_node keccak) [0..<Suc (m + k)]"
proof (induction k arbitrary: m)
  case 0
  show ?case by simp
next
  case (Suc k)
  have "map (zero_node keccak) [0..<Suc m] @ [Hash keccak [zero_node keccak m, zero_node keccak m]] =
      map (zero_node keccak) [0..<Suc (Suc m)]"
    by (simp add: zero_node_Suc)
  then show ?case
    using Suc.IH [of "Suc m"] by simp
qed

lemma generateZeroHashes_map: "generateZeroHashes keccak hgt = map (zero_node keccak) [0..<Suc (unat hgt)]"
  using zero_hashes_loop_map [of keccak "unat hgt" 0] by (simp add: generateZeroHashes_def zero_node_def)

definition zeros_ok :: "(byte list \<Rightarrow> byte list) \<Rightarrow> l1_info_tree \<Rightarrow> bool" where
  "zeros_ok keccak mt = (zeroHashes mt = map (zero_node keccak) [0..<Suc (unat (height mt))])"

lemma unat_height_less: "unat (height mt) < 2 ^ 8"
  using unsigned_less [of "height mt", where ?'a = nat] by simp

lemma zeros_at: "zeros_ok keccak mt \<Longrightarrow> h \<le> unat (height mt) \<Longrightarrow> go_index (zeroHashes mt) h = Some (zero_node keccak h)"
  using unat_height_less [of mt] by (simp add: zeros_ok_def go_index_def nth_append del: upt_Suc) 

definition level :: "(byte list \<Rightarrow> byte list) \<Rightarrow> hash list \<Rightarrow> nat \<Rightarrow> nat \<Rightarrow> hash list" where
  "level keccak L h m = map (node keccak L h) [0..<m]"

definition level_nodes :: "(byte list \<Rightarrow> byte list) \<Rightarrow> hash list \<Rightarrow> nat \<Rightarrow> nat \<Rightarrow> (hash \<times> hash \<times> hash) list" where
  "level_nodes keccak L h m =
     map (\<lambda>i. (node keccak L (Suc h) i, node keccak L h (2 * i), node keccak L h (2 * i + 1))) [0..<m]"

lemma buildIntermediate_from:
  "buildIntermediate keccak (map (node keccak L h) [2 * a..<2 * (a + m)]) =
   Ok (map (\<lambda>i. (node keccak L (Suc h) i, node keccak L h (2 * i), node keccak L h (2 * i + 1))) [a..<a + m],
       map (node keccak L (Suc h)) [a..<a + m])"
proof (induction m arbitrary: a)
  case 0
  show ?case by simp
next
  case (Suc m)
  have "[2 * a..<2 * (a + Suc m)] = 2 * a # (2 * a + 1) # [2 * Suc a..<2 * (Suc a + m)]"
    by (simp add: upt_conv_Cons)
  moreover have "[a..<a + Suc m] = a # [Suc a..<Suc a + m]"
    by (simp add: upt_conv_Cons)
  ultimately show ?case
    using Suc.IH [of "Suc a"] by (simp add: Let_def)
qed

lemma buildIntermediate_level:
  "buildIntermediate keccak (level keccak L h (2 * m)) = Ok (level_nodes keccak L h m, level keccak L (Suc h) m)"
  using buildIntermediate_from [of keccak L h 0 m] by (simp add: level_def level_nodes_def)

lemma pad_level:
  assumes "zeros_ok keccak mt" "h \<le> unat (height mt)" "length L \<le> m * 2 ^ h"
  shows "pad_leaves mt h (level keccak L h m) = Ok (level keccak L h (2 * ((m + 1) div 2)))"
proof (cases "odd m")
  case True
  then have "2 * ((m + 1) div 2) = Suc m" by simp
  with True show ?thesis
    using zeros_at [OF assms(1,2)] node_beyond [OF assms(3), of keccak]
    by (simp add: pad_leaves_def level_def mod2_eq_if)
next
  case False
  then have "2 * ((m + 1) div 2) = m" by simp
  with False show ?thesis
    by (simp add: pad_leaves_def level_def mod2_eq_if)
qed

lemma level_size_Suc: "(n :: nat) \<le> m * 2 ^ h \<Longrightarrow> n \<le> (m + 1) div 2 * 2 ^ Suc h"
proof -
  assume "n \<le> m * 2 ^ h"
  moreover have "m \<le> (m + 1) div 2 * 2" by simp
  then have "m * 2 ^ h \<le> (m + 1) div 2 * 2 * 2 ^ h" by (intro mult_le_mono1)
  ultimately have "n \<le> (m + 1) div 2 * 2 * 2 ^ h" by (rule le_trans)
  then show ?thesis by (simp add: mult.assoc)
qed

fun halvings :: "nat \<Rightarrow> nat \<Rightarrow> nat" where
  "halvings m 0 = m"
| "halvings m (Suc k) = halvings ((m + 1) div 2) k"

lemma halvings_le_iff: "halvings m k \<le> 1 \<longleftrightarrow> m \<le> 2 ^ k"
proof (induction k arbitrary: m)
  case (Suc k)
  have "(m + 1) div 2 \<le> 2 ^ k \<longleftrightarrow> m \<le> 2 * 2 ^ k" by presburger
  with Suc show ?case by simp
qed simp

lemma halvings_pos: "0 < m \<Longrightarrow> 0 < halvings m k"
  by (induction k arbitrary: m) (auto simp: div_greater_zero_iff)

lemma build_loop_level:
  assumes "zeros_ok keccak mt" "h + k \<le> unat (height mt)" "length L \<le> m * 2 ^ h"
  shows "build_loop keccak mt k h ns (level keccak L h m) =
    Ok (if k = 0 then ns else level_nodes keccak L (h + k - 1) (halvings m k))"
  using assms(2,3)
proof (induction k arbitrary: h m ns)
  case 0
  show ?case by simp
next
  case (Suc k)
  have p: "pad_leaves mt h (level keccak L h m) = Ok (level keccak L h (2 * ((m + 1) div 2)))"
    using Suc.prems by (intro pad_level [OF assms(1)]) simp_all
  have "build_loop keccak mt k (Suc h) (level_nodes keccak L h ((m + 1) div 2)) (level keccak L (Suc h) ((m + 1) div 2)) =
    Ok (if k = 0 then level_nodes keccak L h ((m + 1) div 2)
        else level_nodes keccak L (Suc h + k - 1) (halvings ((m + 1) div 2) k))"
    using Suc.prems level_size_Suc [OF Suc.prems(2)] by (intro Suc.IH) simp_all
  then show ?case
    by (cases "k = 0") (simp_all add: p buildIntermediate_level)
qed

lemma first_leaves_level:
  assumes "zeros_ok keccak mt"
  shows "first_leaves mt L = Ok (level keccak L 0 (max 1 (length L)))"
proof (cases L)
  case Nil
  then show ?thesis
    using zeros_at [OF assms, of 0] by (simp add: first_leaves_def level_def zero_node_def)
next
  case (Cons a list)
  then have "max 1 (length L) = length L" by simp
  moreover have "L = level keccak L 0 (length L)"
    by (intro nth_equalityI) (simp_all add: level_def)
  ultimately show ?thesis using Cons by (simp add: first_leaves_def)
qed

lemma single_root_level: "0 < m \<Longrightarrow> single_root (level_nodes keccak L h m) =
    (if m \<le> 1 then Ok (node keccak L (Suc h) 0) else Err MoreThanOneRoot)"
proof (cases "m \<le> 1")
  case True
  assume "0 < m"
  with True have "m = 1" by simp
  then show ?thesis by (simp add: single_root_def level_nodes_def)
next
  case False
  then have "[0..<m] = 0 # 1 # [2..<m]"
    by (simp add: upt_conv_Cons numeral_2_eq_2)
  with False show ?thesis
    by (simp add: single_root_def level_nodes_def)
qed

lemma BuildL1InfoRoot_node:
  assumes "zeros_ok keccak mt"
  shows "BuildL1InfoRoot keccak mt L =
    (if 0 < unat (height mt) \<and> length L \<le> 2 ^ unat (height mt) then Ok (node keccak L (unat (height mt)) 0)
     else Err MoreThanOneRoot)"
proof -
  define m k where "m = max 1 (length L)" and "k = unat (height mt)"
  have m: "0 < halvings m k" "halvings m k \<le> 1 \<longleftrightarrow> length L \<le> 2 ^ k"
    by (auto simp only: halvings_pos halvings_le_iff m_def) simp
  have "build_loop keccak mt k 0 [] (level keccak L 0 m) =
     Ok (if k = 0 then [] else level_nodes keccak L (0 + k - 1) (halvings m k))"
    by (rule build_loop_level [OF assms]) (simp_all add: k_def m_def)
  moreover have "single_root [] = Err MoreThanOneRoot"
    by (simp add: single_root_def)
  ultimately show ?thesis
    using single_root_level [OF m(1), of keccak L "k - 1"] m(2)
    unfolding BuildL1InfoRoot_def first_leaves_level [OF assms] m_def [symmetric] k_def [symmetric]
    by simp
qed


section \<open>Merkle proofs\<close>

definition sibling_index :: "nat \<Rightarrow> nat" where
  "sibling_index i = (if odd i then i - 1 else i + 1)"

definition path_siblings :: "(byte list \<Rightarrow> byte list) \<Rightarrow> hash list \<Rightarrow> nat \<Rightarrow> nat \<Rightarrow> nat \<Rightarrow> hash list" where
  "path_siblings keccak L h k i = map (\<lambda>j. node keccak L (h + j) (sibling_index (i div 2 ^ j))) [0..<k]"

lemma path_siblings_Suc:
  "path_siblings keccak L h (Suc k) i =
   node keccak L h (sibling_index i) # path_siblings keccak L (Suc h) k (i div 2)"
proof -
  have "[0..<Suc k] = 0 # map Suc [0..<k]"
    by (simp add: map_Suc_upt upt_rec [of 0 "Suc k"] del: upt_Suc)
  then show ?thesis
    by (simp add: path_siblings_def comp_def div_mult2_eq del: upt_Suc)
qed

lemma climb_path: "climb keccak i (node keccak L h i) (path_siblings keccak L h k i) = node keccak L (h + k) (i div 2 ^ k)"
proof (induction k arbitrary: h i)
  case 0
  show ?case by (simp add: path_siblings_def)
next
  case (Suc k)
  have "(if odd i then Hash keccak [node keccak L h (sibling_index i), node keccak L h i]
         else Hash keccak [node keccak L h i, node keccak L h (sibling_index i)]) =
      node keccak L (Suc h) (i div 2)"
    by (auto simp: sibling_index_def odd_two_times_div_two_nat elim!: oddE)
  with Suc.IH [of "i div 2" "Suc h"] show ?case
    by (simp add: path_siblings_Suc div_mult2_eq)
qed

lemma sibling_word:
  assumes "m * 2 < 2 ^ 32" "zeros_ok keccak mt" "h \<le> unat (height mt)" "length L \<le> m * 2 * 2 ^ h"
  shows "(if index \<ge> word_of_nat (length (level keccak L h (2 * m))) then of_option (go_index (zeroHashes mt) h)
            else if index mod 2 = 1 then of_option (go_index (level keccak L h (2 * m)) (unat (index - 1)))
            else of_option (go_index (level keccak L h (2 * m)) (unat (index + 1 :: u32)))) =
    Ok (node keccak L h (sibling_index (unat index)))"
proof -
  have l: "unat (word_of_nat (length (level keccak L h (2 * m))) :: u32) = 2 * m"
    using assms(1) by (simp add: level_def unat_of_nat del: of_nat_mult)
  have odd: "index mod 2 = 1 \<longleftrightarrow> odd (unat index)"
    by (simp add: word_unat_eq_iff unat_mod odd_iff_mod_2_eq_one)
  show ?thesis
  proof (cases "unat index < 2 * m")
    case False
    then have "m * 2 \<le> sibling_index (unat index)"
      by (auto simp: sibling_index_def elim!: oddE)
    then have "length L \<le> sibling_index (unat index) * 2 ^ h"
      using assms(4) by (meson le_trans mult_le_mono1)
    with False show ?thesis
      using zeros_at [OF assms(2,3)] l by (simp add: word_le_nat_alt node_beyond)
  next
    case True
    then have "unat index + 1 < 2 ^ 32" using assms(1) by simp
    then have p1: "unat (index + 1) = unat index + 1"
      by (simp add: unat_word_ariths)
    have m1: "unat (index - 1) = unat index - 1" if "odd (unat index)"
      using that by (intro unat_minus_one) auto
    show ?thesis
      using True l p1 m1 assms(1)
      by (auto simp: word_le_nat_alt odd sibling_index_def go_index_def level_def elim!: evenE)
  qed
qed

lemma proof_loop_level:
  assumes "zeros_ok keccak mt" "h + k \<le> unat (height mt)" "length L \<le> m * 2 ^ h" "m < 2 ^ 32 - 1"
  shows "proof_loop keccak mt k h index sibs ns (level keccak L h m) =
    Ok (sibs @ path_siblings keccak L h k (unat index),
        if k = 0 then ns else level_nodes keccak L (h + k - 1) (halvings m k))"
  using assms(2-4)
proof (induction k arbitrary: h m ns index sibs)
  case 0
  show ?case by (simp add: path_siblings_def)
next
  case (Suc k)
  let ?m = "(m + 1) div 2"
  have p: "pad_leaves mt h (level keccak L h m) = Ok (level keccak L h (2 * ?m))"
    using Suc.prems by (intro pad_level [OF assms(1)]) simp_all
  have b: "?m * 2 < 2 ^ 32" "?m < 2 ^ 32 - 1" using Suc.prems(3) by simp_all
  have ll: "length L \<le> ?m * 2 * 2 ^ h"
    using level_size_Suc [OF Suc.prems(2)] by (simp add: mult.assoc)
  have hh: "h \<le> unat (height mt)" using Suc.prems(1) by simp
  have d: "unat (index div 2) = unat index div 2"
    by (simp add: unat_div)
  have "proof_loop keccak mt k (Suc h) (index div 2) (sibs @ [node keccak L h (sibling_index (unat index))])
      (level_nodes keccak L h ?m) (level keccak L (Suc h) ?m) =
    Ok ((sibs @ [node keccak L h (sibling_index (unat index))]) @
          path_siblings keccak L (Suc h) k (unat (index div 2)),
        if k = 0 then level_nodes keccak L h ?m
        else level_nodes keccak L (Suc h + k - 1) (halvings ?m k))"
    using Suc.prems(1) b(2) level_size_Suc [OF Suc.prems(2)] by (intro Suc.IH) simp_all
  then show ?case
    unfolding proof_loop.simps p obind.simps sibling_word [OF b(1) assms(1) hh ll] buildIntermediate_level prod.case
    by (cases "k = 0") (simp_all add: path_siblings_Suc d)
qed

lemma ComputeMerkleProof_node:
  assumes "zeros_ok keccak mt" "length L < 2 ^ 32 - 1"
  shows "ComputeMerkleProof keccak mt index L =
    (if 0 < unat (height mt) \<and> length L \<le> 2 ^ unat (height mt)
     then Ok (path_siblings keccak L 0 (unat (height mt)) (unat index), node keccak L (unat (height mt)) 0)
     else Err MoreThanOneRoot)"
proof -
  define m k where "m = max 1 (length L)" and "k = unat (height mt)"
  have m: "0 < halvings m k" "halvings m k \<le> 1 \<longleftrightarrow> length L \<le> 2 ^ k"
    by (auto simp only: halvings_pos halvings_le_iff m_def) simp
  have "proof_loop keccak mt k 0 index [] [] (level keccak L 0 m) =
    Ok ([] @ path_siblings keccak L 0 k (unat index),
        if k = 0 then [] else level_nodes keccak L (0 + k - 1) (halvings m k))"
    using assms(2) by (intro proof_loop_level [OF assms(1)]) (simp_all add: k_def m_def)
  moreover have "single_root [] = Err MoreThanOneRoot"
    by (simp add: single_root_def)
  ultimately show ?thesis
    using single_root_level [OF m(1), of keccak L "k - 1"] m(2)
    unfolding ComputeMerkleProof_def first_leaves_level [OF assms(1)] m_def [symmetric] k_def [symmetric]
    by simp
qed

section \<open>Adding a leaf\<close>

text \<open>
  The invariant of the incremental tree: for every set bit of the count, the sibling of that
  level is the root of the filled subtree left of the next leaf.
\<close>

definition tree_inv :: "(byte list \<Rightarrow> byte list) \<Rightarrow> l1_info_tree \<Rightarrow> hash list \<Rightarrow> bool" where
  "tree_inv keccak mt L =
     (zeros_ok keccak mt \<and> length L < 2 ^ 32 \<and> tree_count mt = word_of_nat (length L) \<and>
      length (siblings mt) = unat (height mt) \<and>
      (\<forall>h < unat (height mt). odd (length L div 2 ^ h) \<longrightarrow>
         siblings mt ! h = node keccak L h (length L div 2 ^ h - 1)) \<and>
      currentRoot mt = node keccak L (unat (height mt)) 0)"

lemma index_bit:
  assumes "n < 2 ^ 32"
  shows "(word_of_nat n :: u32) AND push_bit h 1 > 0 \<longleftrightarrow> odd (n div 2 ^ h)"
proof -
  have "(word_of_nat n :: u32) AND push_bit h 1 = 0 \<longleftrightarrow> \<not> bit (word_of_nat n :: u32) h"
    by (simp add: and_exp_eq_0_iff_not_bit)
  also have "bit (word_of_nat n :: u32) h \<longleftrightarrow> h < 32 \<and> bit n h"
    by (simp add: bit_of_nat_iff)
  also have "\<dots> \<longleftrightarrow> odd (n div 2 ^ h)"
  proof (cases "h < 32")
    case False
    then have "(2 :: nat) ^ 32 \<le> 2 ^ h" by (intro power_increasing) auto
    with assms have "n div 2 ^ h = 0" by simp
    with False show ?thesis by simp
  qed (simp add: bit_iff_odd)
  finally show ?thesis by (simp add: word_gt_0)
qed

lemma carry_dvd: "2 ^ h dvd Suc n \<Longrightarrow> Suc n div 2 ^ h = Suc (n div 2 ^ h)"
  by (simp add: dvd_eq_mod_eq_0 div_Suc)

lemma carry_not_dvd: "\<not> 2 ^ h dvd Suc n \<Longrightarrow> Suc n div 2 ^ h = n div 2 ^ h"
  by (simp add: dvd_eq_mod_eq_0 div_Suc)

lemma dvd_Suc_power: "2 ^ Suc h dvd (m :: nat) \<longleftrightarrow> 2 ^ h dvd m \<and> even (m div 2 ^ h)"
proof (cases "2 ^ h dvd m")
  case True
  then obtain c where "m = 2 ^ h * c" ..
  then show ?thesis by (simp add: mult.commute [of 2])
next
  case False
  then show ?thesis
    by (metis dvd_mult_left power_Suc2)
qed

lemma add_leaf_loop_node:
  assumes z: "zeros_ok keccak mt" and hk: "h + k = unat (height mt)" and n: "length L < 2 ^ 32 "
    and ls: "length sibs = unat (height mt)"
    and A: "\<And>j. h \<le> j \<Longrightarrow> j < unat (height mt) \<Longrightarrow> odd (length L div 2 ^ j) \<Longrightarrow>
        sibs ! j = node keccak L j (length L div 2 ^ j - 1)"
    and B: "\<And>j. j < h \<Longrightarrow> odd (Suc (length L) div 2 ^ j) \<Longrightarrow>
        sibs ! j = node keccak (L @ [l]) j (Suc (length L) div 2 ^ j - 1)"
    and C: "filled \<longleftrightarrow> 2 ^ h dvd Suc (length L)"
    and cur: "cur = node keccak (L @ [l]) h (length L div 2 ^ h)"
  shows "\<exists>sibs'. add_leaf_loop keccak mt (word_of_nat (length L)) k h filled sibs cur =
      Ok (sibs', node keccak (L @ [l]) (h + k) (length L div 2 ^ (h + k))) \<and>
      length sibs' = unat (height mt) \<and>
      (\<forall>j < unat (height mt). odd (Suc (length L) div 2 ^ j) \<longrightarrow>
         sibs' ! j = node keccak (L @ [l]) j (Suc (length L) div 2 ^ j - 1))"
  using hk ls A B C cur
proof (induction k arbitrary: h filled sibs cur)
  case 0
  then show ?case by simp
next
  case (Suc k)
  let ?n = "length L" and ?L = "L @ [l]"
  let ?q = "?n div 2 ^ h"
  have hh: "h < unat (height mt)" "h < 2 ^ 63"
    using Suc.prems(1) unat_height_less [of mt] by simp_all
  have q: "?n div 2 ^ Suc h = ?q div 2"
    by (metis div_mult2_eq power_Suc2)
  have s: "go_index sibs h = Some (sibs ! h)"
    using hh Suc.prems(2) by (simp add: go_index_def)
  show ?case
  proof (cases "odd ?q")
    case True
    then have "?q \<noteq> 0" by (metis dvd_0_right)
    then have sh: "sibs ! h = node keccak ?L h (?q - 1)"
      using Suc.prems(3) [of h] True hh by (simp add: node_snoc_other)
    have Bh: "sibs ! j = node keccak ?L j (Suc ?n div 2 ^ j - 1)"
      if "j < Suc h" "odd (Suc ?n div 2 ^ j)" for j
    proof (cases "j = h")
      case jh: True
      then have "\<not> 2 ^ h dvd Suc ?n"
        using that True carry_dvd [of h ?n] by auto
      with sh jh show ?thesis by (simp add: carry_not_dvd)
    next
      case False
      with that Suc.prems(4) show ?thesis by simp
    qed
    have "even (Suc ?n div 2 ^ h) \<or> \<not> 2 ^ h dvd Suc ?n"
      using True carry_dvd [of h ?n] by auto
    then have Ch: "filled \<longleftrightarrow> 2 ^ Suc h dvd Suc ?n"
      using Suc.prems(5) by (auto simp only: dvd_Suc_power)
    have cur': "Hash keccak [sibs ! h, cur] = node keccak ?L (Suc h) (?n div 2 ^ Suc h)"
      using True sh Suc.prems(6) unfolding q by (auto elim!: oddE)
    have "\<exists>sibs'. add_leaf_loop keccak mt (word_of_nat ?n) k (Suc h) filled sibs (Hash keccak [sibs ! h, cur]) =
        Ok (sibs', node keccak ?L (Suc h + k) (?n div 2 ^ (Suc h + k))) \<and>
        length sibs' = unat (height mt) \<and>
        (\<forall>j < unat (height mt). odd (Suc ?n div 2 ^ j) \<longrightarrow> sibs' ! j = node keccak ?L j (Suc ?n div 2 ^ j - 1))"
      using Suc.prems(1-3) Bh Ch cur' by (intro Suc.IH) auto
    with True s show ?thesis
      by (simp only: add_leaf_loop.simps index_bit [OF n]) simp
  next
    case False
    have z': "go_index (zeroHashes mt) h = Some (zero_node keccak h)"
      using hh by (intro zeros_at [OF z]) simp
    let ?s = "if filled then sibs[h := cur] else sibs"
    have Ah: "?s ! j = node keccak L j (?n div 2 ^ j - 1)"
      if "Suc h \<le> j" "j < unat (height mt)" "odd (?n div 2 ^ j)" for j
      using that Suc.prems(3) [of j] by simp
    have Bh: "?s ! j = node keccak ?L j (Suc ?n div 2 ^ j - 1)"
      if "j < Suc h" "odd (Suc ?n div 2 ^ j)" for j
    proof (cases "j = h")
      case jh: True
      then have "2 ^ h dvd Suc ?n"
        using that False by (metis carry_not_dvd)
      with Suc.prems(2,5,6) hh jh show ?thesis by (simp add: carry_dvd)
    next
      case False
      with that Suc.prems(4) show ?thesis by simp
    qed
    have "odd (Suc ?n div 2 ^ h) \<or> \<not> 2 ^ h dvd Suc ?n"
      using False carry_dvd [of h ?n] by auto
    then have Ch: "False \<longleftrightarrow> 2 ^ Suc h dvd Suc ?n"
      by (auto simp only: dvd_Suc_power)
    have "node keccak ?L h (?q + 1) = zero_node keccak h"
    proof (rule node_beyond)
      have "?n < (?q + 1) * 2 ^ h"
        by (metis Suc_eq_plus1 dividend_less_div_times mult.commute mult_Suc zero_less_numeral zero_less_power add.commute)
      then show "length ?L \<le> (?q + 1) * 2 ^ h" by simp
    qed
    then have cur': "Hash keccak [cur, zero_node keccak h] = node keccak ?L (Suc h) (?n div 2 ^ Suc h)"
      using False Suc.prems(6) unfolding q by (auto elim!: evenE)
    have "\<exists>sibs'. add_leaf_loop keccak mt (word_of_nat ?n) k (Suc h) False ?s (Hash keccak [cur, zero_node keccak h]) =
        Ok (sibs', node keccak ?L (Suc h + k) (?n div 2 ^ (Suc h + k))) \<and>
        length sibs' = unat (height mt) \<and>
        (\<forall>j < unat (height mt). odd (Suc ?n div 2 ^ j) \<longrightarrow> sibs' ! j = node keccak ?L j (Suc ?n div 2 ^ j - 1))"
      using Suc.prems(1,2) Ah Bh Ch cur' by (intro Suc.IH) auto
    with False s z' show ?thesis
      by (simp only: add_leaf_loop.simps index_bit [OF n]) (cases filled; simp)
  qed
qed

lemma AddLeaf_node:
  assumes inv: "tree_inv keccak mt L" and room: "length L < 2 ^ 32 - 1"
  shows "\<exists>mt'. AddLeaf keccak mt (tree_count mt) l =
      Ok (node keccak (L @ [l]) (unat (height mt)) (length L div 2 ^ unat (height mt)), mt') \<and>
    height mt' = height mt \<and>
    (length L < 2 ^ unat (height mt) \<longrightarrow> tree_inv keccak mt' (L @ [l]))"
proof -
  from inv have z: "zeros_ok keccak mt" and c: "tree_count mt = word_of_nat (length L)"
    and s: "length (siblings mt) = unat (height mt)" and n: "length L < 2 ^ 32"
    and A: "\<And>j. j < unat (height mt) \<Longrightarrow> odd (length L div 2 ^ j) \<Longrightarrow>
        siblings mt ! j = node keccak L j (length L div 2 ^ j - 1)"
    by (auto simp: tree_inv_def)
  have "\<exists>sibs'. add_leaf_loop keccak mt (word_of_nat (length L)) (unat (height mt)) 0 True (siblings mt) l =
      Ok (sibs', node keccak (L @ [l]) (0 + unat (height mt)) (length L div 2 ^ (0 + unat (height mt)))) \<and>
      length sibs' = unat (height mt) \<and>
      (\<forall>j < unat (height mt). odd (Suc (length L) div 2 ^ j) \<longrightarrow>
         sibs' ! j = node keccak (L @ [l]) j (Suc (length L) div 2 ^ j - 1))"
    by (rule add_leaf_loop_node [OF z _ n s]) (use A in auto)
  then obtain sibs' where sibs':
    "add_leaf_loop keccak mt (word_of_nat (length L)) (unat (height mt)) 0 True (siblings mt) l =
      Ok (sibs', node keccak (L @ [l]) (unat (height mt)) (length L div 2 ^ unat (height mt)))"
    "length sibs' = unat (height mt)"
    "\<forall>j < unat (height mt). odd (Suc (length L) div 2 ^ j) \<longrightarrow>
         sibs' ! j = node keccak (L @ [l]) j (Suc (length L) div 2 ^ j - 1)"
    by auto
  let ?r = "node keccak (L @ [l]) (unat (height mt)) (length L div 2 ^ unat (height mt))"
  let ?mt = "mt\<lparr>siblings := sibs', currentRoot := ?r, tree_count := tree_count mt + 1\<rparr>"
  have "AddLeaf keccak mt (tree_count mt) l = Ok (?r, ?mt)"
    using sibs'(1) by (simp add: AddLeaf_def c)
  moreover have "tree_inv keccak ?mt (L @ [l])" if "length L < 2 ^ unat (height mt)"
    using sibs'(2,3) z c room that by (simp add: tree_inv_def zeros_ok_def add.commute)
  ultimately show ?thesis by auto
qed

lemma NewL1InfoTree_node:
  assumes n: "length L < 2 ^ 32 - 1"
  shows "(case NewL1InfoTree keccak hgt L of
      Ok mt \<Rightarrow> 0 < hgt \<and> length L \<le> 2 ^ unat hgt \<and> height mt = hgt \<and> tree_inv keccak mt L
    | Err e \<Rightarrow> e = MoreThanOneRoot \<and> (hgt = 0 \<or> 2 ^ unat hgt < length L)
    | Panic \<Rightarrow> False)"
proof -
  let ?mt = "\<lparr>height = hgt, zeroHashes = generateZeroHashes keccak hgt,
                tree_count = word_of_nat (length L), siblings = [], currentRoot = 0\<rparr>"
  let ?k = "unat hgt"
  have z: "zeros_ok keccak ?mt"
    by (simp add: zeros_ok_def generateZeroHashes_map del: upt_Suc)
  have c: "tree_count ?mt = 0 \<longleftrightarrow> length L = 0"
    using n by (simp add: word_unat_eq_iff unat_of_nat)
  have u: "unat (tree_count ?mt) = length L"
    using n by (simp add: unat_of_nat)
  have h0: "0 < hgt \<longleftrightarrow> 0 < ?k" "hgt = 0 \<longleftrightarrow> ?k = 0"
    by (simp_all add: word_less_nat_alt unat_eq_0)
  show ?thesis
  proof (cases "length L = 0")
    case True
    have "map (go_index (zeroHashes ?mt)) [0..<?k] = map Some (map (zero_node keccak) [0..<?k])"
      using zeros_at [OF z] by simp
    then have "those (map (go_index (zeroHashes ?mt)) [0..<?k]) = Some (map (zero_node keccak) [0..<?k])"
      by (simp only: those_map_Some)
    then show ?thesis
      using True c BuildL1InfoRoot_node [OF z, of L] z h0
      by (simp add: NewL1InfoTree_def initSiblings_def tree_inv_def zeros_ok_def)
  next
    case False
    then show ?thesis
      using c u ComputeMerkleProof_node [OF z n, of "tree_count ?mt"] z n h0
      by (auto simp: NewL1InfoTree_def initSiblings_def tree_inv_def zeros_ok_def path_siblings_def
          sibling_index_def)
  qed
qed


section \<open>The incremental tree as an append-only accumulator\<close>

fun add_leaves :: "('t \<Rightarrow> 'l \<Rightarrow> ('e, 'r \<times> 't) outcome) \<Rightarrow> 't \<Rightarrow> 'l list \<Rightarrow> ('e, 't) outcome" where
  "add_leaves add t [] = Ok t"
| "add_leaves add t (l # ls) = obind (add t l) (\<lambda>(r, t). add_leaves add t ls)"

text \<open>What a user of an accumulator may rely on: adding a leaf returns the root of all leaves so far.\<close>

locale accumulator =
  fixes inv :: "'t \<Rightarrow> 'l list \<Rightarrow> bool"
    and add :: "'t \<Rightarrow> 'l \<Rightarrow> ('e, 'r \<times> 't) outcome"
    and root_of :: "'t \<Rightarrow> 'r"
    and spec :: "'l list \<Rightarrow> 'r"
    and cap :: nat
  assumes add_ok: "inv t ls \<Longrightarrow> length ls < cap \<Longrightarrow>
      \<exists>t'. add t l = Ok (spec (ls @ [l]), t') \<and> inv t' (ls @ [l])"
    and root_ok: "inv t ls \<Longrightarrow> root_of t = spec ls"
begin

lemma add_leaves_ok:
  "inv t ls \<Longrightarrow> length (ls @ xs) \<le> cap \<Longrightarrow> \<exists>t'. add_leaves add t xs = Ok t' \<and> inv t' (ls @ xs)"
proof (induction xs arbitrary: t ls)
  case Nil
  then show ?case by simp
next
  case (Cons x xs)
  from add_ok [OF Cons.prems(1), of x] Cons.prems(2)
  obtain t' where t': "add t x = Ok (spec (ls @ [x]), t')" "inv t' (ls @ [x])" by auto
  from Cons.IH [OF t'(2)] Cons.prems(2) show ?case
    by (auto simp: t'(1))
qed

lemma root_after_adding:
  assumes "inv t ls" "length (ls @ xs) \<le> cap"
  shows "\<exists>t'. add_leaves add t xs = Ok t' \<and> inv t' (ls @ xs) \<and> root_of t' = spec (ls @ xs)"
  using add_leaves_ok [OF assms] root_ok by blast

end

definition leaf_capacity :: "8 word \<Rightarrow> nat" where
  "leaf_capacity hgt = min (2 ^ unat hgt) (2 ^ 32 - 1)"

interpretation l1: accumulator "\<lambda>mt L. tree_inv keccak mt L \<and> height mt = hgt"
    "\<lambda>mt l. AddLeaf keccak mt (tree_count mt) l" currentRoot "\<lambda>L. node keccak L (unat hgt) 0" "leaf_capacity hgt"
  for keccak hgt
proof unfold_locales
  fix mt :: l1_info_tree and L :: "hash list" and l :: hash
  assume inv: "tree_inv keccak mt L \<and> height mt = hgt" and "length L < leaf_capacity hgt"
  then have "length L < 2 ^ 32 - 1" "length L < 2 ^ unat (height mt)"
    by (auto simp: leaf_capacity_def)
  with AddLeaf_node [of keccak mt L l] inv
  show "\<exists>t'. AddLeaf keccak mt (tree_count mt) l = Ok (node keccak (L @ [l]) (unat hgt) 0, t') \<and>
      tree_inv keccak t' (L @ [l]) \<and> height t' = hgt"
    by fastforce
qed (simp add: tree_inv_def)

section \<open>Properties\<close>

lemma NewL1InfoTree_Ok:
  assumes "NewL1InfoTree keccak hgt L = Ok mt" "length L < 2 ^ 32 - 1"
  shows "0 < hgt" "length L \<le> 2 ^ unat hgt" "height mt = hgt" "tree_inv keccak mt L" "zeros_ok keccak mt"
  using NewL1InfoTree_node [OF assms(2), of hgt keccak] assms(1) by (auto simp: tree_inv_def)

lemma unat_pos: "0 < (h :: 8 word) \<Longrightarrow> 0 < unat h"
  by (simp add: word_less_nat_alt)

text \<open>
  C22. The incremental tree computes the batch root: a tree built from any leaves and then
  extended leaf by leaf with \<open>AddLeaf\<close> never fails while there is room, and its count and
  current root are those \<open>BuildL1InfoRoot\<close> computes from the whole list.
\<close>

theorem incremental_root:
  assumes "NewL1InfoTree keccak hgt L = Ok mt" "length (L @ xs) \<le> 2 ^ unat hgt" "length (L @ xs) < 2 ^ 32 - 1"
  shows "\<exists>mt'. add_leaves (\<lambda>mt l. AddLeaf keccak mt (tree_count mt) l) mt xs = Ok mt' \<and>
    BuildL1InfoRoot keccak mt' (L @ xs) = Ok (currentRoot mt') \<and> tree_count mt' = word_of_nat (length (L @ xs))"
proof -
  have L: "length L < 2 ^ 32 - 1" using assms(3) by simp
  note new = NewL1InfoTree_Ok [OF assms(1) L]
  have "length (L @ xs) \<le> leaf_capacity hgt"
    using assms(2,3) by (simp add: leaf_capacity_def)
  from l1.root_after_adding [OF conjI [OF new(4,3)] this]
  obtain mt' where mt': "add_leaves (\<lambda>mt l. AddLeaf keccak mt (tree_count mt) l) mt xs = Ok mt'"
    "tree_inv keccak mt' (L @ xs)" "height mt' = hgt"
    by blast
  then have "zeros_ok keccak mt'" by (simp add: tree_inv_def)
  with mt' show ?thesis
    using BuildL1InfoRoot_node [of keccak mt' "L @ xs"] unat_pos [OF new(1)] assms(2)
    by (auto simp: tree_inv_def)
qed

definition sample_keccak :: "byte list \<Rightarrow> byte list" where
  "sample_keccak bs = be_bytes 32 (be_nat bs + length bs)"

lemma sample_tree: "length L \<le> 4 \<Longrightarrow> \<exists>mt. NewL1InfoTree sample_keccak 2 L = Ok mt"
  using NewL1InfoTree_node [of L 2 sample_keccak]
  by (cases "NewL1InfoTree sample_keccak 2 L") auto

theorem incremental_root_witness:
  "\<exists>mt mt'. NewL1InfoTree sample_keccak 2 [5] = Ok mt \<and>
    add_leaves (\<lambda>mt l. AddLeaf sample_keccak mt (tree_count mt) l) mt [6, 7] = Ok mt' \<and>
    BuildL1InfoRoot sample_keccak mt' [5, 6, 7] = Ok (currentRoot mt') \<and> tree_count mt' = 3"
proof -
  obtain mt where mt: "NewL1InfoTree sample_keccak 2 [5] = Ok mt"
    using sample_tree [of "[5]"] by auto
  from incremental_root [OF mt, of "[6, 7]"] mt show ?thesis by simp
qed

lemma compute_proof_climbs:
  assumes "NewL1InfoTree keccak hgt L0 = Ok mt" "length L0 < 2 ^ 32 - 1"
    and "length L \<le> 2 ^ unat hgt" "length L < 2 ^ 32 - 1" "unat index < 2 ^ unat hgt"
  shows "\<exists>sibs root. ComputeMerkleProof keccak mt index L = Ok (sibs, root) \<and>
    BuildL1InfoRoot keccak mt L = Ok root \<and> length sibs = unat hgt \<and>
    climb keccak (unat index) (if unat index < length L then L ! unat index else 0) sibs = root"
proof -
  note new = NewL1InfoTree_Ok [OF assms(1,2)]
  have "climb keccak (unat index) (node keccak L 0 (unat index)) (path_siblings keccak L 0 (unat hgt) (unat index)) =
      node keccak L (unat hgt) 0"
    using climb_path [of keccak "unat index" L 0 "unat hgt"] assms(5) by simp
  then show ?thesis
    using ComputeMerkleProof_node [OF new(5) assms(4), of index] BuildL1InfoRoot_node [OF new(5), of L]
      assms(3) unat_pos [OF new(1)] new(3)
    by (simp add: path_siblings_def)
qed

text \<open>
  C23. The proof \<open>ComputeMerkleProof\<close> returns for a leaf verifies: hashing the leaf with the
  siblings along its path, left or right by the bits of the index, gives the root, which is the
  one \<open>BuildL1InfoRoot\<close> computes; for an index past the leaves it is the proof that the leaf
  there is empty.
\<close>

theorem merkle_proof_verifies:
  assumes "NewL1InfoTree keccak hgt L0 = Ok mt" "length L0 < 2 ^ 32 - 1"
    and "length L \<le> 2 ^ unat hgt" "length L < 2 ^ 32 - 1" "unat index < 2 ^ unat hgt"
  shows "\<exists>sibs root. ComputeMerkleProof keccak mt index L = Ok (sibs, root) \<and>
    BuildL1InfoRoot keccak mt L = Ok root \<and> length sibs = unat hgt \<and>
    climb keccak (unat index) (if unat index < length L then L ! unat index else 0) sibs = root"
  using assms by (rule compute_proof_climbs)

theorem merkle_proof_verifies_witness:
  "\<exists>mt sibs root. NewL1InfoTree sample_keccak 2 [] = Ok mt \<and>
    ComputeMerkleProof sample_keccak mt 2 [5, 6, 7] = Ok (sibs, root) \<and>
    BuildL1InfoRoot sample_keccak mt [5, 6, 7] = Ok root \<and> climb sample_keccak 2 7 sibs = root"
proof -
  obtain mt where mt: "NewL1InfoTree sample_keccak 2 [] = Ok mt"
    using sample_tree [of "[]"] by auto
  from merkle_proof_verifies [OF mt, of "[5, 6, 7]" 2] mt show ?thesis by auto
qed

text \<open>
  Building a tree succeeds exactly when the leaves fit: it fails, with the error for more than
  one root and never a panic, for height 0 and for more than \<open>2^height\<close> leaves, and the root of a
  built tree is the one of the complete tree over its leaves.
\<close>

theorem new_tree_fits:
  assumes "length L < 2 ^ 32 - 1"
  shows "(if 0 < hgt \<and> length L \<le> 2 ^ unat hgt
    then \<exists>mt. NewL1InfoTree keccak hgt L = Ok mt \<and> currentRoot mt = node keccak L (unat hgt) 0 \<and>
      GetCurrentRootCountAndSiblings mt = (currentRoot mt, word_of_nat (length L), siblings mt)
    else NewL1InfoTree keccak hgt L = Err MoreThanOneRoot)"
  using NewL1InfoTree_node [OF assms, of hgt keccak]
  by (cases "NewL1InfoTree keccak hgt L") (auto simp: tree_inv_def GetCurrentRootCountAndSiblings_def)

theorem new_tree_fits_witness:
  "NewL1InfoTree sample_keccak 2 [1, 2, 3, 4, 5] = Err MoreThanOneRoot"
  using new_tree_fits [of "[1, 2, 3, 4, 5]" 2 sample_keccak] by simp

text \<open>
  \<open>AddLeaf\<close> checks the index but not whether there is room. Any index but the count is
  refused. On a full tree it reports success, with the root of a tree that holds the new leaf
  alone, while \<open>BuildL1InfoRoot\<close> refuses the same leaves.
\<close>

theorem add_leaf_to_full_tree:
  assumes "NewL1InfoTree keccak hgt L = Ok mt" "length L = 2 ^ unat hgt" "unat hgt < 32"
  shows "(index \<noteq> tree_count mt \<longrightarrow> AddLeaf keccak mt index l = Err MismatchedLeafCount) \<and>
    (\<exists>mt'. AddLeaf keccak mt (tree_count mt) l = Ok (node keccak [l] (unat hgt) 0, mt')) \<and>
    BuildL1InfoRoot keccak mt (L @ [l]) = Err MoreThanOneRoot"
proof -
  have "(2 :: nat) ^ unat hgt \<le> 2 ^ 31"
    using assms(3) by (intro power_increasing) simp_all
  then have n: "length L < 2 ^ 32 - 1" using assms(2) by simp
  note new = NewL1InfoTree_Ok [OF assms(1) n]
  have last: "node keccak (L @ [l]) h (2 ^ unat hgt div 2 ^ h + j) = node keccak [l] h j" if "h \<le> unat hgt" for h j
    using that
  proof (induction h arbitrary: j)
    case 0
    then show ?case by (simp add: assms(2) nth_append)
  next
    case (Suc h)
    then have "(2 :: nat) ^ unat hgt div 2 ^ h = 2 * (2 ^ unat hgt div 2 ^ Suc h)"
      by (simp add: power_diff [symmetric] Suc_diff_le flip: power_Suc)
    then show ?case
      using Suc.IH [of "2 * j"] Suc.IH [of "2 * j + 1"] Suc.prems by (simp add: algebra_simps)
  qed
  have "node keccak (L @ [l]) (unat hgt) 1 = node keccak [l] (unat hgt) 0"
    using last [of "unat hgt" 0] by simp
  then show ?thesis
    using AddLeaf_node [OF new(4) n, of l] new(3) assms(2) BuildL1InfoRoot_node [OF new(5), of "L @ [l]"]
    by (auto simp: AddLeaf_def)
qed

theorem add_leaf_to_full_tree_witness:
  "\<exists>mt mt'. NewL1InfoTree sample_keccak 2 [1, 2, 3, 4] = Ok mt \<and>
    AddLeaf sample_keccak mt (tree_count mt) 9 = Ok (node sample_keccak [9] 2 0, mt') \<and>
    BuildL1InfoRoot sample_keccak mt [1, 2, 3, 4, 9] = Err MoreThanOneRoot"
proof -
  obtain mt where mt: "NewL1InfoTree sample_keccak 2 [1, 2, 3, 4] = Ok mt"
    using sample_tree [of "[1, 2, 3, 4]"] by auto
  from add_leaf_to_full_tree [OF mt, of 0 9] mt show ?thesis by simp
qed

end
