(* ===== verification/Prover.thy ===== *)
theory Prover
  imports Hex
begin

text \<open>
  \<open>aggregator/prover/prover.go\<close>: the client side of a connection with a prover, and the
  messages of \<open>aggregator.pb.go\<close> it sends and reads. A connection is what the prover answers to
  a message: a message or a failure of the stream. Waiting for a proof polls the prover, so it
  takes the answers of the successive polls (and, for each, whether the context is done) and
  returns \<open>None\<close> while they are all pending.
\<close>

section \<open>Messages\<close>

datatype gen_result =
  RESULT_UNSPECIFIED | RESULT_OK | RESULT_ERROR | RESULT_INTERNAL_ERROR | RESULT_OTHER int

datatype prover_status =
  STATUS_UNSPECIFIED | STATUS_BOOTING | STATUS_COMPUTING | STATUS_IDLE | STATUS_HALT | STATUS_OTHER int

datatype proof_result =
  PROOF_UNSPECIFIED | PROOF_COMPLETED_OK | PROOF_ERROR | PROOF_COMPLETED_ERROR | PROOF_PENDING |
  PROOF_INTERNAL_ERROR | PROOF_CANCEL | PROOF_OTHER int

record l1_data =
  l1_GlobalExitRoot :: "byte list"
  l1_BlockhashL1 :: "byte list"
  l1_MinTimestamp :: u32
  l1_SmtProof :: "byte list list"

record stateless_public_inputs =
  pi_Witness :: "byte list"
  pi_OldAccInputHash :: "byte list"
  pi_OldBatchNum :: u64
  pi_ChainId :: u64
  pi_ForkId :: u64
  pi_BatchL2Data :: "byte list"
  pi_L1InfoRoot :: "byte list"
  pi_TimestampLimit :: u64
  pi_SequencerAddr :: string
  pi_AggregatorAddr :: string
  pi_L1InfoTreeData :: "(u32 \<times> l1_data) list"
  pi_ForcedBlockhashL1 :: "byte list"

record public_inputs_extended =
  NewStateRoot :: "byte list"
  NewLocalExitRoot :: "byte list"

record final_proof =
  fp_Proof :: string
  fp_Public :: public_inputs_extended

record status_response =
  st_Status :: prover_status
  st_ProverName :: string
  st_ProverId :: string
  st_ForkId :: u64

record gen_response =
  gen_Id :: string
  gen_Result :: gen_result

datatype proof_payload = FinalProof final_proof | RecursiveProof string | NoPayload

record get_proof_response =
  gp_Id :: string
  gp_Payload :: proof_payload
  gp_Result :: proof_result

datatype aggregator_message =
    GetStatusRequest
  | GenStatelessBatchProofRequest stateless_public_inputs
  | GenAggregatedProofRequest string string
  | GenFinalProofRequest string string
  | CancelRequest string
  | GetProofRequest string

datatype prover_message =
    GetStatusResponse status_response
  | GenBatchProofResponse gen_response
  | GenAggregatedProofResponse gen_response
  | GenFinalProofResponse gen_response
  | CancelResponse gen_result
  | GetProofResponse get_proof_response
  | NoResponse

section \<open>The client\<close>

datatype prover_error =
  ErrSend | ErrRecv | ErrBadProverResponse | ErrProverInternalError | ErrProverCompletedError |
  ErrBadRequest | ErrUnspecified | ErrUnknown | ErrProofCanceled | ErrContextDone

datatype stream_reply = SendFails | RecvFails | Received prover_message

type_synonym connection = "aggregator_message \<Rightarrow> stream_reply"

definition prover_call :: "connection \<Rightarrow> aggregator_message \<Rightarrow> (prover_error, prover_message) outcome" where
  "prover_call conn req =
     (case conn req of SendFails \<Rightarrow> Err ErrSend | RecvFails \<Rightarrow> Err ErrRecv | Received m \<Rightarrow> Ok m)"

definition Status :: "connection \<Rightarrow> (prover_error, status_response) outcome" where
  "Status conn =
     obind (prover_call conn GetStatusRequest) (\<lambda>res.
     case res of GetStatusResponse s \<Rightarrow> Ok s | _ \<Rightarrow> Err ErrBadProverResponse)"

record prover =
  prover_name :: string
  prover_id :: string

definition NewProver :: "connection \<Rightarrow> (prover_error, prover) outcome" where
  "NewProver conn =
     obind (Status conn) (\<lambda>status. Ok \<lparr>prover_name = st_ProverName status, prover_id = st_ProverId status\<rparr>)"

definition IsIdle :: "connection \<Rightarrow> (prover_error, bool) outcome" where
  "IsIdle conn = obind (Status conn) (\<lambda>status. Ok (st_Status status = STATUS_IDLE))"

definition SupportsForkID :: "connection \<Rightarrow> u64 \<Rightarrow> bool" where
  "SupportsForkID conn forkID = (case Status conn of Ok status \<Rightarrow> st_ForkId status = forkID | _ \<Rightarrow> False)"

definition BatchProof :: "connection \<Rightarrow> stateless_public_inputs \<Rightarrow> (prover_error, string) outcome" where
  "BatchProof conn input =
     obind (prover_call conn (GenStatelessBatchProofRequest input)) (\<lambda>res.
     case res of
       GenBatchProofResponse r \<Rightarrow>
         (case gen_Result r of
            RESULT_UNSPECIFIED \<Rightarrow> Err ErrUnspecified
          | RESULT_OK \<Rightarrow> Ok (gen_Id r)
          | RESULT_ERROR \<Rightarrow> Err ErrBadRequest
          | RESULT_INTERNAL_ERROR \<Rightarrow> Err ErrProverInternalError
          | RESULT_OTHER _ \<Rightarrow> Err ErrUnknown)
     | _ \<Rightarrow> Err ErrBadProverResponse)"

definition AggregatedProof :: "connection \<Rightarrow> string \<Rightarrow> string \<Rightarrow> (prover_error, string) outcome" where
  "AggregatedProof conn inputProof1 inputProof2 =
     obind (prover_call conn (GenAggregatedProofRequest inputProof1 inputProof2)) (\<lambda>res.
     case res of
       GenAggregatedProofResponse r \<Rightarrow>
         (case gen_Result r of
            RESULT_UNSPECIFIED \<Rightarrow> Err ErrUnspecified
          | RESULT_OK \<Rightarrow> Ok (gen_Id r)
          | RESULT_ERROR \<Rightarrow> Err ErrBadRequest
          | RESULT_INTERNAL_ERROR \<Rightarrow> Err ErrProverInternalError
          | RESULT_OTHER _ \<Rightarrow> Err ErrUnknown)
     | _ \<Rightarrow> Err ErrBadProverResponse)"

definition FinalProofRequest :: "connection \<Rightarrow> string \<Rightarrow> string \<Rightarrow> (prover_error, string) outcome" where
  "FinalProofRequest conn inputProof aggregatorAddr =
     obind (prover_call conn (GenFinalProofRequest inputProof aggregatorAddr)) (\<lambda>res.
     case res of
       GenFinalProofResponse r \<Rightarrow>
         (case gen_Result r of
            RESULT_UNSPECIFIED \<Rightarrow> Err ErrUnspecified
          | RESULT_OK \<Rightarrow> Ok (gen_Id r)
          | RESULT_ERROR \<Rightarrow> Err ErrBadRequest
          | RESULT_INTERNAL_ERROR \<Rightarrow> Err ErrProverInternalError
          | RESULT_OTHER _ \<Rightarrow> Err ErrUnknown)
     | _ \<Rightarrow> Err ErrBadProverResponse)"

definition CancelProofRequest :: "connection \<Rightarrow> string \<Rightarrow> (prover_error, unit) outcome" where
  "CancelProofRequest conn proofID =
     obind (prover_call conn (CancelRequest proofID)) (\<lambda>res.
     case res of
       CancelResponse r \<Rightarrow>
         (case r of
            RESULT_UNSPECIFIED \<Rightarrow> Err ErrUnspecified
          | RESULT_OK \<Rightarrow> Ok ()
          | RESULT_ERROR \<Rightarrow> Err ErrBadRequest
          | RESULT_INTERNAL_ERROR \<Rightarrow> Err ErrProverInternalError
          | RESULT_OTHER _ \<Rightarrow> Err ErrUnknown)
     | _ \<Rightarrow> Err ErrBadProverResponse)"

record poll =
  ctx_done_at :: bool
  conn_at :: connection

fun waitProof :: "poll list \<Rightarrow> string \<Rightarrow> (prover_error, get_proof_response) outcome option" where
  "waitProof [] proofID = None"
| "waitProof (p # ps) proofID =
     (if ctx_done_at p then Some (Err ErrContextDone)
      else
        case prover_call (conn_at p) (GetProofRequest proofID) of
          Err e \<Rightarrow> Some (Err e)
        | Panic \<Rightarrow> Some Panic
        | Ok (GetProofResponse r) \<Rightarrow>
            (case gp_Result r of
               PROOF_PENDING \<Rightarrow> waitProof ps proofID
             | PROOF_UNSPECIFIED \<Rightarrow> Some (Err ErrUnspecified)
             | PROOF_COMPLETED_OK \<Rightarrow> Some (Ok r)
             | PROOF_ERROR \<Rightarrow> Some (Err ErrBadRequest)
             | PROOF_COMPLETED_ERROR \<Rightarrow> Some (Err ErrProverCompletedError)
             | PROOF_INTERNAL_ERROR \<Rightarrow> Some (Err ErrProverInternalError)
             | PROOF_CANCEL \<Rightarrow> Some (Err ErrProofCanceled)
             | PROOF_OTHER _ \<Rightarrow> Some (Err ErrUnknown))
        | Ok _ \<Rightarrow> Some (Err ErrBadProverResponse))"

section \<open>The state root in a proof\<close>

text \<open>\<open>strconv.ParseInt(s, 10, 64)\<close> and \<open>strings.Contains\<close>.\<close>

definition parse_int64 :: "string \<Rightarrow> (num_error, int) outcome" where
  "parse_int64 s =
     (let neg = (s \<noteq> [] \<and> hd s = CHR ''-'');
          digits = (if s \<noteq> [] \<and> hd s \<in> {CHR ''-'', CHR ''+''} then tl s else s)
      in obind (parse_uint64 10 digits) (\<lambda>un.
         if neg then (if unat un > 2 ^ 63 then Err ErrRange else Ok (- int (unat un)))
         else (if unat un \<ge> 2 ^ 63 then Err ErrRange else Ok (int (unat un)))))"

fun contains_text :: "string \<Rightarrow> string \<Rightarrow> bool" where
  "contains_text s [] = (s = [])"
| "contains_text s (c # cs) = (take (length s) (c # cs) = s \<or> contains_text s cs)"

text \<open>\<open>nroundsf\<close> is the constant \<open>NROUNDSF\<close> of the Poseidon package, which is 8.\<close>

definition fea2scalar :: "nat \<Rightarrow> u64 list \<Rightarrow> nat option" where
  "fea2scalar nroundsf v =
     (if length v \<noteq> nroundsf then Some 0
      else if length v < 8 then None
      else Some (unat (v ! 0) + unat (v ! 1) * 2 ^ 32 + unat (v ! 2) * 2 ^ 64 + unat (v ! 3) * 2 ^ 96 +
           unat (v ! 4) * 2 ^ 128 + unat (v ! 5) * 2 ^ 160 + unat (v ! 6) * 2 ^ 192 + unat (v ! 7) * 2 ^ 224))"

text \<open>Numbers 19 to 26 of the public values; \<open>log.Fatal\<close> ends the process.\<close>

fun state_root_limbs :: "string list \<Rightarrow> nat \<Rightarrow> nat \<Rightarrow> ('e, u64 list) outcome" where
  "state_root_limbs publics i 0 = Ok []"
| "state_root_limbs publics i (Suc k) =
     obind (of_option (go_index publics i)) (\<lambda>s.
     case parse_int64 s of
       Ok u \<Rightarrow> obind (state_root_limbs publics (i + 1) k) (\<lambda>v. Ok (word_of_int u # v))
     | _ \<Rightarrow> Panic)"

text \<open>
  \<open>common.HexToHash\<close> and \<open>HexToAddress\<close>: an optional \<open>0x\<close>, an odd length padded, invalid digits
  dropped with what follows. \<open>unmarshal\<close> is \<open>json.Unmarshal\<close> into the list of public values.
\<close>

definition from_hex :: "string \<Rightarrow> byte list" where \<comment> \<open>\<open>common.FromHex\<close>\<close>
  "from_hex s =
     (let t = (if take 2 s \<in> {''0x'', ''0X''} then drop 2 s else s)
      in hex2bytes (if odd (length t) then CHR ''0'' # t else t))"

definition hex_to_hash :: "string \<Rightarrow> hash" where
  "hex_to_hash s = bytes_to_hash (from_hex s)"

definition hex_to_address :: "string \<Rightarrow> address" where
  "hex_to_address s = bytes_to_address (from_hex s)"

definition GetStateRootFromProof ::
    "nat \<Rightarrow> (string \<Rightarrow> string list option) \<Rightarrow> string \<Rightarrow> ('e, hash \<times> bool) outcome" where
  "GetStateRootFromProof nroundsf unmarshal proof_text =
     (if \<not> contains_text ''publics'' proof_text then Ok (0, True)
      else case unmarshal proof_text of
             None \<Rightarrow> Ok (0, False)
           | Some publics \<Rightarrow>
               obind (state_root_limbs publics 19 8) (\<lambda>v.
               obind (of_option (fea2scalar nroundsf v)) (\<lambda>bigSR.
               let hexSR = hex_text bigSR;
                   hexSR = (if length hexSR mod 2 \<noteq> 0 then CHR ''0'' # hexSR else hexSR)
               in Ok (hex_to_hash hexSR, True))))"

text \<open>
  The boolean above says whether the error is \<open>nil\<close>; \<open>WaitRecursiveProof\<close> only logs it. Both
  waiting functions assert the type of the payload, which panics for another one.
\<close>

definition WaitRecursiveProof ::
    "nat \<Rightarrow> (string \<Rightarrow> string list option) \<Rightarrow> poll list \<Rightarrow> string \<Rightarrow> (prover_error, string \<times> hash) outcome option" where
  "WaitRecursiveProof nroundsf unmarshal polls proofID =
     map_option (\<lambda>r. obind r (\<lambda>res.
       case gp_Payload res of
         RecursiveProof p \<Rightarrow> obind (GetStateRootFromProof nroundsf unmarshal p) (\<lambda>(sr, _). Ok (p, sr))
       | _ \<Rightarrow> Panic)) (waitProof polls proofID)"

definition WaitFinalProof :: "poll list \<Rightarrow> string \<Rightarrow> (prover_error, final_proof) outcome option" where
  "WaitFinalProof polls proofID =
     map_option (\<lambda>r. obind r (\<lambda>res.
       case gp_Payload res of FinalProof p \<Rightarrow> Ok p | _ \<Rightarrow> Panic)) (waitProof polls proofID)"

section \<open>Decimal and hexadecimal texts\<close>


lemma dec_text_not_Nil [simp]: "dec_text n \<noteq> []"
  by (subst dec_text.simps) simp

lemma digits_val_dec_text: "digits_val 10 0 (dec_text n) = Some n"
proof (induction n rule: dec_text.induct)
  case (1 n)
  show ?case
  proof (cases "n < 10")
    case True
    then show ?thesis by (subst dec_text.simps) simp
  next
    case False
    with 1 show ?thesis
      by (subst dec_text.simps) (simp add: digits_val_append)
  qed
qed

lemma hex_char_not_sign: "hex_char n \<noteq> CHR ''-''" "hex_char n \<noteq> CHR ''+''"
proof -
  have "hex_digit_val (hex_char n) \<noteq> None" by simp
  then show "hex_char n \<noteq> CHR ''-''" "hex_char n \<noteq> CHR ''+''" by (metis hex_digit_signs)+
qed

lemma hd_dec_text: "hd (dec_text n) \<noteq> CHR ''-''" "hd (dec_text n) \<noteq> CHR ''+''"
proof (induction n rule: dec_text.induct)
  case (1 n)
  case 1
  then show ?case using "1.IH"(1) hex_char_not_sign by (cases "n < 10") (simp_all add: dec_text.simps [of n])
next
  case (1 n)
  case 2
  then show ?case using "1.IH"(2) hex_char_not_sign by (cases "n < 10") (simp_all add: dec_text.simps [of n])
qed

lemma parse_uint64_dec_text: "n < 2 ^ 64 \<Longrightarrow> parse_uint64 10 (dec_text n) = Ok (word_of_nat n)"
  by (simp add: parse_uint64_def digits_val_dec_text)

lemma parse_int64_dec_text: "n < 2 ^ 63 \<Longrightarrow> parse_int64 (dec_text n) = Ok (int n)"
  by (simp add: parse_int64_def hd_dec_text parse_uint64_dec_text unat_of_nat)

lemma length_hex_text_bound: "n < 16 ^ length (hex_text n)"
proof (induction n rule: hex_text.induct)
  case (1 n)
  show ?case
  proof (cases "n < 16")
    case True
    then show ?thesis by (subst hex_text.simps) simp
  next
    case False
    then have "n div 16 < 16 ^ length (hex_text (n div 16))" using 1 by simp
    with False show ?thesis by (subst hex_text.simps) (simp add: less_mult_imp_div_less div_less_iff_less_mult)
  qed
qed

lemma even_hex_text:
  assumes "s = (if length (hex_text n) mod 2 \<noteq> 0 then CHR ''0'' # hex_text n else hex_text n)"
  shows "\<exists>k. s = encode_to_string (be_bytes k n) \<and> n < 256 ^ k"
proof -
  let ?l = "length (hex_text n)" and ?k = "(length (hex_text n) + 1) div 2"
  have "(16 :: nat) ^ ?l \<le> 16 ^ (2 * ?k)" by (intro power_increasing) auto
  then have n: "n < 256 ^ ?k" using length_hex_text_bound [of n] by (simp add: power_mult)
  have "0 < ?l" by simp
  then have "pad_left (2 * ?k) (hex_text n) = s"
    using assms by (cases "even ?l") (auto simp: pad_left_def mod2_eq_if elim!: evenE oddE)
  then show ?thesis
    using pad_left_hex_be_bytes [OF n] \<open>0 < ?l\<close> n by (intro exI [of _ ?k]) simp
qed

lemma hex_to_hash_text:
  assumes "n < 2 ^ 256" "s = (if length (hex_text n) mod 2 \<noteq> 0 then CHR ''0'' # hex_text n else hex_text n)"
  shows "hex_to_hash s = word_of_nat n"
proof -
  obtain k where k: "s = encode_to_string (be_bytes k n)" "n < 256 ^ k"
    using even_hex_text [OF assms(2)] by blast
  have "hex_digit c" if "c \<in> set s" for c
    using that assms(2) set_hex_text [of c n]
    by (auto simp: hex_digit_def hex_digit_val_def split: if_splits)
  moreover have "\<not> hex_digit (CHR ''x'')" "\<not> hex_digit (CHR ''X'')"
    by (simp_all add: hex_digit_def hex_digit_val_def Let_def)
  ultimately have "CHR ''x'' \<notin> set s" "CHR ''X'' \<notin> set s" by blast+
  then have "take 2 s \<noteq> ''0x''" "take 2 s \<noteq> ''0X''"
    by (metis in_set_takeD list.set_intros(1,2))+
  then show ?thesis
    using k by (simp add: hex_to_hash_def from_hex_def Let_def bytes_to_hash_def be_nat_be_bytes)
qed


lemma unat_less: "unat (h :: hash) < 2 ^ 256"
proof -
  have "unat h < 2 ^ LENGTH(256)" by (rule unsigned_less)
  then show ?thesis by simp
qed

subsection \<open>Limbs\<close>

fun limbs :: "nat \<Rightarrow> nat \<Rightarrow> nat list" where
  "limbs 0 n = []"
| "limbs (Suc k) n = n mod 2 ^ 32 # limbs k (n div 2 ^ 32)"

fun limbs_val :: "nat list \<Rightarrow> nat" where
  "limbs_val [] = 0"
| "limbs_val (l # ls) = l + 2 ^ 32 * limbs_val ls"

lemma limbs_val_limbs: "limbs_val (limbs k n) = n mod (2 ^ 32) ^ k"
proof (induction k arbitrary: n)
  case (Suc k)
  then show ?case
    by (simp add: mod_mult2_eq del: power_Suc) (simp add: mod_mult2_eq add.commute)
qed simp

lemma length_limbs [simp]: "length (limbs k n) = k"
  by (induction k n rule: limbs.induct) auto

lemma limbs_less: "l \<in> set (limbs k n) \<Longrightarrow> l < 2 ^ 32"
  by (induction k n rule: limbs.induct) auto

lemma fea2scalar_limbs_val:
  assumes "length ls = 8" "\<And>l. l \<in> set ls \<Longrightarrow> l < 2 ^ 64"
  shows "fea2scalar 8 (map word_of_nat ls) = Some (limbs_val ls)"
proof -
  have u: "unat (word_of_nat (ls ! i) :: u64) = ls ! i" if "i < 8" for i
    using that assms by (simp add: unat_of_nat)
  have "ls = [ls ! 0, ls ! 1, ls ! 2, ls ! 3, ls ! 4, ls ! 5, ls ! 6, ls ! 7]"
    using assms(1) by (auto simp: list_eq_iff_nth_eq less_Suc_eq numeral_eq_Suc nth_Cons')
  then have "limbs_val ls = limbs_val [ls ! 0, ls ! 1, ls ! 2, ls ! 3, ls ! 4, ls ! 5, ls ! 6, ls ! 7]"
    by simp
  then show ?thesis
    using assms(1) u by (simp add: fea2scalar_def del: word_of_nat_eq_iff)
qed

lemma state_root_limbs_text:
  assumes "\<And>l. l \<in> set ls \<Longrightarrow> l < 2 ^ 63" "length pre + length ls < 2 ^ 63"
  shows "state_root_limbs (pre @ map dec_text ls @ post) (length pre) (length ls) =
    (Ok (map word_of_nat ls) :: ('e, u64 list) outcome)"
  using assms
proof (induction ls arbitrary: pre)
  case (Cons l ls)
  have "go_index (pre @ dec_text l # map dec_text ls @ post) (length pre) = Some (dec_text l)"
    using Cons.prems(2) by (intro go_index_mid) simp
  moreover have "state_root_limbs ((pre @ [dec_text l]) @ map dec_text ls @ post) (length (pre @ [dec_text l])) (length ls) =
      (Ok (map word_of_nat ls) :: ('e, u64 list) outcome)"
    by (rule Cons.IH) (use Cons.prems in auto)
  ultimately show ?case
    using Cons.prems(1) [of l] by (simp add: parse_int64_dec_text)
qed simp

lemma state_root_of_limbs:
  fixes h :: hash
  assumes "length pre = 19" "publics = pre @ map dec_text (limbs 8 (unat h)) @ post"
    "contains_text ''publics'' txt" "unmarshal txt = Some publics"
  shows "GetStateRootFromProof 8 unmarshal txt = (Ok (h, True) :: ('e, hash \<times> bool) outcome)"
proof -
  let ?l = "limbs 8 (unat h)"
  have small: "l < 2 ^ 63" if "l \<in> set ?l" for l
    using limbs_less [OF that] by simp
  have "state_root_limbs publics (length pre) (length ?l) =
      (Ok (map word_of_nat ?l) :: ('e, u64 list) outcome)"
    unfolding assms(2) by (rule state_root_limbs_text) (use small assms(1) in auto)
  moreover have "fea2scalar 8 (map word_of_nat ?l) = Some (unat h)"
  proof -
    have "fea2scalar 8 (map word_of_nat ?l) = Some (limbs_val ?l)"
    proof (rule fea2scalar_limbs_val)
      fix l assume "l \<in> set ?l"
      with small [of l] show "l < 2 ^ 64" by simp
    qed simp
    moreover have "limbs_val ?l = unat h mod 2 ^ 256"
      by (simp add: limbs_val_limbs del: limbs.simps)
    ultimately show ?thesis using unat_less [of h] by simp
  qed
  moreover have "unat h < 2 ^ 256" by (rule unat_less)
  ultimately show ?thesis
    using assms hex_to_hash_text [OF _ refl, of "unat h"]
    by (simp add: GetStateRootFromProof_def Let_def del: limbs.simps)
qed


section \<open>What the client returns\<close>

definition settled :: "string \<Rightarrow> poll \<Rightarrow> bool" where
  "settled proofID p \<longleftrightarrow>
     \<not> (\<exists>r. \<not> ctx_done_at p \<and> conn_at p (GetProofRequest proofID) = Received (GetProofResponse r) \<and>
          gp_Result r = PROOF_PENDING)"

lemma waitProof_pending: "\<not> settled proofID p \<Longrightarrow> waitProof (p # ps) proofID = waitProof ps proofID"
  by (auto simp: settled_def prover_call_def)

lemma waitProof_settled:
  assumes "settled proofID p"
  shows "waitProof (p # ps) proofID = waitProof [p] proofID \<and> (\<exists>r. waitProof [p] proofID = Some r \<and> r \<noteq> Panic)"
proof (cases "conn_at p (GetProofRequest proofID)")
  case (Received m)
  show ?thesis
  proof (cases m)
    case (GetProofResponse r)
    with Received assms show ?thesis
      by (cases "gp_Result r") (simp_all add: settled_def prover_call_def)
  qed (simp_all add: Received prover_call_def)
qed (simp_all add: prover_call_def)

text \<open>
  C28. Waiting for a proof is decided by the first poll that is not answered by \<open>PENDING\<close> (a context
  that is done, a failing stream and every other answer included): the polls before it do not
  matter, those after it are not made, and the wait goes on exactly while there is no such poll.
\<close>
theorem wait_decided_by_first_settled:
  "waitProof ps proofID = (case filter (settled proofID) ps of [] \<Rightarrow> None | p # _ \<Rightarrow> waitProof [p] proofID) \<and>
   (waitProof ps proofID = None \<longleftrightarrow> filter (settled proofID) ps = []) \<and>
   waitProof ps proofID \<noteq> Some Panic"
proof (induction ps)
  case (Cons p ps)
  show ?case
  proof (cases "settled proofID p")
    case True
    then show ?thesis
      using waitProof_settled [OF True, of ps] by (auto simp del: waitProof.simps)
  next
    case False
    then have f: "filter (settled proofID) (p # ps) = filter (settled proofID) ps" by simp
    show ?thesis unfolding waitProof_pending [OF False] f by (rule Cons.IH)
  qed
qed simp

lemma BatchProof_cases:
  "(BatchProof conn input = Ok i \<longleftrightarrow>
      (\<exists>r. conn (GenStatelessBatchProofRequest input) = Received (GenBatchProofResponse r) \<and> gen_Result r = RESULT_OK \<and> gen_Id r = i)) \<and> BatchProof conn input \<noteq> Panic"
proof (cases "conn (GenStatelessBatchProofRequest input)")
  case (Received m)
  show ?thesis
  proof (cases m)
    case (GenBatchProofResponse r)
    with Received show ?thesis by (cases "gen_Result r") (simp_all add: BatchProof_def prover_call_def)
  qed (simp_all add: Received BatchProof_def prover_call_def)
qed (simp_all add: BatchProof_def prover_call_def)

lemma AggregatedProof_cases:
  "(AggregatedProof conn p1 p2 = Ok i \<longleftrightarrow>
      (\<exists>r. conn (GenAggregatedProofRequest p1 p2) = Received (GenAggregatedProofResponse r) \<and> gen_Result r = RESULT_OK \<and> gen_Id r = i)) \<and> AggregatedProof conn p1 p2 \<noteq> Panic"
proof (cases "conn (GenAggregatedProofRequest p1 p2)")
  case (Received m)
  show ?thesis
  proof (cases m)
    case (GenAggregatedProofResponse r)
    with Received show ?thesis by (cases "gen_Result r") (simp_all add: AggregatedProof_def prover_call_def)
  qed (simp_all add: Received AggregatedProof_def prover_call_def)
qed (simp_all add: AggregatedProof_def prover_call_def)

lemma FinalProof_cases:
  "(FinalProofRequest conn p1 addr = Ok i \<longleftrightarrow>
      (\<exists>r. conn (GenFinalProofRequest p1 addr) = Received (GenFinalProofResponse r) \<and> gen_Result r = RESULT_OK \<and> gen_Id r = i)) \<and> FinalProofRequest conn p1 addr \<noteq> Panic"
proof (cases "conn (GenFinalProofRequest p1 addr)")
  case (Received m)
  show ?thesis
  proof (cases m)
    case (GenFinalProofResponse r)
    with Received show ?thesis by (cases "gen_Result r") (simp_all add: FinalProofRequest_def prover_call_def)
  qed (simp_all add: Received FinalProofRequest_def prover_call_def)
qed (simp_all add: FinalProofRequest_def prover_call_def)

text \<open>
  A generation request returns an identifier exactly when the prover answers with the message of
  that request and \<open>RESULT_OK\<close>, and it is the identifier of the answer; no answer makes it panic.
\<close>
theorem generation_requests_ok:
  "(BatchProof conn input = Ok i \<longleftrightarrow>
      (\<exists>r. conn (GenStatelessBatchProofRequest input) = Received (GenBatchProofResponse r) \<and>
           gen_Result r = RESULT_OK \<and> gen_Id r = i)) \<and>
   (AggregatedProof conn p1 p2 = Ok i \<longleftrightarrow>
      (\<exists>r. conn (GenAggregatedProofRequest p1 p2) = Received (GenAggregatedProofResponse r) \<and>
           gen_Result r = RESULT_OK \<and> gen_Id r = i)) \<and>
   (FinalProofRequest conn p1 addr = Ok i \<longleftrightarrow>
      (\<exists>r. conn (GenFinalProofRequest p1 addr) = Received (GenFinalProofResponse r) \<and>
           gen_Result r = RESULT_OK \<and> gen_Id r = i)) \<and>
   BatchProof conn input \<noteq> Panic \<and> AggregatedProof conn p1 p2 \<noteq> Panic \<and> FinalProofRequest conn p1 addr \<noteq> Panic"
  using BatchProof_cases AggregatedProof_cases FinalProof_cases by blast

text \<open>
  A prover that answers \<open>COMPLETED_OK\<close> with a payload of another kind than the one waited for (or
  with none) crashes the aggregator: the type assertion of the payload is not checked.
\<close>
theorem unexpected_payload_panics:
  assumes "\<not> ctx_done_at p" "conn_at p (GetProofRequest proofID) = Received (GetProofResponse r)"
    "gp_Result r = PROOF_COMPLETED_OK"
  shows "(WaitFinalProof (p # ps) proofID = Some Panic \<longleftrightarrow> (\<nexists>f. gp_Payload r = FinalProof f)) \<and>
     ((\<nexists>t. gp_Payload r = RecursiveProof t) \<longrightarrow>
        WaitRecursiveProof nroundsf unmarshal (p # ps) proofID = Some Panic)"
  using assms
  by (cases "gp_Payload r") (simp_all add: WaitFinalProof_def WaitRecursiveProof_def prover_call_def)

lemma unexpected_payload_panics_witness:
  "WaitFinalProof [\<lparr>ctx_done_at = False, conn_at = (\<lambda>_. Received (GetProofResponse
     \<lparr>gp_Id = ''p'', gp_Payload = NoPayload, gp_Result = PROOF_COMPLETED_OK\<rparr>))\<rparr>] ''p'' = Some Panic"
  using unexpected_payload_panics [of "\<lparr>ctx_done_at = False, conn_at = (\<lambda>_. Received (GetProofResponse
     \<lparr>gp_Id = ''p'', gp_Payload = NoPayload, gp_Result = PROOF_COMPLETED_OK\<rparr>))\<rparr>" "''p''"
     "\<lparr>gp_Id = ''p'', gp_Payload = NoPayload, gp_Result = PROOF_COMPLETED_OK\<rparr>" "[]"]
  by simp

text \<open>
  C27. \<open>GetStateRootFromProof\<close> reads back the state root a proof carries: when the numbers 19 to 26 of
  the public values are the decimal 32-bit limbs of \<open>h\<close>, the lowest first, it returns \<open>h\<close>, whatever
  the other public values are.
\<close>
theorem state_root_round_trip:
  fixes h :: hash
  assumes "contains_text ''publics'' txt" "length pre = 19"
    "unmarshal txt = Some (pre @ map dec_text (limbs 8 (unat h)) @ post)"
  shows "GetStateRootFromProof 8 unmarshal txt = (Ok (h, True) :: (unit, hash \<times> bool) outcome)"
  using assms by (intro state_root_of_limbs [where pre = pre and post = post]) auto

lemma state_root_round_trip_witness:
  "GetStateRootFromProof 8 (\<lambda>_. Some (replicate 19 [] @ map dec_text (limbs 8 (unat (77 :: hash))) @ [])) ''publics'' =
     (Ok (77, True) :: (unit, hash \<times> bool) outcome)"
  by (rule state_root_round_trip [where pre = "replicate 19 []" and post = "[]"]) simp_all

lemma state_root_limbs_short:
  "length publics < i + k \<Longrightarrow> 0 < k \<Longrightarrow> state_root_limbs publics i k = (Panic :: ('e, u64 list) outcome)"
proof (induction k arbitrary: i)
  case (Suc k)
  show ?case
  proof (cases "i < length publics")
    case True
    with Suc.prems have "state_root_limbs publics (i + 1) k = (Panic :: ('e, u64 list) outcome)"
      by (intro Suc.IH) auto
    then show ?thesis by (auto simp: go_index_def split: outcome.split)
  qed (simp add: go_index_def)
qed simp

text \<open>
  A proof text with the word \<open>publics\<close> and fewer than 27 public values crashes the aggregator: the
  index is not checked.
\<close>
theorem short_publics_panic:
  assumes "contains_text ''publics'' txt" "unmarshal txt = Some publics" "length publics < 27"
  shows "GetStateRootFromProof nroundsf unmarshal txt = (Panic :: (unit, hash \<times> bool) outcome)"
  using assms by (simp add: GetStateRootFromProof_def state_root_limbs_short)

lemma short_publics_panic_witness:
  "GetStateRootFromProof 8 (\<lambda>_. Some []) ''publics'' = (Panic :: (unit, hash \<times> bool) outcome)"
  using short_publics_panic [of "''publics''" "\<lambda>_. Some []" "[]" 8] by simp

end
