(* ===== verification/Etherman.thy ===== *)
theory Etherman
  imports Encoding L1_Info_Tree Prover
begin

text \<open>
  \<open>etherman/aggregator.go\<close> and \<open>etherman/errors.go\<close>: what the aggregator reads from the contracts
  on L1 and the transaction data it builds for them. The contract bindings are generated code over
  an Ethereum node, so a call of theirs is a function of \<open>contracts\<close> that gives a value or an error.
\<close>

section \<open>The contracts\<close>

record rollup_data =
  rd_LastVerifiedBatch :: u64
  rd_ChainID :: u64

record verify_call =
  vc_RollupID :: u32
  vc_PendStateNum :: u64
  vc_LastVerifiedBatch :: u64
  vc_NewVerifiedBatch :: u64
  vc_NewLocalExitRoot :: hash
  vc_NewStateRoot :: hash
  vc_Beneficiary :: address
  vc_Proof :: "hash list"

record contracts =
  rm_RollupIDToRollupData :: "u32 \<Rightarrow> rollup_data option"
  rm_GetRollupSequencedBatches :: "u32 \<Rightarrow> u64 \<Rightarrow> hash option"
  rm_VerifyBatchesTrustedAggregator :: "verify_call \<Rightarrow> (string, address option \<times> byte list) outcome"
  old_LastVerifiedBatch :: "u64 option"
  old_ChainID :: "u64 option"

record etherman_client =
  RollupID :: u32
  Contracts :: contracts

datatype etherman_error =
    ErrContract | ErrAuth | ErrProofLength nat | ErrProofDecode hex_error | ErrKnown nat | ErrCall string | ErrChainIDZero

section \<open>Operations\<close>

definition GetLatestVerifiedBatchNum :: "etherman_client \<Rightarrow> (etherman_error, u64) outcome" where
  "GetLatestVerifiedBatchNum etherMan =
     (case rm_RollupIDToRollupData (Contracts etherMan) (RollupID etherMan) of
        None \<Rightarrow> (case old_LastVerifiedBatch (Contracts etherMan) of None \<Rightarrow> Err ErrContract | Some v \<Rightarrow> Ok v)
      | Some rollupData \<Rightarrow> Ok (rd_LastVerifiedBatch rollupData))"

definition GetBatchAccInputHash :: "etherman_client \<Rightarrow> u64 \<Rightarrow> (etherman_error, hash) outcome" where
  "GetBatchAccInputHash etherman batchNumber =
     (case rm_GetRollupSequencedBatches (Contracts etherman) (RollupID etherman) batchNumber of
        None \<Rightarrow> Err ErrContract
      | Some h \<Rightarrow> Ok h)"

definition GetRollupId :: "etherman_client \<Rightarrow> u32" where
  "GetRollupId etherMan = RollupID etherMan"

definition GetL2ChainID :: "etherman_client \<Rightarrow> (etherman_error, u64) outcome" where
  "GetL2ChainID etherMan =
     (case old_ChainID (Contracts etherMan) of
        Some chainID \<Rightarrow>
          if chainID \<noteq> 0 then Ok chainID
          else
            (case rm_RollupIDToRollupData (Contracts etherMan) (RollupID etherMan) of
               None \<Rightarrow> Err ErrContract
             | Some rd \<Rightarrow> if rd_ChainID rd = 0 then Err ErrChainIDZero else Ok (rd_ChainID rd))
      | None \<Rightarrow>
            (case rm_RollupIDToRollupData (Contracts etherMan) (RollupID etherMan) of
               None \<Rightarrow> Err ErrContract
             | Some rd \<Rightarrow> if rd_ChainID rd = 0 then Err ErrChainIDZero else Ok (rd_ChainID rd)))"

text \<open>One slice of 64 characters after the other; \<open>k\<close> are left.\<close>

fun convert_chunks :: "string \<Rightarrow> nat \<Rightarrow> nat \<Rightarrow> (etherman_error, hash list) outcome" where
  "convert_chunks p i 0 = Ok []"
| "convert_chunks p i (Suc k) =
     obind (of_option (go_slice p (i * 64) ((i + 1) * 64))) (\<lambda>data.
     case decode_bytes (Some data) of
       (bs, Some e) \<Rightarrow> Err (ErrProofDecode e)
     | (bs, None) \<Rightarrow> obind (convert_chunks p (i + 1) k) (\<lambda>proof. Ok (copy32 bs # proof)))"

definition convertProof :: "string \<Rightarrow> (etherman_error, hash list) outcome" where
  "convertProof p =
     (if length p \<noteq> 24 * 32 * 2 + 2 then Err (ErrProofLength (length p))
      else convert_chunks (trim_prefix_0x p) 0 24)"

text \<open>
  \<open>tryParseError\<close>: the known messages in the order in which the loop over the map visits them; an
  error is known by its position in \<open>known_errors\<close>.
\<close>

definition known_errors :: "string list" where
  "known_errors =
     [''gas required exceeds allowance'', ''content length too large'', ''timestamp must be inside range'',
      ''insufficient allowance'', ''both gasPrice and (maxFeePerGas or maxPriorityFeePerGas) specified'',
      ''maxFeePerGas or maxPriorityFeePerGas specified but london is not active yet'',
      ''no signer to authorize the transaction with'', ''missing trie node'']"

definition tryParseError :: "nat list \<Rightarrow> string \<Rightarrow> nat option" where
  "tryParseError order msg =
     (case filter (\<lambda>i. known_errors ! i = msg) [0..<length known_errors] of
        i # _ \<Rightarrow> Some i
      | [] \<Rightarrow>
         (case filter (\<lambda>i. contains_text (known_errors ! i) msg) order of
            i # _ \<Rightarrow> Some i
          | [] \<Rightarrow> None))"

record final_proof_inputs =
  fpi_FinalProof :: final_proof
  fpi_NewLocalExitRoot :: "byte list"
  fpi_NewStateRoot :: "byte list"

text \<open>\<open>auth_ok\<close> says whether the throw-away key and its authorisation could be generated.\<close>

definition BuildTrustedVerifyBatchesTxData ::
    "bool \<Rightarrow> nat list \<Rightarrow> etherman_client \<Rightarrow> u64 \<Rightarrow> u64 \<Rightarrow> final_proof_inputs \<Rightarrow> address \<Rightarrow>
     (etherman_error, address option \<times> byte list) outcome" where
  "BuildTrustedVerifyBatchesTxData auth_ok order etherMan lastVerifiedBatch newVerifiedBatch inputs beneficiary =
     (if \<not> auth_ok then Err ErrAuth
      else
        obind (convertProof (fp_Proof (fpi_FinalProof inputs))) (\<lambda>proof.
        case rm_VerifyBatchesTrustedAggregator (Contracts etherMan)
               \<lparr>vc_RollupID = RollupID etherMan, vc_PendStateNum = 0,
                vc_LastVerifiedBatch = lastVerifiedBatch, vc_NewVerifiedBatch = newVerifiedBatch,
                vc_NewLocalExitRoot = copy32 (fpi_NewLocalExitRoot inputs),
                vc_NewStateRoot = copy32 (fpi_NewStateRoot inputs),
                vc_Beneficiary = beneficiary, vc_Proof = proof\<rparr> of
          Ok r \<Rightarrow> Ok r
        | Err msg \<Rightarrow> (case tryParseError order msg of Some i \<Rightarrow> Err (ErrKnown i) | None \<Rightarrow> Err (ErrCall msg))
        | Panic \<Rightarrow> Panic))"

section \<open>The text of a proof\<close>

definition proof_digits :: "hash list \<Rightarrow> string" where
  "proof_digits hs = concat (map (\<lambda>h. encode_to_string (hash_bytes h)) hs)"

lemma length_proof_digits [simp]: "length (proof_digits hs) = 64 * length hs"
  by (induction hs) (simp_all add: proof_digits_def)

lemma copy32_hash_bytes [simp]: "copy32 (hash_bytes h) = h"
  by (simp add: copy32_def)

lemma hex_char_not_x [simp]: "hex_char n \<noteq> CHR ''x''"
proof -
  have "hex_digit_val (hex_char n) \<noteq> None" "hex_digit_val (CHR ''x'') = None"
    by (simp, simp add: hex_digit_val_def Let_def)
  then show ?thesis by metis
qed

lemma decode_bytes_hash: "decode_bytes (Some (encode_to_string (hash_bytes h))) = (hash_bytes h, None)"
proof -
  have "trim_prefix_0x (encode_to_string bs) = encode_to_string bs" if "bs \<noteq> []" for bs
    using that by (cases bs) (auto simp: trim_prefix_0x_def)
  moreover have "hash_bytes h \<noteq> []" using length_hash_bytes [of h] by fastforce
  ultimately show ?thesis by (simp add: decode_bytes_def hex_decode_string_def)
qed

lemma convert_chunks_digits:
  assumes "length pre = 64 * i" "64 * (i + length hs) < 2 ^ 63"
  shows "convert_chunks (pre @ proof_digits hs @ post) i (length hs) = Ok hs"
  using assms
proof (induction hs arbitrary: pre i)
  case (Cons h hs)
  let ?d = "encode_to_string (hash_bytes h)"
  have "go_slice (pre @ ?d @ proof_digits hs @ post) (length pre) (length pre + length ?d) = Some ?d"
    using Cons.prems by (intro go_slice_mid) simp
  then have "go_slice (pre @ proof_digits (h # hs) @ post) (i * 64) ((i + 1) * 64) = Some ?d"
    using Cons.prems(1) by (simp add: proof_digits_def algebra_simps)
  moreover have "convert_chunks ((pre @ ?d) @ proof_digits hs @ post) (i + 1) (length hs) = Ok hs"
    using Cons.prems by (intro Cons.IH) auto
  ultimately show ?case
    by (simp add: decode_bytes_hash proof_digits_def)
qed (simp add: proof_digits_def)

text \<open>
  \<open>convertProof\<close> reads the 24 words of a final proof back from their hexadecimal text with the
  prefix \<open>0x\<close>. The same text without the prefix and with any two characters after it has the
  length the check wants, so it is accepted and the two characters are dropped.
\<close>
theorem convert_proof_round_trip:
  assumes "length hs = 24"
  shows "convertProof (''0x'' @ proof_digits hs) = Ok hs \<and>
     convertProof (proof_digits hs @ [c, d]) = Ok hs"
proof -
  have "convert_chunks ([] @ proof_digits hs @ post) 0 (length hs) = Ok hs" for post
    using assms by (intro convert_chunks_digits) auto
  then have chunks: "convert_chunks (proof_digits hs @ post) 0 24 = Ok hs" for post
    using assms by simp
  obtain h hs' where hs: "hs = h # hs'" using assms by (cases hs) auto
  have "trim_prefix_0x (proof_digits hs @ [c, d]) = proof_digits hs @ [c, d]"
  proof -
    obtain b bs where "hash_bytes h = b # bs" using length_hash_bytes [of h] by (cases "hash_bytes h") auto
    then show ?thesis by (auto simp: hs proof_digits_def trim_prefix_0x_def)
  qed
  moreover have "trim_prefix_0x (''0x'' @ proof_digits hs) = proof_digits hs"
    by (simp add: trim_prefix_0x_def)
  ultimately show ?thesis
    using assms chunks [of "[]"] chunks [of "[c, d]"] by (simp add: convertProof_def)
qed

theorem convert_proof_round_trip_witness:
  "convertProof (proof_digits (replicate 24 7) @ [CHR ''z'', CHR ''z'']) = Ok (replicate 24 7)"
  using convert_proof_round_trip [of "replicate 24 7" "CHR ''z''" "CHR ''z''"] by simp

end
