(* ===== verification/Agglayer.thy ===== *)
theory Agglayer
  imports Hex "HOL-Library.Char_ord"
begin

text \<open>
  \<open>aggregator/agglayer_tx.go\<close> and \<open>aggregator/agglayer_client.go\<close>: the transaction that settles a
  proof through the agglayer, its hash and signature, and the client that sends it and waits for it.
  Keccak, the elliptic-curve signatures (\<open>crypto.Sign\<close>, \<open>SigToPub\<close>, \<open>PubkeyToAddress\<close>) and the
  texts of \<open>cdk-rpc\<close> (\<open>ArgUint64.Hex\<close>, \<open>ArgBytes.Hex\<close>) belong to libraries and are parameters.
\<close>

definition text_bytes :: "string \<Rightarrow> byte list" where
  "text_bytes s = map of_char s"

lemma length_text_bytes [simp]: "length (text_bytes s) = length s"
  by (simp add: text_bytes_def)

section \<open>The transaction\<close>

record agg_zkp =
  zkp_NewStateRoot :: hash
  zkp_NewLocalExitRoot :: hash
  zkp_Proof :: "byte list"

record agg_tx =
  tx_RollupID :: u32
  tx_LastVerifiedBatch :: u64
  tx_NewVerifiedBatch :: u64
  tx_ZKP :: agg_zkp

record signed_tx =
  signed_Tx :: agg_tx
  signed_Signature :: "byte list"

record agglayer_lib =
  al_keccak :: "byte list \<Rightarrow> byte list"
  al_hex_uint :: "u64 \<Rightarrow> string"
  al_hex_bytes :: "byte list \<Rightarrow> string"

definition tx_preimage :: "agglayer_lib \<Rightarrow> agg_tx \<Rightarrow> byte list" where
  "tx_preimage lib t =
     text_bytes (al_hex_uint lib (tx_LastVerifiedBatch t)) @
     text_bytes (al_hex_uint lib (tx_NewVerifiedBatch t)) @
     hash_bytes (zkp_NewStateRoot (tx_ZKP t)) @
     hash_bytes (zkp_NewLocalExitRoot (tx_ZKP t)) @
     text_bytes (al_hex_bytes lib (zkp_Proof (tx_ZKP t)))"

definition tx_Hash :: "agglayer_lib \<Rightarrow> agg_tx \<Rightarrow> hash" where
  "tx_Hash lib t = bytes_to_hash (al_keccak lib (tx_preimage lib t))"

definition tx_Sign ::
    "agglayer_lib \<Rightarrow> ('key \<Rightarrow> byte list \<Rightarrow> byte list option) \<Rightarrow> 'key \<Rightarrow> agg_tx \<Rightarrow> (unit, signed_tx) outcome" where
  "tx_Sign lib sign privateKey t =
     (case sign privateKey (hash_bytes (tx_Hash lib t)) of
        None \<Rightarrow> Err ()
      | Some sig \<Rightarrow> Ok \<lparr>signed_Tx = t, signed_Signature = sig\<rparr>)"

definition tx_Signer ::
    "agglayer_lib \<Rightarrow> (byte list \<Rightarrow> byte list \<Rightarrow> 'pub option) \<Rightarrow> ('pub \<Rightarrow> address) \<Rightarrow> signed_tx \<Rightarrow> (unit, address) outcome" where
  "tx_Signer lib sigToPub pubkeyToAddress s =
     (case sigToPub (hash_bytes (tx_Hash lib (signed_Tx s))) (signed_Signature s) of
        None \<Rightarrow> Err ()
      | Some pubKey \<Rightarrow> Ok (pubkeyToAddress pubKey))"

section \<open>The client\<close>

text \<open>What the JSON-RPC call answers; \<open>'r\<close> is what its result reads as, if it reads at all.\<close>

datatype 'r rpc_reply = RpcFails | RpcError | RpcResult "'r option"

datatype agglayer_error = ErrRpc | ErrRpcReply | ErrUnmarshal | ErrWaitContext

definition SendTx :: "(signed_tx \<Rightarrow> hash rpc_reply) \<Rightarrow> signed_tx \<Rightarrow> (agglayer_error, hash) outcome" where
  "SendTx rpc signedTx =
     (case rpc signedTx of
        RpcFails \<Rightarrow> Err ErrRpc
      | RpcError \<Rightarrow> Err ErrRpcReply
      | RpcResult None \<Rightarrow> Err ErrUnmarshal
      | RpcResult (Some h) \<Rightarrow> Ok h)"

text \<open>\<open>strings.ToLower\<close> on ASCII letters, which is what the comparison with \<open>done\<close> can see.\<close>

definition to_lower :: "string \<Rightarrow> string" where
  "to_lower s = map (\<lambda>c. if CHR ''A'' \<le> c \<and> c \<le> CHR ''Z'' then char_of (of_char c + 32 :: nat) else c) s"

datatype wait_event = WaitContextDone | WaitTick "hash \<Rightarrow> string rpc_reply"

fun WaitTxToBeMined :: "wait_event list \<Rightarrow> hash \<Rightarrow> (agglayer_error, unit) outcome option" where
  "WaitTxToBeMined [] h = None"
| "WaitTxToBeMined (WaitContextDone # es) h = Some (Err ErrWaitContext)"
| "WaitTxToBeMined (WaitTick rpc # es) h =
     (case rpc h of
        RpcFails \<Rightarrow> Some (Err ErrRpc)
      | RpcError \<Rightarrow> Some (Err ErrRpcReply)
      | RpcResult None \<Rightarrow> Some (Err ErrUnmarshal)
      | RpcResult (Some status) \<Rightarrow>
          if to_lower status = ''done'' then Some (Ok ()) else WaitTxToBeMined es h)"

section \<open>Properties\<close>

text \<open>What \<open>cdk-rpc\<close> documents of the two texts: \<open>0x\<close> and the hexadecimal digits of the number, or of the bytes.\<close>

definition hex_texts :: "agglayer_lib \<Rightarrow> bool" where
  "hex_texts lib \<longleftrightarrow>
     (\<forall>n. al_hex_uint lib n = ''0x'' @ hex_text (unat n)) \<and> (\<forall>bs. al_hex_bytes lib bs = ''0x'' @ encode_to_string bs)"

lemma of_char_byte [simp]: "(of_char c :: byte) = of_char d \<longleftrightarrow> c = d"
proof
  have u: "unat (of_char c :: byte) = (of_char c :: nat)" for c
  proof -
    have "(of_char c :: byte) = word_of_nat (of_char c)" by (simp only: of_nat_of_char)
    then show ?thesis using nat_of_char_less_256 [of c] by (simp only: unat_of_nat) simp
  qed
  assume "(of_char c :: byte) = of_char d"
  then have "(of_char c :: nat) = of_char d" using u by metis
  then show "c = d" by (rule iffD1 [OF of_char_eq_iff])
qed simp

lemma text_bytes_inj: "text_bytes s = text_bytes t \<longleftrightarrow> s = t"
  by (simp add: text_bytes_def inj_map_eq_map inj_def)

lemma hex_text_inj: "hex_text m = hex_text n \<Longrightarrow> m = n"
  using digits_val_hex_text by (metis option.inject)

lemma encode_to_string_inj: "encode_to_string bs = encode_to_string cs \<Longrightarrow> bs = cs"
  using decode_hex_encode_to_hex by (metis encode_to_hex_def prod.inject)

text \<open>The \<open>x\<close> of a text is its only one, as \<open>x\<close> is not a digit.\<close>

lemma hex_digit_not_x: "hex_digit c \<Longrightarrow> c \<noteq> CHR ''x''"
  by (auto simp: hex_digit_def hex_digit_val_def Let_def)

lemma encode_to_string_digits: "c \<in> set (encode_to_string bs) \<Longrightarrow> hex_digit c"
  by (induction bs) (auto simp: hex_digit_def)

lemma no_x: "(\<And>c. c \<in> set s \<Longrightarrow> hex_digit c) \<Longrightarrow> of_char CHR ''x'' \<notin> set (text_bytes s)"
  unfolding text_bytes_def using hex_digit_not_x by (force simp del: of_char_Char)

lemma split_first: "ds @ x # r = es @ x # q \<Longrightarrow> x \<notin> set ds \<Longrightarrow> x \<notin> set es \<Longrightarrow> ds = es \<and> r = q"
proof (induction ds arbitrary: es)
  case Nil
  then show ?case by (cases es) auto
next
  case (Cons d ds)
  then show ?case by (cases es) auto
qed

lemma split_last: "r @ x # ds = q @ x # es \<Longrightarrow> x \<notin> set ds \<Longrightarrow> x \<notin> set es \<Longrightarrow> ds = es \<and> r = q"
  using split_first [of "rev ds" x "rev r" "rev es" "rev q"] by (metis rev_append rev.simps(2) append.assoc append_Cons append_Nil rev_rev_ident set_rev)

definition zero_byte :: byte where "zero_byte = of_char CHR ''0''"
definition x_byte :: byte where "x_byte = of_char CHR ''x''"

lemma tx_preimage_shape:
  assumes "hex_texts lib"
  shows "tx_preimage lib t =
    zero_byte # x_byte # (text_bytes (hex_text (unat (tx_LastVerifiedBatch t))) @ [zero_byte]) @
    x_byte # ((text_bytes (hex_text (unat (tx_NewVerifiedBatch t))) @
      (hash_bytes (zkp_NewStateRoot (tx_ZKP t)) @ hash_bytes (zkp_NewLocalExitRoot (tx_ZKP t))) @ [zero_byte]) @
    x_byte # text_bytes (encode_to_string (zkp_Proof (tx_ZKP t))))"
  using assms by (simp add: tx_preimage_def hex_texts_def text_bytes_def zero_byte_def x_byte_def)

lemma preimage_inj:
  assumes "hex_texts lib" "tx_preimage lib t = tx_preimage lib u"
  shows "tx_LastVerifiedBatch t = tx_LastVerifiedBatch u \<and> tx_NewVerifiedBatch t = tx_NewVerifiedBatch u \<and> tx_ZKP t = tx_ZKP u"
proof -
  let ?fst_b = "\<lambda>t. text_bytes (hex_text (unat (tx_LastVerifiedBatch t)))"
  let ?snd_b = "\<lambda>t. text_bytes (hex_text (unat (tx_NewVerifiedBatch t)))"
  let ?roots = "\<lambda>t. hash_bytes (zkp_NewStateRoot (tx_ZKP t)) @ hash_bytes (zkp_NewLocalExitRoot (tx_ZKP t))"
  let ?pr = "\<lambda>t. text_bytes (encode_to_string (zkp_Proof (tx_ZKP t)))"
  note p = tx_preimage_shape [OF assms(1)]
  have z: "x_byte \<noteq> zero_byte" unfolding x_byte_def zero_byte_def of_char_byte by simp
  have dig: "x_byte \<notin> set (?fst_b t @ [zero_byte])" "x_byte \<notin> set (?pr t)" for t
    using z no_x [OF set_hex_text] no_x [OF encode_to_string_digits] by (simp_all add: x_byte_def)
  from assms(2) have "(?fst_b t @ [zero_byte]) @ x_byte # ((?snd_b t @ ?roots t @ [zero_byte]) @ x_byte # ?pr t) =
      (?fst_b u @ [zero_byte]) @ x_byte # ((?snd_b u @ ?roots u @ [zero_byte]) @ x_byte # ?pr u)"
    unfolding p by simp
  note front = split_first [OF this dig(1) dig(1)]
  note rear = split_last [OF conjunct2 [OF front] dig(2) dig(2)]
  have "?snd_b t = ?snd_b u \<and> ?roots t = ?roots u"
    using rear by (auto simp: append_eq_append_conv)
  then have r: "?snd_b t = ?snd_b u" "zkp_NewStateRoot (tx_ZKP t) = zkp_NewStateRoot (tx_ZKP u)"
    "zkp_NewLocalExitRoot (tx_ZKP t) = zkp_NewLocalExitRoot (tx_ZKP u)"
    using hash_bytes_inj by auto
  have "zkp_Proof (tx_ZKP t) = zkp_Proof (tx_ZKP u)"
    using rear encode_to_string_inj by (auto simp: text_bytes_inj)
  with r have "tx_ZKP t = tx_ZKP u" by simp
  moreover have "unat (tx_LastVerifiedBatch t) = unat (tx_LastVerifiedBatch u)"
    using front by (intro hex_text_inj) (simp add: text_bytes_inj)
  moreover have "unat (tx_NewVerifiedBatch t) = unat (tx_NewVerifiedBatch u)"
    using r(1) by (intro hex_text_inj) (simp add: text_bytes_inj)
  ultimately show ?thesis by (simp add: word_unat_eq_iff)
qed

text \<open>
  C29. What an agglayer transaction is signed for are its two batches, both roots and the proof: the bytes that are hashed
  determine these, although the fields are put together without separators or lengths. They do not
  determine the rollup, so the hash does not identify the transaction, and a signature for one rollup is
  as good for any other.
\<close>
theorem hash_covers_all_but_rollup:
  assumes "hex_texts lib"
  shows "(tx_preimage lib t = tx_preimage lib u \<longleftrightarrow> (\<exists>r. u = t\<lparr>tx_RollupID := r\<rparr>)) \<and>
    (tx_preimage lib t = tx_preimage lib u \<longrightarrow> tx_Hash lib t = tx_Hash lib u \<and>
      tx_Signer lib sigToPub addr \<lparr>signed_Tx = u, signed_Signature = sig\<rparr> =
      tx_Signer lib sigToPub addr \<lparr>signed_Tx = t, signed_Signature = sig\<rparr>)"
proof (intro conjI impI)
  have "u = t\<lparr>tx_RollupID := tx_RollupID u\<rparr>" if "tx_preimage lib t = tx_preimage lib u"
    using preimage_inj [OF assms that] by (cases t; cases u) simp
  moreover have "tx_preimage lib t = tx_preimage lib (t\<lparr>tx_RollupID := r\<rparr>)" for r
    by (simp add: tx_preimage_def)
  ultimately show "tx_preimage lib t = tx_preimage lib u \<longleftrightarrow> (\<exists>r. u = t\<lparr>tx_RollupID := r\<rparr>)" by metis
qed (simp_all add: tx_Hash_def tx_Signer_def)

definition sample_agglayer_lib :: agglayer_lib where
  "sample_agglayer_lib = \<lparr>al_keccak = id, al_hex_uint = (\<lambda>n. ''0x'' @ hex_text (unat n)),
     al_hex_bytes = (\<lambda>bs. ''0x'' @ encode_to_string bs)\<rparr>"

definition sample_agg_tx :: agg_tx where
  "sample_agg_tx = \<lparr>tx_RollupID = 1, tx_LastVerifiedBatch = 1, tx_NewVerifiedBatch = 2,
     tx_ZKP = \<lparr>zkp_NewStateRoot = 3, zkp_NewLocalExitRoot = 4, zkp_Proof = []\<rparr>\<rparr>"

theorem hash_covers_all_but_rollup_witness:
  "tx_preimage sample_agglayer_lib sample_agg_tx = tx_preimage sample_agglayer_lib (sample_agg_tx\<lparr>tx_RollupID := 2\<rparr>) \<and>
   tx_preimage sample_agglayer_lib sample_agg_tx \<noteq> tx_preimage sample_agglayer_lib (sample_agg_tx\<lparr>tx_NewVerifiedBatch := 3\<rparr>)"
proof -
  have h: "hex_texts sample_agglayer_lib" by (simp add: hex_texts_def sample_agglayer_lib_def)
  let ?u = "sample_agg_tx\<lparr>tx_NewVerifiedBatch := 3\<rparr>"
  have "\<nexists>r. ?u = sample_agg_tx\<lparr>tx_RollupID := r\<rparr>"
    by (simp add: sample_agg_tx_def)
  then show ?thesis
    using hash_covers_all_but_rollup [OF h, of sample_agg_tx ?u]
      hash_covers_all_but_rollup [OF h, of sample_agg_tx "sample_agg_tx\<lparr>tx_RollupID := 2\<rparr>"] by blast
qed

definition keeps_waiting :: "hash \<Rightarrow> wait_event \<Rightarrow> bool" where
  "keeps_waiting h e \<longleftrightarrow>
     (\<exists>rpc status. e = WaitTick rpc \<and> rpc h = RpcResult (Some status) \<and> to_lower status \<noteq> ''done'')"

lemma wait_pending: "keeps_waiting h e \<Longrightarrow> WaitTxToBeMined (e # es) h = WaitTxToBeMined es h"
  by (auto simp: keeps_waiting_def)

lemma wait_settles: "\<not> keeps_waiting h e \<Longrightarrow>
   \<exists>r. WaitTxToBeMined (e # es) h = Some r \<and>
     (r = Ok () \<longleftrightarrow> (\<exists>rpc status. e = WaitTick rpc \<and> rpc h = RpcResult (Some status) \<and> to_lower status = ''done''))"
  by (cases e) (auto simp: keeps_waiting_def split: rpc_reply.split option.split)

text \<open>
  \<open>WaitTxToBeMined\<close> returns at the first event that is not a status other than \<open>done\<close>, and it
  succeeds exactly when that event is the status \<open>done\<close> in any case of letters.
\<close>
theorem wait_tx_result:
  assumes "\<forall>e \<in> set pending. keeps_waiting h e" "\<not> keeps_waiting h e"
  shows "(WaitTxToBeMined (pending @ e # es) h = Some (Ok ()) \<longleftrightarrow>
      (\<exists>rpc status. e = WaitTick rpc \<and> rpc h = RpcResult (Some status) \<and> to_lower status = ''done'')) \<and>
    WaitTxToBeMined (pending @ e # es) h \<noteq> None \<and> WaitTxToBeMined pending h = None"
  using assms(1)
proof (induction pending)
  case Nil
  show ?case using wait_settles [OF assms(2), of es] by auto
next
  case (Cons p ps)
  then show ?case using wait_pending [of h p] by (simp del: WaitTxToBeMined.simps(2,3))
qed

lemma to_lower_sample: "to_lower ''Done'' = ''done''" "to_lower ''pending'' \<noteq> ''done''"
  by code_simp+

theorem wait_tx_result_witness:
  "WaitTxToBeMined ([WaitTick (\<lambda>_. RpcResult (Some ''pending''))] @ [WaitTick (\<lambda>_. RpcResult (Some ''Done''))]) 9 =
     Some (Ok ())"
  using wait_tx_result [of "[WaitTick (\<lambda>_. RpcResult (Some ''pending''))]" 9
      "WaitTick (\<lambda>_. RpcResult (Some ''Done''))" "[]"]
  by (simp add: keeps_waiting_def to_lower_sample)

end
