(* ===== verification/Rlp.thy ===== *)
theory Rlp
  imports Prelude
begin

text \<open>
  RLP, as far as \<open>state/\<close> relies on it. The codec is go-ethereum's: the code's model takes it as
  two parameters, \<open>enc\<close> (\<open>rlp.EncodeToBytes\<close> of a list of values) and \<open>dec\<close>
  (\<open>rlp.DecodeBytes\<close> into \<open>[][]byte\<close>), and what the code needs of them is the locale
  \<open>rlp_codec\<close>: an encoding is a list header followed by the payload it announces, and decoding
  returns the encoded fields. The codec of the Ethereum specification (\<open>rlp_enc\<close>, \<open>rlp_dec\<close>)
  interprets the locale, so its laws can hold.
\<close>

section \<open>What the code relies on\<close>

text \<open>The values the code hands to \<open>rlp.EncodeToBytes\<close> and the bytes each becomes as a field.\<close>

datatype rlp_field = RUint u64 | RBig int | RAddr "address option" | RBytes "byte list"

fun field_bytes :: "rlp_field \<Rightarrow> byte list" where
  "field_bytes (RUint n) = be_min (unat n)"
| "field_bytes (RBig i) = be_min (nat i)"
| "field_bytes (RAddr None) = []"
| "field_bytes (RAddr (Some a)) = address_bytes a"
| "field_bytes (RBytes b) = b"

definition rlp_list_header :: "nat \<Rightarrow> byte list" where
  "rlp_list_header n =
     (if n \<le> 55 then [word_of_nat (192 + n)]
      else word_of_nat (247 + length (be_min n)) # be_min n)"

definition rlp_framed :: "byte list \<Rightarrow> bool" where
  "rlp_framed bs = (\<exists>payload. bs = rlp_list_header (length payload) @ payload)"

locale rlp_codec =
  fixes enc :: "rlp_field list \<Rightarrow> byte list option"
    and dec :: "byte list \<Rightarrow> byte list list option"
  assumes enc_framed: "enc fs = Some bs \<Longrightarrow> rlp_framed bs"
    and dec_enc: "enc fs = Some bs \<Longrightarrow> dec bs = Some (map field_bytes fs)"

section \<open>The codec of the specification\<close>

definition rlp_item :: "byte list \<Rightarrow> byte list" where
  "rlp_item bs =
     (if length bs = 1 \<and> unat (hd bs) < 128 then bs
      else if length bs \<le> 55 then word_of_nat (128 + length bs) # bs
      else word_of_nat (183 + length (be_min (length bs))) # be_min (length bs) @ bs)"

fun rlp_encodable :: "rlp_field \<Rightarrow> bool" where
  "rlp_encodable (RBig i) = (0 \<le> i)"
| "rlp_encodable f = True"

definition rlp_enc :: "rlp_field list \<Rightarrow> byte list option" where
  "rlp_enc fs =
     (let payload = concat (map (rlp_item \<circ> field_bytes) fs) in
      if list_all rlp_encodable fs \<and> length payload < 2 ^ 63
      then Some (rlp_list_header (length payload) @ payload) else None)"

definition rlp_sized :: "nat \<Rightarrow> byte list \<Rightarrow> (nat \<times> byte list) option" where
  "rlp_sized m r =
     (let n = be_nat (take m r) in
      if m \<le> length r \<and> 55 < n \<and> be_min n = take m r \<and> n \<le> length r - m
      then Some (n, drop m r) else None)"

definition rlp_split_item :: "byte list \<Rightarrow> (byte list \<times> byte list) option" where
  "rlp_split_item bs =
     (case bs of
        [] \<Rightarrow> None
      | b # r \<Rightarrow>
          (let k = unat b in
           if k < 128 then Some ([b], r)
           else if k \<le> 183 then
             (if k - 128 \<le> length r \<and> \<not> (k = 129 \<and> unat (hd r) < 128)
              then Some (take (k - 128) r, drop (k - 128) r) else None)
           else if k < 192 then
             map_option (\<lambda>(n, r'). (take n r', drop n r')) (rlp_sized (k - 183) r)
           else None))"

lemma rlp_split_item_less:
  "rlp_split_item bs = Some (x, r) \<Longrightarrow> length r < length bs"
  by (auto simp: rlp_split_item_def rlp_sized_def Let_def split: list.splits if_splits)

function rlp_items :: "byte list \<Rightarrow> byte list list option" where
  "rlp_items bs =
     (if bs = [] then Some []
      else case rlp_split_item bs of
             None \<Rightarrow> None
           | Some (x, r) \<Rightarrow> map_option (Cons x) (rlp_items r))"
  by pat_completeness auto
termination
  by (relation "measure length") (auto dest: rlp_split_item_less)

declare rlp_items.simps [simp del]

definition rlp_dec :: "byte list \<Rightarrow> byte list list option" where
  "rlp_dec bs =
     (case bs of
        [] \<Rightarrow> None
      | b # r \<Rightarrow>
          (let k = unat b in
           if k < 192 then None
           else if k \<le> 247 then (if length r = k - 192 then rlp_items r else None)
           else case rlp_sized (k - 247) r of
                  None \<Rightarrow> None
                | Some (n, r') \<Rightarrow> if length r' = n then rlp_items r' else None))"

lemma length_be_min_63: "n < 2 ^ 63 \<Longrightarrow> length (be_min n) \<le> 8"
  by (rule length_be_min_le) simp

lemma rlp_sized_be_min:
  "55 < length p \<Longrightarrow> rlp_sized (length (be_min (length p))) (be_min (length p) @ p @ q) = Some (length p, p @ q)"
  by (simp add: rlp_sized_def be_nat_be_min)

lemma rlp_split_item_item:
  assumes "length bs < 2 ^ 63"
  shows "rlp_split_item (rlp_item bs @ q) = Some (bs, q)"
proof -
  consider (single) "length bs = 1" "unat (hd bs) < 128"
    | (short) "length bs \<le> 55" "\<not> (length bs = 1 \<and> unat (hd bs) < 128)"
    | (long) "55 < length bs" by linarith
  then show ?thesis
  proof cases
    case single
    then show ?thesis
      by (cases bs) (auto simp: rlp_item_def rlp_split_item_def)
  next
    case short
    then have "unat (word_of_nat (128 + length bs) :: byte) = 128 + length bs"
      by (simp add: unat_byte_of_nat del: of_nat_add)
    with short show ?thesis
      by (cases bs) (auto simp: rlp_item_def rlp_split_item_def simp del: of_nat_add)
  next
    case long
    let ?m = "length (be_min (length bs))"
    have m: "?m \<le> 8" "0 < ?m" using length_be_min_63 [OF assms] long by auto
    then have "unat (word_of_nat (183 + ?m) :: byte) = 183 + ?m"
      by (simp add: unat_byte_of_nat del: of_nat_add)
    with long m show ?thesis
      using rlp_sized_be_min [OF long, of q]
      by (simp add: rlp_item_def rlp_split_item_def Let_def del: of_nat_add)
  qed
qed

lemma rlp_item_not_Nil: "rlp_item bs \<noteq> []"
  by (auto simp: rlp_item_def)

lemma length_rlp_item: "length bs \<le> length (rlp_item bs)"
  by (simp add: rlp_item_def)

lemma rlp_items_concat:
  "length (concat (map (rlp_item \<circ> field_bytes) fs)) < 2 ^ 63 \<Longrightarrow>
   rlp_items (concat (map (rlp_item \<circ> field_bytes) fs)) = Some (map field_bytes fs)"
proof (induction fs)
  case Nil
  show ?case by (simp add: rlp_items.simps)
next
  case (Cons f fs)
  have "length (field_bytes f) < 2 ^ 63"
    using Cons.prems length_rlp_item [of "field_bytes f"] by simp
  from rlp_split_item_item [OF this] Cons show ?case
    by (subst rlp_items.simps) (simp add: rlp_item_not_Nil comp_def)
qed

lemma rlp_dec_header:
  assumes "length p < 2 ^ 63"
  shows "rlp_dec (rlp_list_header (length p) @ p) = rlp_items p"
proof (cases "length p \<le> 55")
  case True
  then have "unat (word_of_nat (192 + length p) :: byte) = 192 + length p"
    by (simp add: unat_byte_of_nat del: of_nat_add)
  with True show ?thesis
    by (simp add: rlp_list_header_def rlp_dec_def Let_def del: of_nat_add)
next
  case False
  let ?m = "length (be_min (length p))"
  have m: "?m \<le> 8" "0 < ?m" using length_be_min_63 [OF assms] False by auto
  then have "unat (word_of_nat (247 + ?m) :: byte) = 247 + ?m"
    by (simp add: unat_byte_of_nat del: of_nat_add)
  with False m show ?thesis
    using rlp_sized_be_min [of p "[]"]
    by (simp add: rlp_list_header_def rlp_dec_def Let_def del: of_nat_add)
qed

text \<open>Every list of encodable fields of a reasonable size has an encoding, with its size bounded.\<close>

lemma length_rlp_item_le: "length bs < 2 ^ 63 \<Longrightarrow> length (rlp_item bs) \<le> length bs + 9"
  using length_be_min_63 [of "length bs"] by (simp add: rlp_item_def)

lemma length_rlp_payload_le:
  "list_all (\<lambda>f. length (field_bytes f) < 2 ^ 63) fs \<Longrightarrow>
   length (concat (map (rlp_item \<circ> field_bytes) fs)) \<le> (\<Sum>f\<leftarrow>fs. length (field_bytes f) + 9)"
proof (induction fs)
  case (Cons f fs)
  then show ?case
    using length_rlp_item_le [of "field_bytes f"] by (simp add: comp_def)
qed simp

lemma rlp_enc_small:
  assumes "list_all rlp_encodable fs" and "(\<Sum>f\<leftarrow>fs. length (field_bytes f) + 9) < 2 ^ 62"
  shows "\<exists>bs. rlp_enc fs = Some bs \<and> length bs \<le> (\<Sum>f\<leftarrow>fs. length (field_bytes f) + 9) + 9"
proof -
  let ?p = "concat (map (rlp_item \<circ> field_bytes) fs)"
  have "length (field_bytes f) \<le> (\<Sum>f\<leftarrow>fs. length (field_bytes f) + 9)" if "f \<in> set fs" for f
    using that by (induction fs) auto
  then have p: "length ?p \<le> (\<Sum>f\<leftarrow>fs. length (field_bytes f) + 9)"
    using assms(2) by (intro length_rlp_payload_le) (fastforce simp: list_all_iff)
  then have l: "length ?p < 2 ^ 62" using assms(2) by linarith
  then have "length (rlp_list_header (length ?p)) \<le> 9"
    using length_be_min_63 [of "length ?p"] by (simp add: rlp_list_header_def del: length_concat)
  then show ?thesis
    using assms(1) p l by (simp add: rlp_enc_def Let_def del: length_concat)
qed

interpretation rlp_ref: rlp_codec rlp_enc rlp_dec
proof unfold_locales
  fix fs bs
  assume "rlp_enc fs = Some bs"
  then show "rlp_framed bs" "rlp_dec bs = Some (map field_bytes fs)"
    by (auto simp: rlp_enc_def rlp_framed_def rlp_dec_header rlp_items_concat Let_def split: if_splits)
qed

end
