(* ===== verification/State_Helper.thy ===== *)
theory State_Helper
  imports Encoding Rlp
begin

unbundle bit_operations_syntax

text \<open>
  \<open>state/helper.go\<close>: the byte form of a transaction inside batch data (RLP fields, then R, S
  and V) and the decoder \<open>DecodeTxs\<close>, with lengths and positions kept as \<open>uint64\<close>.
  The RLP codec and \<open>types.Transaction\<close> belong to go-ethereum and are parameters: \<open>enc\<close>
  (\<open>rlp.EncodeToBytes\<close>), \<open>dec\<close> (\<open>rlp.DecodeBytes\<close> into \<open>[][]byte\<close>) and \<open>newTx\<close>
  (\<open>types.NewTx\<close>). What the code relies on of the codec is the locale \<open>rlp_codec\<close>.
\<close>

section \<open>Data\<close>

datatype state_error =
    ErrInvalidData | ErrInvalidRLP | ErrInvalidBatchV2 | ErrBatchV2DontStartWithChangeL2Block
  | ErrTxTypeNotSupported | ErrParse num_error | ErrRlpEncode | ErrRlpDecode | ErrHex hex_error

text \<open>A \<open>types.Transaction\<close>, by what its accessors return.\<close>

record transaction =
  tx_nonce :: u64
  tx_gas_price :: int
  tx_gas :: u64
  tx_to :: "address option"
  tx_value :: int
  tx_data :: "byte list"
  tx_chain_id :: int
  tx_v :: int
  tx_r :: int
  tx_s :: int

record legacy_tx =
  lt_nonce :: u64
  lt_gas_price :: int
  lt_gas :: u64
  lt_to :: "address option"
  lt_value :: int
  lt_data :: "byte list"
  lt_v :: int
  lt_r :: int
  lt_s :: int

section \<open>Constants\<close>

definition ether155V :: int where "ether155V = 27"
definition etherPre155V :: int where "etherPre155V = 35"
definition headerByteLength :: u64 where "headerByteLength = 1"
definition sLength :: u64 where "sLength = 32"
definition rLength :: u64 where "rLength = 32"
definition vLength :: u64 where "vLength = 1"
definition c0 :: u64 where "c0 = 192"
definition shortRlp :: u64 where "shortRlp = 55"
definition f7 :: u64 where "f7 = 247"
definition EfficiencyPercentageByteLength :: u64 where "EfficiencyPercentageByteLength = 1"
definition FORKID_DRAGONFRUIT :: u64 where "FORKID_DRAGONFRUIT = 5"
definition FORKID_ETROG :: u64 where "FORKID_ETROG = 7"

lemmas helper_consts = ether155V_def etherPre155V_def headerByteLength_def sLength_def rLength_def
  vLength_def c0_def shortRlp_def f7_def EfficiencyPercentageByteLength_def
  FORKID_DRAGONFRUIT_def FORKID_ETROG_def

section \<open>Encoding a transaction\<close>

definition is_pre_eip155_tx :: "transaction \<Rightarrow> bool" where
  "is_pre_eip155_tx tx =
     ((word_of_int (tx_chain_id tx) :: u64) = 0 \<and>
      ((word_of_int (tx_v tx) :: u64) = 27 \<or> (word_of_int (tx_v tx) :: u64) = 28))"

definition tx_fields :: "transaction \<Rightarrow> rlp_field list" where
  "tx_fields tx =
     [RUint (tx_nonce tx), RBig (tx_gas_price tx), RUint (tx_gas tx), RAddr (tx_to tx),
      RBig (tx_value tx), RBytes (tx_data tx)] @
     (if \<not> is_pre_eip155_tx tx then [RBig (tx_chain_id tx), RUint 0, RUint 0] else [])"

definition prepare_rlp_tx_data ::
    "(rlp_field list \<Rightarrow> byte list option) \<Rightarrow> transaction \<Rightarrow> (state_error, byte list) outcome" where
  "prepare_rlp_tx_data enc tx =
     (let sign = 1 - ((word_of_int (tx_v tx) :: u64) AND 1) in
      case enc (tx_fields tx) of
        None \<Rightarrow> Err ErrRlpEncode
      | Some txCodedRlp \<Rightarrow>
          (let newV = ether155V + sint sign;
               newRPadded = pad_left 64 (text16 (tx_r tx));
               newSPadded = pad_left 64 (text16 (tx_s tx));
               newVPadded = pad_left 2 (text16 newV)
           in case hex_decode_string
                     (hex_encode_to_string txCodedRlp @ newRPadded @ newSPadded @ newVPadded) of
                (txData, None) \<Rightarrow> Ok txData
              | (_, Some e) \<Rightarrow> Err (ErrHex e)))"

section \<open>Decoding the fields of a transaction\<close>

definition rlp_fields_to_legacy_tx ::
    "byte list list \<Rightarrow> byte list \<Rightarrow> byte list \<Rightarrow> byte list \<Rightarrow> (state_error, legacy_tx) outcome" where
  "rlp_fields_to_legacy_tx flds v r s =
     (if length flds < 6 then Err ErrTxTypeNotSupported
      else
        let nonce = word_of_nat (be_nat (flds ! 0));
            gasPrice = int (be_nat (flds ! 1));
            gas = word_of_nat (be_nat (flds ! 2));
            to = (if flds ! 3 \<noteq> [] then Some (bytes_to_address (flds ! 3)) else None);
            value = int (be_nat (flds ! 4));
            data = flds ! 5;
            txV = (if 7 \<le> length flds
                   then let chainID = int (be_nat (flds ! 6));
                            a = chainID * 2;
                            b = int (be_nat v) - ether155V;
                            c = a + etherPre155V
                        in b + c
                   else int (be_nat v))
        in Ok \<lparr>lt_nonce = nonce, lt_gas_price = gasPrice, lt_gas = gas, lt_to = to,
               lt_value = value, lt_data = data, lt_v = txV,
               lt_r = int (be_nat r), lt_s = int (be_nat s)\<rparr>)"

section \<open>\<open>DecodeTxs\<close>\<close>

text \<open>
  One pass of the loop of \<open>DecodeTxs\<close>: \<open>Ok None\<close> is the return inside the loop whose error
  value is \<open>nil\<close> (the header announces more length bytes than there are).
\<close>

definition decode_txs_length ::
    "byte list \<Rightarrow> u64 \<Rightarrow> u64 \<Rightarrow> (state_error, u64 option) outcome" where
  "decode_txs_length txsData pos num =
     (let length' = num - c0 in
      if length' > shortRlp then
        (if pos + 1 + num - f7 > word_of_nat (length txsData) then Ok None
         else obind (of_option (go_slice txsData (unat (pos + 1)) (unat (pos + 1 + num - f7)))) (\<lambda>bs.
              obind (map_err ErrParse (parse_uint64 16 (hex_encode_to_string bs))) (\<lambda>n.
              if n + num < f7 then Err ErrInvalidData else Ok (Some (n + num - f7)))))
      else Ok (Some length'))"

definition decode_txs_body ::
    "(byte list \<Rightarrow> byte list list option) \<Rightarrow> (legacy_tx \<Rightarrow> transaction) \<Rightarrow> byte list \<Rightarrow> u64 \<Rightarrow>
     u64 \<Rightarrow> u64 \<Rightarrow> (state_error, u64 \<times> transaction \<times> byte list) outcome" where
  "decode_txs_body dec newTx txsData forkID pos length' =
     (let endPos = pos + length' + rLength + sLength + vLength + headerByteLength;
          endPos = (if forkID \<ge> FORKID_DRAGONFRUIT
                    then endPos + EfficiencyPercentageByteLength else endPos)
      in if endPos > word_of_nat (length txsData) then Err ErrInvalidData
         else if endPos < pos then Err ErrInvalidData
         else
           let dataStart = pos + length' + headerByteLength;
               slice = (\<lambda>lo hi. of_option (go_slice txsData (unat lo) (unat hi)))
           in obind (slice pos endPos) (\<lambda>fullDataTx.
              obind (slice pos dataStart) (\<lambda>txInfo.
              obind (slice dataStart (dataStart + rLength)) (\<lambda>rData.
              obind (slice (dataStart + rLength) (dataStart + rLength + sLength)) (\<lambda>sData.
              obind (slice (dataStart + rLength + sLength)
                           (dataStart + rLength + sLength + vLength)) (\<lambda>vData.
              obind (if forkID \<ge> FORKID_DRAGONFRUIT
                     then obind (slice (dataStart + rLength + sLength + vLength) endPos) (\<lambda>ep.
                          obind (of_option (go_index ep 0)) (\<lambda>e. Ok [e]))
                     else Ok []) (\<lambda>efficiency.
              case dec txInfo of
                None \<Rightarrow> Err ErrInvalidData
              | Some rlpFields \<Rightarrow>
                  obind (rlp_fields_to_legacy_tx rlpFields vData rData sData) (\<lambda>legacyTx.
                  Ok (endPos, newTx legacyTx, efficiency)))))))))"

definition decode_txs_step ::
    "(byte list \<Rightarrow> byte list list option) \<Rightarrow> (legacy_tx \<Rightarrow> transaction) \<Rightarrow> byte list \<Rightarrow> u64 \<Rightarrow>
     u64 \<Rightarrow> (state_error, (u64 \<times> transaction \<times> byte list) option) outcome" where
  "decode_txs_step dec newTx txsData forkID pos =
     obind (of_option (go_slice txsData (unat pos) (unat (pos + 1)))) (\<lambda>hd.
     obind (map_err ErrParse (parse_uint64 16 (hex_encode_to_string hd))) (\<lambda>num.
     if num < c0 then Err ErrInvalidData
     else obind (decode_txs_length txsData pos num) (\<lambda>len.
          case len of
            None \<Rightarrow> Ok None
          | Some length' \<Rightarrow>
              obind (decode_txs_body dec newTx txsData forkID pos length') (\<lambda>r. Ok (Some r)))))"

lemma slice_unat_add:
  assumes "go_slice xs (unat lo) (unat (lo + n :: u64)) = Some ys"
  shows "unat (lo + n) = unat lo + unat n"
proof -
  have "unat lo \<le> unat (lo + n)"
    using assms by (simp add: go_slice_Some_iff)
  then show ?thesis
    using unsigned_less [of lo, where ?'a = nat] unsigned_less [of n, where ?'a = nat]
    by (auto simp: unat_word_ariths mod_if split: if_splits)
qed

text \<open>A transaction takes at least the 65 bytes of its signature, so the loop always advances.\<close>

lemma decode_txs_body_progress:
  assumes "decode_txs_body dec newTx txsData forkID pos len = Ok (pos', tx, eff)"
  shows "unat pos + 65 \<le> unat pos' \<and> unat pos' \<le> length txsData"
proof -
  let ?d = "pos + len + headerByteLength"
  let ?e = "?d + rLength + sLength + vLength"
  from assms obtain r t v where le: "unat pos \<le> unat ?d" "unat pos' \<le> length txsData"
    and s1: "go_slice txsData (unat ?d) (unat (?d + rLength)) = Some r"
    and s2: "go_slice txsData (unat (?d + rLength)) (unat (?d + rLength + sLength)) = Some t"
    and s3: "go_slice txsData (unat (?d + rLength + sLength)) (unat ?e) = Some v"
    and e: "pos' = ?e \<or> pos' = ?e + EfficiencyPercentageByteLength \<and> unat ?e \<le> unat pos'"
    by (auto simp: decode_txs_body_def Let_def outcome_simps algebra_simps
        split: if_splits option.splits)
  have "unat ?e = unat ?d + 65"
    using slice_unat_add [OF s1] slice_unat_add [OF s2] slice_unat_add [OF s3]
    by (simp add: rLength_def sLength_def vLength_def)
  with e le show ?thesis by auto
qed

lemma decode_txs_step_progress:
  assumes "decode_txs_step dec newTx txsData forkID pos = Ok (Some (pos', tx, eff))"
  shows "unat pos < unat pos' \<and> unat pos' \<le> length txsData"
  using assms decode_txs_body_progress [of dec newTx txsData forkID pos]
  by (fastforce simp: decode_txs_step_def outcome_simps split: if_splits option.splits)

function decode_txs_loop ::
    "(byte list \<Rightarrow> byte list list option) \<Rightarrow> (legacy_tx \<Rightarrow> transaction) \<Rightarrow> byte list \<Rightarrow> u64 \<Rightarrow>
     u64 \<Rightarrow> transaction list \<Rightarrow> byte list \<Rightarrow>
     (state_error, transaction list \<times> byte list \<times> byte list) outcome" where
  "decode_txs_loop dec newTx txsData forkID pos txs effs =
     (if pos < word_of_nat (length txsData) then
        (case decode_txs_step dec newTx txsData forkID pos of
           Ok (Some (pos', tx, eff)) \<Rightarrow>
             decode_txs_loop dec newTx txsData forkID pos' (txs @ [tx]) (effs @ eff)
         | Ok None \<Rightarrow> Ok ([], txsData, [])
         | Err e \<Rightarrow> Err e
         | Panic \<Rightarrow> Panic)
      else Ok (txs, txsData, effs))"
  by pat_completeness auto
termination
  by (relation "measure (\<lambda>(dec, newTx, txsData, forkID, pos, txs, effs). length txsData - unat pos)")
     (auto dest: decode_txs_step_progress)

declare decode_txs_loop.simps [simp del]

definition decode_txs ::
    "(byte list \<Rightarrow> byte list list option) \<Rightarrow> (legacy_tx \<Rightarrow> transaction) \<Rightarrow> byte list \<Rightarrow> u64 \<Rightarrow>
     (state_error, transaction list \<times> byte list \<times> byte list) outcome" where
  "decode_txs dec newTx txsData forkID =
     (let txDataLength = word_of_nat (length txsData) :: u64 in
      if txDataLength = 0 then Ok ([], txsData, [])
      else decode_txs_loop dec newTx txsData forkID 0 [] [])"

text \<open>
  \<open>DecodeTx\<close> and \<open>HashByteArray\<close>; \<open>unmarshal\<close> is \<open>Transaction.UnmarshalBinary\<close> of
  go-ethereum, \<open>keccak\<close> the legacy Keccak-256 of \<open>x/crypto/sha3\<close>.
\<close>

definition decode_tx ::
    "(byte list \<Rightarrow> (state_error, transaction) outcome) \<Rightarrow> string \<Rightarrow> (state_error, transaction) outcome" where
  "decode_tx unmarshal encodedTx =
     (case decode_hex encodedTx of
        (b, Some e) \<Rightarrow> Err (ErrHex e)
      | (b, None) \<Rightarrow> unmarshal b)"

definition hash_byte_array :: "(byte list \<Rightarrow> byte list) \<Rightarrow> byte list \<Rightarrow> hash" where
  "hash_byte_array keccak data = bytes_to_hash (keccak data)"

section \<open>The bytes of a transaction\<close>

text \<open>
  A canonical transaction: the values a signed legacy transaction has, unprotected (\<open>V\<close> is 27
  or 28, chain id 0) or with replay protection (\<open>V\<close> is twice the chain id plus 35 or 36).
\<close>

lemma even_word_of_int_u64: "even (word_of_int v :: u64) \<longleftrightarrow> even v"
  by transfer (simp add: even_take_bit_eq)
lemma sign_word: "1 - ((word_of_int v :: u64) AND 1) = (if odd v then 0 else 1)"
  by (simp add: and_one_eq mod2_eq_if even_word_of_int_u64)

definition legacy_of :: "transaction \<Rightarrow> legacy_tx" where
  "legacy_of tx = \<lparr>lt_nonce = tx_nonce tx, lt_gas_price = tx_gas_price tx, lt_gas = tx_gas tx,
     lt_to = tx_to tx, lt_value = tx_value tx, lt_data = tx_data tx, lt_v = tx_v tx,
     lt_r = tx_r tx, lt_s = tx_s tx\<rparr>"

definition tx_canonical :: "transaction \<Rightarrow> bool" where
  "tx_canonical tx =
     (0 \<le> tx_gas_price tx \<and> 0 \<le> tx_value tx \<and>
      0 \<le> tx_r tx \<and> tx_r tx < 2 ^ 256 \<and> 0 \<le> tx_s tx \<and> tx_s tx < 2 ^ 256 \<and>
      (tx_chain_id tx = 0 \<and> tx_v tx \<in> {27, 28} \<or>
       0 \<le> tx_chain_id tx \<and> tx_v tx \<in> {2 * tx_chain_id tx + 35, 2 * tx_chain_id tx + 36}))"

definition v_byte :: "transaction \<Rightarrow> byte" where
  "v_byte tx = (if odd (tx_v tx) then 27 else 28)"

definition tx_tail :: "transaction \<Rightarrow> byte list" where
  "tx_tail tx = be_bytes 32 (nat (tx_r tx)) @ be_bytes 32 (nat (tx_s tx)) @ [v_byte tx]"

lemma text16_nonneg: "0 \<le> i \<Longrightarrow> text16 i = hex_text (nat i)"
  by (simp add: text16_def)

lemma pad_left_64: "0 \<le> i \<Longrightarrow> i < 2 ^ 256 \<Longrightarrow> pad_left 64 (text16 i) = encode_to_string (be_bytes 32 (nat i))"
  using pad_left_hex_be_bytes [of "nat i" 32] by (simp add: text16_nonneg nat_less_iff)

lemma pad_left_v:
  "pad_left 2 (text16 (ether155V + sint (1 - ((word_of_int (tx_v tx) :: u64) AND 1)))) = encode_to_string [v_byte tx]"
  using pad_left_hex_be_bytes [of 27 1] pad_left_hex_be_bytes [of 28 1]
  by (simp add: sign_word ether155V_def v_byte_def text16_nonneg)

lemma prepare_rlp_tx_data_layout:
  assumes "tx_canonical tx" and "enc (tx_fields tx) = Some c"
  shows "prepare_rlp_tx_data enc tx = Ok (c @ tx_tail tx)"
proof -
  have "pad_left 64 (text16 (tx_r tx)) @ pad_left 64 (text16 (tx_s tx)) @
      pad_left 2 (text16 (ether155V + sint (1 - ((word_of_int (tx_v tx) :: u64) AND 1)))) =
      encode_to_string (tx_tail tx)"
    using assms(1) by (simp add: tx_canonical_def pad_left_64 pad_left_v tx_tail_def encode_to_string_append)
  then show ?thesis
    by (simp only: prepare_rlp_tx_data_def Let_def assms(2) option.case hex_encode_to_string_def
        hex_decode_string_def encode_to_string_append [symmetric] decode_encode prod.case)
qed


lemma is_pre_eip155_canonical:
  assumes "tx_canonical tx"
  shows "is_pre_eip155_tx tx \<longleftrightarrow> tx_chain_id tx = 0 \<and> tx_v tx \<in> {27, 28}"
proof (cases "tx_chain_id tx = 0 \<and> tx_v tx \<in> {27, 28}")
  case True
  then show ?thesis by (auto simp: is_pre_eip155_tx_def)
next
  case False
  with assms obtain k :: int where "tx_v tx = 2 * tx_chain_id tx + k" "k = 35 \<or> k = 36"
    by (auto simp: tx_canonical_def)
  then have "(word_of_int (tx_v tx) :: u64) = 2 * word_of_int (tx_chain_id tx) + word_of_int k"
    by simp
  with False \<open>k = 35 \<or> k = 36\<close> show ?thesis
    by (auto simp: is_pre_eip155_tx_def)
qed

lemma be_nat_32: "0 \<le> i \<Longrightarrow> i < 2 ^ 256 \<Longrightarrow> int (be_nat (be_bytes 32 (nat i))) = i"
  by (simp add: be_nat_be_bytes nat_less_iff)

lemma field_addr_Nil: "field_bytes (RAddr a) = [] \<longleftrightarrow> a = None"
  by (cases a) (auto simp flip: length_0_conv)

lemma field_addr_Some: "a \<noteq> None \<Longrightarrow> Some (bytes_to_address (field_bytes (RAddr a))) = a"
  by (cases a) auto

lemma fields_to_legacy_round_trip:
  assumes "tx_canonical tx"
  shows "rlp_fields_to_legacy_tx (map field_bytes (tx_fields tx)) [v_byte tx]
     (be_bytes 32 (nat (tx_r tx))) (be_bytes 32 (nat (tx_s tx))) = Ok (legacy_of tx)"
proof -
  note rs = be_nat_32 [of "tx_r tx"] be_nat_32 [of "tx_s tx"]
  have v: "int (be_nat [v_byte tx]) = (if odd (tx_v tx) then 27 else 28)"
    by (simp add: be_nat_Cons v_byte_def)
  have nn: "0 \<le> tx_gas_price tx" "0 \<le> tx_value tx" "0 \<le> tx_r tx" "tx_r tx < 2 ^ 256"
      "0 \<le> tx_s tx" "tx_s tx < 2 ^ 256"
    using assms by (auto simp: tx_canonical_def)
  consider (pre) "is_pre_eip155_tx tx" "tx_v tx = 27 \<or> tx_v tx = 28"
    | (post) "\<not> is_pre_eip155_tx tx" "0 \<le> tx_chain_id tx"
        "tx_v tx = 2 * tx_chain_id tx + 35 \<or> tx_v tx = 2 * tx_chain_id tx + 36"
    using is_pre_eip155_canonical [OF assms] assms by (auto simp: tx_canonical_def)
  then show ?thesis
  proof cases
    case pre
    then have "int (be_nat [v_byte tx]) = tx_v tx"
      using v by auto
    with pre nn rs show ?thesis
      by (simp add: rlp_fields_to_legacy_tx_def tx_fields_def legacy_of_def be_nat_be_min
          field_addr_Nil field_addr_Some)
  next
    case post
    then have "int (be_nat [v_byte tx]) - 27 + (tx_chain_id tx * 2 + 35) = tx_v tx"
      using v by auto
    with post nn rs show ?thesis
      by (simp add: rlp_fields_to_legacy_tx_def tx_fields_def legacy_of_def be_nat_be_min
          field_addr_Nil field_addr_Some ether155V_def etherPre155V_def Let_def)
  qed
qed
lemma unat_word_u64: "n < 2 ^ 64 \<Longrightarrow> unat (word_of_nat n :: u64) = n"
  by (simp add: unat_of_nat)

lemma word_less_u64: "m < 2 ^ 64 \<Longrightarrow> n < 2 ^ 64 \<Longrightarrow> (word_of_nat m :: u64) < word_of_nat n \<longleftrightarrow> m < n"
  by (simp add: word_less_nat_alt unat_of_nat)

lemma parse_header_byte: "parse_uint64 16 (hex_encode_to_string [b]) = Ok (word_of_nat (unat b))"
  using parse_uint64_encode [of "[b]"] by (simp add: hex_encode_to_string_def be_nat_Cons)

lemma framed_cases:
  assumes "rlp_framed c" and "length c < 2 ^ 63"
  obtains (short) n payload where "c = word_of_nat (192 + n) # payload" "n \<le> 55" "length payload = n"
  | (long) n payload where "c = word_of_nat (247 + length (be_min n)) # be_min n @ payload"
      "55 < n" "length payload = n" "0 < length (be_min n)" "length (be_min n) \<le> 8" "n < 2 ^ 63"
proof -
  obtain payload where c: "c = rlp_list_header (length payload) @ payload"
    using assms(1) by (auto simp: rlp_framed_def)
  show thesis
  proof (cases "length payload \<le> 55")
    case True
    with c show thesis by (intro short [of "length payload" payload]) (auto simp: rlp_list_header_def)
  next
    case False
    with c assms(2) show thesis
      by (intro long [of "length payload" payload]) (auto simp: rlp_list_header_def intro: length_be_min_63)
  qed
qed

lemma framed_not_Nil: "rlp_framed c \<Longrightarrow> c \<noteq> []"
  by (auto simp: rlp_framed_def rlp_list_header_def split: if_splits)

lemma slice_at:
  assumes "length (pre @ c @ post) < 2 ^ 63" and "lo = word_of_nat (length pre)"
    and "hi = word_of_nat (length pre + length c)"
  shows "go_slice (pre @ c @ post) (unat (lo :: u64)) (unat (hi :: u64)) = Some c"
  using assms go_slice_mid [of pre c post] by (simp add: unat_word_u64 del: of_nat_add)

lemma decode_txs_length_framed:
  assumes fr: "rlp_framed c" and len: "length (pre @ c @ post) < 2 ^ 63"
  shows "\<not> (word_of_nat (unat (hd c)) :: u64) < c0 \<and>
    decode_txs_length (pre @ c @ post) (word_of_nat (length pre)) (word_of_nat (unat (hd c))) =
      Ok (Some (word_of_nat (length c - 1)))"
proof -
  have "length c < 2 ^ 63" using len by simp
  with fr show ?thesis
  proof (cases rule: framed_cases)
    case (short n payload)
    then have "unat (hd c) = 192 + n" by (simp add: unat_byte_of_nat del: of_nat_add)
    then have num: "(word_of_nat (unat (hd c)) :: u64) = c0 + word_of_nat n"
      by (simp add: c0_def)
    have "\<not> (word_of_nat n :: u64) > shortRlp" "\<not> c0 + (word_of_nat n :: u64) < c0"
      using short(2) by (auto simp: helper_consts word_less_nat_alt unat_of_nat unat_word_ariths)
    then show ?thesis
      using short unfolding num by (simp add: decode_txs_length_def)
  next
    case (long n payload)
    let ?m = "length (be_min n)"
    have m: "unat (hd c) = 247 + ?m" using long(1,5) by (simp add: unat_byte_of_nat del: of_nat_add)
    have num: "(word_of_nat (unat (hd c)) :: u64) = f7 + word_of_nat ?m"
      by (simp only: m) (simp add: f7_def)
    have n1: "\<not> f7 + (word_of_nat ?m :: u64) < c0" "shortRlp < f7 + word_of_nat ?m - c0"
      using long(4,5) by (auto simp: helper_consts word_less_nat_alt unat_of_nat unat_word_ariths)
    have n2: "word_of_nat (length pre) + 1 + (f7 + (word_of_nat ?m :: u64)) - f7 =
       word_of_nat (length pre + 1 + ?m)"
      by simp
    have n3: "\<not> (word_of_nat (length pre + 1 + ?m) :: u64) > word_of_nat (length (pre @ c @ post))"
      using len long(1) by (subst word_less_u64) auto
    have "go_slice ((pre @ [hd c]) @ be_min n @ (payload @ post))
       (unat (word_of_nat (length pre) + 1 :: u64)) (unat (word_of_nat (length pre + 1 + ?m) :: u64)) = Some (be_min n)"
      using len long(1) by (intro slice_at) auto
    then have sl: "go_slice (pre @ c @ post) (unat (word_of_nat (length pre) + 1 :: u64))
       (unat (word_of_nat (length pre + 1 + ?m) :: u64)) = Some (be_min n)"
      using long(1) by simp
    have pr: "parse_uint64 16 (hex_encode_to_string (be_min n)) = Ok (word_of_nat n)"
      using parse_uint64_encode [of "be_min n"] long(4,5)
      by (simp add: hex_encode_to_string_def be_nat_be_min)
    have n4: "\<not> (word_of_nat n :: u64) + (f7 + word_of_nat ?m) < f7"
      using long(5,6) by (auto simp: helper_consts word_less_nat_alt unat_of_nat unat_word_ariths)
    have n5: "(word_of_nat n :: u64) + (f7 + word_of_nat ?m) - f7 = word_of_nat (length c - 1)"
      using long(1,3) by simp
    show ?thesis
      unfolding num decode_txs_length_def Let_def
      by (simp only: n1 n2 n3 n4 n5 sl pr if_True if_False of_option.simps obind.simps
          map_err.simps simp_thms)
  qed
qed
lemma pos_plus:
  "(word_of_nat a :: u64) + headerByteLength = word_of_nat (a + 1)"
  "(word_of_nat a :: u64) + rLength = word_of_nat (a + 32)"
  "(word_of_nat a :: u64) + sLength = word_of_nat (a + 32)"
  "(word_of_nat a :: u64) + vLength = word_of_nat (a + 1)"
  "(word_of_nat a :: u64) + EfficiencyPercentageByteLength = word_of_nat (a + 1)"
  "(word_of_nat a :: u64) + word_of_nat b = word_of_nat (a + b)"
  by (simp_all add: helper_consts)

definition chunk_tail :: "u64 \<Rightarrow> byte \<Rightarrow> byte list" where
  "chunk_tail forkID eff = (if forkID \<ge> FORKID_DRAGONFRUIT then [eff] else [])"

definition tx_chunk :: "u64 \<Rightarrow> byte list \<Rightarrow> transaction \<Rightarrow> byte \<Rightarrow> byte list" where
  "tx_chunk forkID c tx eff = c @ tx_tail tx @ chunk_tail forkID eff"

lemma slice_in:
  assumes "data = p @ c @ q" "a = length p" "b = length p + length c" "length data < 2 ^ 63"
  shows "go_slice data (unat (word_of_nat a :: u64)) (unat (word_of_nat b :: u64)) = Some c"
  using assms slice_at [of p c q] by (simp del: of_nat_add)

lemma decode_txs_body_chunk:
  assumes can: "tx_canonical tx" and c: "c \<noteq> []" and dec: "dec c = Some (map field_bytes (tx_fields tx))"
    and len: "length (pre @ tx_chunk forkID c tx eff @ post) < 2 ^ 63"
  shows "decode_txs_body dec newTx (pre @ tx_chunk forkID c tx eff @ post) forkID
      (word_of_nat (length pre)) (word_of_nat (length c - 1)) =
    Ok (word_of_nat (length pre + length (tx_chunk forkID c tx eff)), newTx (legacy_of tx),
        chunk_tail forkID eff)"
proof -
  let ?d = "pre @ tx_chunk forkID c tx eff @ post"
  let ?E = "chunk_tail forkID eff"
  let ?R = "be_bytes 32 (nat (tx_r tx))" and ?S = "be_bytes 32 (nat (tx_s tx))"
  let ?P = "length pre" and ?C = "length c"
  have d: "?d = pre @ c @ ?R @ ?S @ [v_byte tx] @ ?E @ post"
    by (simp add: tx_chunk_def tx_tail_def)
  obtain k where k: "length c = Suc k" using c by (cases c) auto
  have tl: "length ?E = (if forkID \<ge> FORKID_DRAGONFRUIT then 1 else 0)"
    by (simp add: chunk_tail_def)
  have ld: "length (tx_chunk forkID c tx eff) = ?C + 65 + length ?E"
    by (simp add: tx_chunk_def tx_tail_def)
  note sl = slice_in [OF _ _ _ len]
  have s0: "go_slice ?d (unat (word_of_nat ?P :: u64)) (unat (word_of_nat (?P + ?C + 65 + length ?E) :: u64))
     = Some (tx_chunk forkID c tx eff)"
    by (rule sl [of pre _ post]) (auto simp: ld)
  have s1: "go_slice ?d (unat (word_of_nat ?P :: u64)) (unat (word_of_nat (?P + ?C) :: u64)) = Some c"
    by (rule sl [of pre]) (auto simp: d)
  have s2: "go_slice ?d (unat (word_of_nat (?P + ?C) :: u64)) (unat (word_of_nat (?P + ?C + 32) :: u64)) = Some ?R"
    by (rule sl [of "pre @ c"]) (auto simp: d)
  have s3: "go_slice ?d (unat (word_of_nat (?P + ?C + 32) :: u64)) (unat (word_of_nat (?P + ?C + 32 + 32) :: u64)) = Some ?S"
    by (rule sl [of "pre @ c @ ?R"]) (auto simp: d)
  have s4: "go_slice ?d (unat (word_of_nat (?P + ?C + 32 + 32) :: u64)) (unat (word_of_nat (?P + ?C + 32 + 32 + 1) :: u64)) = Some [v_byte tx]"
    by (rule sl [of "pre @ c @ ?R @ ?S"]) (auto simp: d)
  have s5: "go_slice ?d (unat (word_of_nat (?P + ?C + 32 + 32 + 1) :: u64)) (unat (word_of_nat (?P + ?C + 65 + length ?E) :: u64)) = Some ?E"
    by (rule sl [of "pre @ c @ ?R @ ?S @ [v_byte tx]"]) (auto simp: d)
  have b1: "\<not> (word_of_nat (length ?d) :: u64) < word_of_nat (?P + ?C + 65 + length ?E)"
    using len ld by (subst word_less_u64) auto
  have b2: "\<not> (word_of_nat (?P + ?C + 65 + length ?E) :: u64) < word_of_nat ?P"
    using len ld by (subst word_less_u64) auto
  show ?thesis
  proof (cases "forkID \<ge> FORKID_DRAGONFRUIT")
    case True
    then have E: "?E = [eff]" by (simp add: chunk_tail_def)
    note f = b1 b2 s0 s1 s2 s3 s4 s5
    show ?thesis
      unfolding decode_txs_body_def Let_def
      using True f [unfolded E] fields_to_legacy_round_trip [OF can]
      by (simp add: pos_plus k dec ld E add.left_commute go_index_def del: of_nat_add of_nat_Suc)
  next
    case False
    then have E: "?E = []" by (simp add: chunk_tail_def)
    note f = b1 b2 s0 s1 s2 s3 s4
    show ?thesis
      unfolding decode_txs_body_def Let_def
      using False f [unfolded E] fields_to_legacy_round_trip [OF can]
      by (simp add: pos_plus k dec ld E add.left_commute del: of_nat_add of_nat_Suc)
  qed
qed

section \<open>\<open>DecodeTxs\<close> never panics\<close>

lemma slice_total:
  assumes "unat lo \<le> unat hi" "unat hi \<le> length xs" "length xs < 2 ^ 63"
  shows "of_option (go_slice xs (unat (lo :: u64)) (unat (hi :: u64))) \<noteq> Panic"
  using assms by (simp add: outcome_simps go_slice_def)

lemma parse_uint64_not_Panic [simp]: "parse_uint64 b s \<noteq> Panic"
  by (auto simp: parse_uint64_def split: option.splits)

lemma rlp_fields_to_legacy_tx_not_Panic [simp]: "rlp_fields_to_legacy_tx f v r s \<noteq> Panic"
  by (simp add: rlp_fields_to_legacy_tx_def Let_def)

lemma parse_uint64_byte_bound:
  "parse_uint64 16 (hex_encode_to_string [b]) = Ok num \<Longrightarrow> unat num < 256"
  using unsigned_less [of b, where ?'a = nat]
  by (auto simp: parse_header_byte unat_word_u64 simp del: of_nat_unat)

lemma slice_one: "go_slice xs (unat pos) (unat (pos + 1 :: u64)) = Some ys \<Longrightarrow> \<exists>b. ys = [b]"
  using slice_unat_add [of xs pos 1 ys]
  by (auto simp: go_slice_Some_iff length_Suc_conv intro!: exI[of _ "xs ! unat pos"] nth_equalityI)


lemma unat_plus_cases:
  "unat (a + b :: u64) = unat a + unat b \<and> unat a + unat b < 2 ^ 64 \<or>
   unat (a + b) + 2 ^ 64 = unat a + unat b"
  using unsigned_less [of a, where ?'a = nat] unsigned_less [of b, where ?'a = nat]
  by (auto simp: unat_word_ariths mod_if)

lemma unat_minus_le: "b \<le> a \<Longrightarrow> unat (a - b :: u64) = unat a - unat b"
  by (simp add: unat_sub)

lemma decode_txs_length_not_Panic:
  assumes "unat pos < length txsData" "length txsData < 2 ^ 63" "unat num < 256" "\<not> num < c0"
  shows "decode_txs_length txsData pos num \<noteq> Panic"
proof (cases "num - c0 > shortRlp \<and> \<not> pos + 1 + num - f7 > word_of_nat (length txsData)")
  case True
  have p1: "unat (pos + 1 :: u64) = unat pos + 1"
    using unat_plus_cases [of pos 1] assms by simp
  have "unat num - 192 > 55"
    using True assms(4) unat_minus_le [of c0 num]
    by (simp add: helper_consts word_less_nat_alt word_le_nat_alt)
  then have n: "247 < unat num" by simp
  have p2: "unat (pos + 1 + num :: u64) = unat pos + 1 + unat num"
    using unat_plus_cases [of "pos + 1" num] assms p1 by auto
  have "f7 \<le> pos + 1 + num"
    using n p2 by (simp add: word_le_nat_alt f7_def)
  then have p3: "unat (pos + 1 + num - f7) = unat pos + 1 + (unat num - 247)"
    using n p2 unat_minus_le [of f7 "pos + 1 + num"] by (simp only: p2) (simp add: f7_def)
  have "unat (pos + 1 + num - f7) \<le> length txsData"
    using True assms by (simp add: not_less word_le_nat_alt unat_of_nat)
  then show ?thesis
    using slice_total [of "pos + 1" "pos + 1 + num - f7" txsData] assms p1 p3
    by (auto simp: decode_txs_length_def outcome_simps Let_def split: if_splits)
qed (use assms in \<open>auto simp: decode_txs_length_def outcome_simps Let_def\<close>)

lemma decode_txs_length_bound:
  assumes "decode_txs_length txsData pos num = Ok (Some len)" "unat num < 256" "\<not> num < c0"
  shows "unat len + 248 \<le> 2 ^ 64"
proof (cases "num - c0 > shortRlp")
  case False
  then have "unat (num - c0) \<le> 55" using assms(1)
    by (simp add: helper_consts word_less_nat_alt)
  then show ?thesis
    using assms(1) False by (simp add: decode_txs_length_def Let_def)
next
  case True
  then obtain n :: u64 where n: "\<not> n + num < f7" and len: "len = n + num - f7"
    using assms(1) by (auto simp: decode_txs_length_def Let_def outcome_simps split: if_splits)
  have "unat len = unat (n + num) - 247"
    using n len by (simp add: unat_minus_le f7_def not_less)
  moreover have "unat (n + num) < 2 ^ 64"
    using unsigned_less [of "n + num", where ?'a = nat] by simp
  moreover have "\<not> unat (n + num) < 247"
    using n by (simp add: word_less_nat_alt f7_def)
  ultimately show ?thesis by linarith
qed

lemma decode_txs_body_not_Panic:
  assumes pos: "unat pos < length txsData" and dl: "length txsData < 2 ^ 63"
    and len: "unat len + 248 \<le> 2 ^ 64"
  shows "decode_txs_body dec newTx txsData forkID pos len \<noteq> Panic"
proof -
  let ?s = "unat pos + unat len"
  let ?w = "\<lambda>k. word_of_nat (?s + k) :: u64"
  let ?k = "if forkID \<ge> FORKID_DRAGONFRUIT then 67 else 66 :: nat"
  have sums: "pos + len = word_of_nat ?s" by simp
  have ep: "(if forkID \<ge> FORKID_DRAGONFRUIT
      then pos + len + rLength + sLength + vLength + headerByteLength + EfficiencyPercentageByteLength
      else pos + len + rLength + sLength + vLength + headerByteLength) = ?w ?k"
    by (auto simp: sums pos_plus simp del: of_nat_add) (simp_all only: ac_simps)
  show ?thesis
  proof (cases "?w ?k > word_of_nat (length txsData) \<or> ?w ?k < pos")
    case True
    then show ?thesis
      unfolding decode_txs_body_def Let_def ep by auto
  next
    case False
    have "unat (?w ?k) = ?s + ?k \<or> unat (?w ?k) + 2 ^ 64 = ?s + ?k"
      using unat_plus_cases [of "pos" "len + word_of_nat ?k"] len
      by (auto simp: add.assoc unat_word_ariths)
    moreover have "unat pos \<le> unat (?w ?k)" "unat (?w ?k) \<le> length txsData"
      using False dl by (simp_all add: not_less word_le_nat_alt unat_of_nat [of "length _"] del: of_nat_add)
    ultimately have k: "?s + ?k \<le> length txsData"
      using len by (auto split: if_splits)
    have u: "unat (?w j) = ?s + j" if "j \<le> ?k" for j
      using that k dl by (simp add: unat_word_u64 del: of_nat_add)
    have sl: "go_slice txsData (unat (?w i)) (unat (?w j)) \<noteq> None" if "i \<le> j" "j \<le> ?k" for i j
      using u [of i] u [of j] that k dl by (simp add: go_slice_def del: of_nat_add)
    have sp: "go_slice txsData (unat pos) (unat (?w j)) \<noteq> None" if "j \<le> ?k" for j
      using u [of j] that k dl by (simp add: go_slice_def del: of_nat_add)
    have st: "pos + len + headerByteLength = ?w 1" "?w 1 + rLength = ?w 33" "?w 33 + sLength = ?w 65"
      "?w 65 + vLength = ?w 66"
      by (simp_all only: sums pos_plus add.assoc) simp_all
    have ne: "0 < length ep" if "go_slice txsData (unat (?w 66)) (unat (?w 67)) = Some ep"
        "forkID \<ge> FORKID_DRAGONFRUIT" for ep
      using that u [of 66] u [of 67] by (auto simp: go_slice_Some_iff simp del: of_nat_add)
    show ?thesis
      using sl [of 1 33] sl [of 33 65] sl [of 65 66] sl [of 66 67] sp [of 1] sp [of ?k] ne
      unfolding decode_txs_body_def Let_def ep st
      by (auto simp: outcome_simps go_index_def simp del: of_nat_add split: if_splits option.splits)
  qed
qed
lemma decode_txs_step_not_Panic:
  assumes pos: "unat pos < length txsData" and dl: "length txsData < 2 ^ 63"
  shows "decode_txs_step dec newTx txsData forkID pos \<noteq> Panic"
proof -
  have p1: "unat (pos + 1 :: u64) = unat pos + 1"
    using unat_plus_cases [of pos 1] assms by simp
  then have "go_slice txsData (unat pos) (unat (pos + 1)) \<noteq> None"
    using assms by (simp add: go_slice_def)
  then obtain b where hd: "go_slice txsData (unat pos) (unat (pos + 1)) = Some [b]"
    using slice_one by blast
  have num: "unat num < 256" if "parse_uint64 16 (hex_encode_to_string [b]) = Ok num" for num
    using parse_uint64_byte_bound that .
  show ?thesis
    using num decode_txs_length_not_Panic [OF pos dl]
      decode_txs_body_not_Panic [OF pos dl decode_txs_length_bound]
    by (auto simp: decode_txs_step_def hd outcome_simps split: if_splits option.splits)
qed

lemma decode_txs_loop_not_Panic:
  "length txsData < 2 ^ 63 \<Longrightarrow> decode_txs_loop dec newTx txsData forkID pos txs effs \<noteq> Panic"
proof (induction dec newTx txsData forkID pos txs effs rule: decode_txs_loop.induct)
  case (1 dec newTx txsData forkID pos txs effs)
  show ?case
  proof (cases "pos < word_of_nat (length txsData)")
    case True
    then have "unat pos < length txsData"
      using "1.prems" by (simp add: word_less_nat_alt unat_of_nat)
    then have "decode_txs_step dec newTx txsData forkID pos \<noteq> Panic"
      using "1.prems" by (rule decode_txs_step_not_Panic)
    then show ?thesis
      using "1.IH" [OF True] "1.prems"
      by (subst decode_txs_loop.simps) (auto split: outcome.splits option.splits)
  qed (simp add: decode_txs_loop.simps)
qed

section \<open>Decoding what was encoded\<close>

fun txs_data :: "u64 \<Rightarrow> (byte list \<times> transaction \<times> byte) list \<Rightarrow> byte list" where
  "txs_data forkID [] = []"
| "txs_data forkID ((c, tx, eff) # xs) = tx_chunk forkID c tx eff @ txs_data forkID xs"

context rlp_codec
begin

lemma decode_txs_step_chunk:
  assumes can: "tx_canonical tx" and enc: "enc (tx_fields tx) = Some c"
    and len: "length (pre @ tx_chunk forkID c tx eff @ post) < 2 ^ 63"
  shows "decode_txs_step dec newTx (pre @ tx_chunk forkID c tx eff @ post) forkID
      (word_of_nat (length pre)) =
    Ok (Some (word_of_nat (length pre + length (tx_chunk forkID c tx eff)), newTx (legacy_of tx),
        chunk_tail forkID eff))"
proof -
  have fr: "rlp_framed c" and dec: "dec c = Some (map field_bytes (tx_fields tx))"
    using enc by (auto intro: enc_framed dec_enc)
  then obtain b c' where c: "c = b # c'"
    using framed_not_Nil [OF fr] by (cases c) auto
  let ?rest = "tx_tail tx @ chunk_tail forkID eff @ post"
  have d: "pre @ tx_chunk forkID c tx eff @ post = pre @ c @ ?rest"
    by (simp add: tx_chunk_def)
  have hd: "go_slice (pre @ tx_chunk forkID c tx eff @ post) (unat (word_of_nat (length pre) :: u64))
      (unat (word_of_nat (length pre) + 1 :: u64)) = Some [b]"
    using slice_in [of _ pre "[b]" "c' @ ?rest" "length pre" "length pre + 1", OF _ _ _ len]
    by (simp add: c tx_chunk_def add.commute)
  have ln: "\<not> (word_of_nat (unat b) :: u64) < c0 \<and>
      decode_txs_length (pre @ tx_chunk forkID c tx eff @ post) (word_of_nat (length pre))
        (word_of_nat (unat b)) = Ok (Some (word_of_nat (length c - 1)))"
    using decode_txs_length_framed [OF fr, of pre ?rest] len unfolding d by (simp add: c)
  show ?thesis
    using ln decode_txs_body_chunk [OF can framed_not_Nil [OF fr], of dec pre forkID eff post newTx, OF dec len]
    unfolding decode_txs_step_def hd
    by (simp add: parse_header_byte del: of_nat_add of_nat_diff)
qed

lemma decode_txs_loop_chunks:
  assumes xs: "\<And>c tx eff. (c, tx, eff) \<in> set xs \<Longrightarrow> tx_canonical tx \<and> enc (tx_fields tx) = Some c"
    and len: "length (pre @ txs_data forkID xs @ post) < 2 ^ 63"
  shows "decode_txs_loop dec newTx (pre @ txs_data forkID xs @ post) forkID (word_of_nat (length pre)) txs effs =
    decode_txs_loop dec newTx (pre @ txs_data forkID xs @ post) forkID
      (word_of_nat (length pre + length (txs_data forkID xs)))
      (txs @ map (\<lambda>(c, tx, eff). newTx (legacy_of tx)) xs)
      (effs @ concat (map (\<lambda>(c, tx, eff). chunk_tail forkID eff) xs))"
  using xs len
proof (induction xs arbitrary: pre txs effs)
  case Nil
  then show ?case by simp
next
  case (Cons x xs)
  obtain c tx eff where x: "x = (c, tx, eff)" by (cases x)
  let ?k = "tx_chunk forkID c tx eff" and ?r = "txs_data forkID xs @ post"
  have "tx_canonical tx" "enc (tx_fields tx) = Some c"
    using Cons.prems(1) [of c tx eff] x by auto
  with Cons.prems(2) x
  have st: "decode_txs_step dec newTx (pre @ ?k @ ?r) forkID (word_of_nat (length pre)) =
      Ok (Some (word_of_nat (length pre + length ?k), newTx (legacy_of tx), chunk_tail forkID eff))"
    by (intro decode_txs_step_chunk) auto
  have "0 < length ?k"
    by (simp add: tx_chunk_def tx_tail_def)
  then have lt: "(word_of_nat (length pre) :: u64) < word_of_nat (length (pre @ ?k @ ?r))"
    using Cons.prems(2) x by (subst word_less_u64) auto
  have IH: "decode_txs_loop dec newTx ((pre @ ?k) @ ?r) forkID (word_of_nat (length (pre @ ?k)))
      (txs @ [newTx (legacy_of tx)]) (effs @ chunk_tail forkID eff) =
      decode_txs_loop dec newTx ((pre @ ?k) @ ?r) forkID
        (word_of_nat (length (pre @ ?k) + length (txs_data forkID xs)))
        ((txs @ [newTx (legacy_of tx)]) @ map (\<lambda>(c, tx, eff). newTx (legacy_of tx)) xs)
        ((effs @ chunk_tail forkID eff) @ concat (map (\<lambda>(c, tx, eff). chunk_tail forkID eff) xs))"
    by (rule Cons.IH) (use Cons.prems x in auto)
  show ?case
    using lt st IH by (simp add: x decode_txs_loop.simps [of dec newTx _ _ "word_of_nat (length pre)"]
        add.assoc del: of_nat_add)
qed

lemma decode_txs_chunks:
  assumes xs: "\<And>c tx eff. (c, tx, eff) \<in> set xs \<Longrightarrow> tx_canonical tx \<and> enc (tx_fields tx) = Some c"
    and len: "length (txs_data forkID xs) < 2 ^ 63"
  shows "decode_txs dec newTx (txs_data forkID xs) forkID =
    Ok (map (\<lambda>(c, tx, eff). newTx (legacy_of tx)) xs, txs_data forkID xs,
        concat (map (\<lambda>(c, tx, eff). chunk_tail forkID eff) xs))"
proof (cases "txs_data forkID xs = []")
  case True
  then have "xs = []"
    by (cases xs) (auto simp: tx_chunk_def tx_tail_def)
  then show ?thesis by (simp add: decode_txs_def)
next
  case False
  then have "(word_of_nat (length (txs_data forkID xs)) :: u64) \<noteq> 0"
    using len by (auto simp: word_unat_eq_iff unat_of_nat)
  then show ?thesis
    using decode_txs_loop_chunks [of xs "[]" forkID "[]" newTx "[]" "[]", OF xs] len
    by (simp add: decode_txs_def decode_txs_loop.simps [of _ _ _ _ "word_of_nat (length (txs_data forkID xs))"])
qed

lemma decode_txs_truncated_length:
  assumes xs: "\<And>c tx eff. (c, tx, eff) \<in> set xs \<Longrightarrow> tx_canonical tx \<and> enc (tx_fields tx) = Some c"
    and b: "247 < unat b" and short: "length rest < unat b - 247"
    and len: "length (txs_data forkID xs) < 2 ^ 62"
  shows "decode_txs dec newTx (txs_data forkID xs @ b # rest) forkID =
    Ok ([], txs_data forkID xs @ b # rest, [])"
proof -
  let ?p = "txs_data forkID xs" and ?d = "txs_data forkID xs @ b # rest"
  have bb: "unat b < 256" using unsigned_less [of b, where ?'a = nat] by simp
  have len': "length ?d < 2 ^ 63" using len short bb by simp
  have n: "unat (word_of_nat (unat b) :: u64) = unat b"
    using bb by (intro unat_word_u64) simp
  have c: "c0 \<le> word_of_nat (unat b)"
    using b n by (simp only: word_le_nat_alt) (simp add: c0_def)
  have lt: "(word_of_nat (length ?p) :: u64) < word_of_nat (length ?d)"
    using len' by (subst word_less_u64) auto
  have hd: "go_slice ?d (unat (word_of_nat (length ?p) :: u64))
      (unat (word_of_nat (length ?p) + 1 :: u64)) = Some [b]"
    using slice_in [of ?d ?p "[b]" rest "length ?p" "length ?p + 1"] len'
    by (simp add: add.commute)
  have "(word_of_nat (length ?p) :: u64) + 1 + word_of_nat (unat b) - f7 =
      word_of_nat (length ?p + 1 + (unat b - 247))"
    using b by (simp add: f7_def of_nat_diff del: of_nat_unat)
  then have "word_of_nat (length ?d) < (word_of_nat (length ?p) :: u64) + 1 + word_of_nat (unat b) - f7"
    using len' len short bb by (simp only: word_less_u64) (subst word_less_u64, auto)
  moreover have "\<not> (word_of_nat (unat b) :: u64) < c0"
    using b n by (simp only: word_less_nat_alt) (simp add: c0_def)
  moreover have "shortRlp < (word_of_nat (unat b) :: u64) - c0"
    using b n unat_minus_le [OF c]
    by (simp only: word_less_nat_alt) (simp add: helper_consts)
  ultimately have "decode_txs_step dec newTx ?d forkID (word_of_nat (length ?p)) = Ok None"
    unfolding decode_txs_step_def hd
    by (simp add: parse_header_byte decode_txs_length_def Let_def del: of_nat_unat)
  then have "decode_txs_loop dec newTx ?d forkID (word_of_nat (length ?p)) t e = Ok ([], ?d, [])" for t e
    using lt by (simp add: decode_txs_loop.simps)
  moreover have "(word_of_nat (length ?d) :: u64) \<noteq> 0"
    using lt by auto
  ultimately show ?thesis
    using decode_txs_loop_chunks [of xs "[]" forkID "b # rest" newTx "[]" "[]", OF xs] len'
    by (simp add: decode_txs_def)
qed

end

lemma decode_txs_body_efficiency:
  "decode_txs_body dec newTx d forkID pos len = Ok (pos', tx, eff) \<Longrightarrow>
   length eff = (if forkID \<ge> FORKID_DRAGONFRUIT then 1 else 0)"
  by (auto simp: decode_txs_body_def Let_def outcome_simps split: if_splits option.splits)

lemma decode_txs_step_efficiency:
  "decode_txs_step dec newTx d forkID pos = Ok (Some (pos', tx, eff)) \<Longrightarrow>
   length eff = (if forkID \<ge> FORKID_DRAGONFRUIT then 1 else 0)"
  using decode_txs_body_efficiency [of dec newTx d forkID pos]
  by (fastforce simp: decode_txs_step_def outcome_simps split: if_splits option.splits)

lemma decode_txs_loop_result:
  "decode_txs_loop dec newTx d forkID pos txs effs = Ok (txs', d', effs') \<Longrightarrow>
   length effs = (if forkID \<ge> FORKID_DRAGONFRUIT then length txs else 0) \<Longrightarrow>
   d' = d \<and> length effs' = (if forkID \<ge> FORKID_DRAGONFRUIT then length txs' else 0)"
proof (induction dec newTx d forkID pos txs effs arbitrary: txs' d' effs' rule: decode_txs_loop.induct)
  case (1 dec newTx d forkID pos txs effs)
  show ?case
  proof (cases "pos < word_of_nat (length d)")
    case True
    then show ?thesis
      using "1.prems" "1.IH" [OF True] decode_txs_step_efficiency [of dec newTx d forkID pos]
      by (subst (asm) decode_txs_loop.simps)
         (force split: outcome.splits option.splits if_splits)
  next
    case False
    then show ?thesis
      using "1.prems" by (subst (asm) decode_txs_loop.simps) (auto split: if_splits)
  qed
qed

lemma prepare_rlp_tx_data_Ok:
  "tx_canonical tx \<Longrightarrow> prepare_rlp_tx_data enc tx = Ok bs \<Longrightarrow>
   \<exists>c. enc (tx_fields tx) = Some c \<and> bs = c @ tx_tail tx"
  by (cases "enc (tx_fields tx)") (auto simp: prepare_rlp_tx_data_layout, simp add: prepare_rlp_tx_data_def)

lemma prepared_chunks:
  assumes "list_all2 (\<lambda>(tx, eff) bs. tx_canonical tx \<and> prepare_rlp_tx_data enc tx = Ok bs) txs bss"
  shows "\<exists>xs. map (\<lambda>(c, tx, eff). (tx, eff)) xs = txs \<and>
     (\<forall>(c, tx, eff) \<in> set xs. tx_canonical tx \<and> enc (tx_fields tx) = Some c) \<and>
     txs_data forkID xs = concat (map2 (\<lambda>(tx, eff) bs. bs @ chunk_tail forkID eff) txs bss)"
  using assms
proof (induction txs bss rule: list_all2_induct)
  case Nil
  then show ?case by (intro exI [of _ "[]"]) simp
next
  case (Cons x txs bs bss)
  obtain tx eff where x: "x = (tx, eff)" by (cases x)
  then obtain c where c: "enc (tx_fields tx) = Some c" "bs = c @ tx_tail tx"
    using Cons.hyps prepare_rlp_tx_data_Ok by fastforce
  from Cons.IH obtain xs where "map (\<lambda>(c, tx, eff). (tx, eff)) xs = txs"
    "\<forall>(c, tx, eff) \<in> set xs. tx_canonical tx \<and> enc (tx_fields tx) = Some c"
    "txs_data forkID xs = concat (map2 (\<lambda>(tx, eff) bs. bs @ chunk_tail forkID eff) txs bss)" by blast
  with x c Cons.hyps show ?case
    by (intro exI [of _ "(c, tx, eff) # xs"]) (auto simp: tx_chunk_def)
qed


section \<open>Properties\<close>

text \<open>
  C17. \<open>DecodeTxs\<close> undoes \<open>prepareRLPTxData\<close>: on the concatenation of any number of prepared
  canonical transactions, each followed from fork 5 on by its effective percentage byte, it
  returns exactly those transactions, in order, and those percentages, whatever the RLP codec
  (as long as its encodings are framed lists that decode to their fields) and for short as well
  as long lists.
\<close>

theorem decode_txs_round_trip:
  assumes "rlp_codec enc dec"
    and "list_all2 (\<lambda>(tx, eff) bs. tx_canonical tx \<and> prepare_rlp_tx_data enc tx = Ok bs) txs bss"
    and "data = concat (map2 (\<lambda>(tx, eff) bs. bs @ chunk_tail forkID eff) txs bss)"
    and "length data < 2 ^ 63"
  shows "decode_txs dec newTx data forkID =
    Ok (map (\<lambda>(tx, eff). newTx (legacy_of tx)) txs, data,
        if forkID \<ge> FORKID_DRAGONFRUIT then map snd txs else [])"
proof -
  obtain xs where xs: "map (\<lambda>(c, tx, eff). (tx, eff)) xs = txs"
    "\<forall>(c, tx, eff) \<in> set xs. tx_canonical tx \<and> enc (tx_fields tx) = Some c"
    "txs_data forkID xs = data"
    using prepared_chunks [OF assms(2)] assms(3) by blast
  have "decode_txs dec newTx (txs_data forkID xs) forkID =
    Ok (map (\<lambda>(c, tx, eff). newTx (legacy_of tx)) xs, txs_data forkID xs,
        concat (map (\<lambda>(c, tx, eff). chunk_tail forkID eff) xs))"
    using xs assms(4) by (intro rlp_codec.decode_txs_chunks [OF assms(1)]) auto
  moreover have "concat (map (\<lambda>(c, tx, eff). chunk_tail forkID eff) xs) =
      (if forkID \<ge> FORKID_DRAGONFRUIT then map snd txs else [])"
    unfolding xs(1) [symmetric] by (induction xs) (auto simp: chunk_tail_def)
  ultimately show ?thesis
    unfolding xs(3) xs(1) [symmetric] by (simp add: comp_def case_prod_beta)
qed

text \<open>
  A \<open>types.NewTx\<close> for the witnesses: go-ethereum derives the chain id of a legacy transaction
  from \<open>V\<close>.
\<close>

definition new_tx_ref :: "legacy_tx \<Rightarrow> transaction" where
  "new_tx_ref lt = \<lparr>tx_nonce = lt_nonce lt, tx_gas_price = lt_gas_price lt, tx_gas = lt_gas lt,
     tx_to = lt_to lt, tx_value = lt_value lt, tx_data = lt_data lt,
     tx_chain_id = (if lt_v lt = 27 \<or> lt_v lt = 28 then 0 else (lt_v lt - 35) div 2),
     tx_v = lt_v lt, tx_r = lt_r lt, tx_s = lt_s lt\<rparr>"

definition sample_tx :: transaction where
  "sample_tx = \<lparr>tx_nonce = 7, tx_gas_price = 1000000000, tx_gas = 21000, tx_to = Some 4660,
     tx_value = 5, tx_data = replicate 60 1, tx_chain_id = 1101, tx_v = 2238, tx_r = 11, tx_s = 12\<rparr>"

definition sample_rlp :: "byte list" where
  "sample_rlp = (case rlp_enc (tx_fields sample_tx) of Some bs \<Rightarrow> bs | None \<Rightarrow> [])"

definition sample_bytes :: "byte list" where
  "sample_bytes = sample_rlp @ tx_tail sample_tx"

lemma sample_canonical: "tx_canonical sample_tx"
  by (simp add: tx_canonical_def sample_tx_def)

lemma new_tx_ref_sample [simp]: "new_tx_ref (legacy_of sample_tx) = sample_tx"
  by (simp add: new_tx_ref_def legacy_of_def sample_tx_def)

lemma sample_fields:
  "list_all rlp_encodable (tx_fields sample_tx)" "(\<Sum>f\<leftarrow>tx_fields sample_tx. length (field_bytes f) + 9) \<le> 300"
proof -
  show "list_all rlp_encodable (tx_fields sample_tx)"
    by (simp add: tx_fields_def sample_tx_def)
  show "(\<Sum>f\<leftarrow>tx_fields sample_tx. length (field_bytes f) + 9) \<le> 300"
    using length_be_min_le [of 7 8] length_be_min_le [of 1000000000 8] length_be_min_le [of 21000 8]
      length_be_min_le [of 5 8] length_be_min_le [of 1101 8]
    by (simp add: tx_fields_def sample_tx_def is_pre_eip155_tx_def)
qed

lemma sample_rlp: "rlp_enc (tx_fields sample_tx) = Some sample_rlp" "length sample_rlp \<le> 309"
  using rlp_enc_small [OF sample_fields(1)] sample_fields(2) by (auto simp: sample_rlp_def)

lemma sample_prepared: "prepare_rlp_tx_data rlp_enc sample_tx = Ok sample_bytes" "length sample_bytes \<le> 374"
  using sample_rlp by (simp_all add: prepare_rlp_tx_data_layout sample_canonical sample_bytes_def tx_tail_def)

theorem decode_txs_round_trip_witness:
  "decode_txs rlp_dec new_tx_ref (sample_bytes @ [9]) 7 = Ok ([sample_tx], sample_bytes @ [9], [9])"
proof -
  have "decode_txs rlp_dec new_tx_ref (sample_bytes @ [9]) 7 =
    Ok (map (\<lambda>(tx, eff). new_tx_ref (legacy_of tx)) [(sample_tx, 9::byte)], sample_bytes @ [9],
        if (7::u64) \<ge> FORKID_DRAGONFRUIT then map snd [(sample_tx, 9::byte)] else [])"
    by (rule decode_txs_round_trip [OF rlp_ref.rlp_codec_axioms, where bss = "[sample_bytes]"])
       (use sample_prepared sample_canonical in \<open>simp_all add: chunk_tail_def FORKID_DRAGONFRUIT_def\<close>)
  then show ?thesis by (simp add: FORKID_DRAGONFRUIT_def)
qed

text \<open>
  C19. \<open>DecodeTxs\<close> survives every byte string that fits in memory: no crafted length makes an
  index or a slice leave the data, although lengths and positions wrap around at 64 bits, and
  what it returns without an error is the input itself with one percentage per transaction.
\<close>

theorem decode_txs_total:
  assumes "length txsData < 2 ^ 63"
  shows "(case decode_txs dec newTx txsData forkID of
      Panic \<Rightarrow> False
    | Err e \<Rightarrow> True
    | Ok (txs, data, effs) \<Rightarrow> data = txsData \<and>
        length effs = (if forkID \<ge> FORKID_DRAGONFRUIT then length txs else 0))"
  using decode_txs_loop_not_Panic [OF assms, of dec newTx forkID 0 "[]" "[]"]
    decode_txs_loop_result [of dec newTx txsData forkID 0 "[]" "[]"]
  by (auto simp: decode_txs_def split: outcome.splits)

theorem decode_txs_total_witness:
  "(case decode_txs rlp_dec new_tx_ref [255, 255, 255, 255, 255, 255, 255, 255, 255] 7 of
      Panic \<Rightarrow> False
    | Err e \<Rightarrow> True
    | Ok (txs, data, effs) \<Rightarrow> data = [255, 255, 255, 255, 255, 255, 255, 255, 255] \<and>
        length effs = (if 7 \<ge> FORKID_DRAGONFRUIT then length txs else 0))"
  by (rule decode_txs_total) simp

text \<open>
  When the data ends in the middle of the length bytes of an RLP list header,
  \<open>DecodeTxs\<close> returns no transaction, no percentage and no error: the \<open>err\<close> it returns is
  the one of the earlier successful \<open>ParseUint\<close>, so a caller takes truncated data, whatever
  valid transactions came before, for an empty batch.
\<close>

theorem decode_txs_truncated_header:
  assumes "rlp_codec enc dec"
    and "list_all2 (\<lambda>(tx, eff) bs. tx_canonical tx \<and> prepare_rlp_tx_data enc tx = Ok bs) txs bss"
    and "data = concat (map2 (\<lambda>(tx, eff) bs. bs @ chunk_tail forkID eff) txs bss)"
    and "length data < 2 ^ 62" and "247 < unat b" and "length rest < unat b - 247"
  shows "decode_txs dec newTx (data @ b # rest) forkID = Ok ([], data @ b # rest, [])"
proof -
  obtain xs where "\<forall>(c, tx, eff) \<in> set xs. tx_canonical tx \<and> enc (tx_fields tx) = Some c"
    "txs_data forkID xs = data"
    using prepared_chunks [OF assms(2)] assms(3) by blast
  with assms(4-6) show ?thesis
    using rlp_codec.decode_txs_truncated_length [OF assms(1) _ assms(5,6), of xs forkID newTx] by blast
qed

theorem decode_txs_truncated_header_witness:
  "decode_txs rlp_dec new_tx_ref (sample_bytes @ [9, 248]) 7 = Ok ([], sample_bytes @ [9, 248], [])"
proof -
  have "decode_txs rlp_dec new_tx_ref ((sample_bytes @ [9]) @ 248 # []) 7 = Ok ([], (sample_bytes @ [9]) @ 248 # [], [])"
    by (rule decode_txs_truncated_header [OF rlp_ref.rlp_codec_axioms, of "[(sample_tx, 9)]" "[sample_bytes]"])
       (use sample_prepared sample_canonical in \<open>simp_all add: chunk_tail_def FORKID_DRAGONFRUIT_def\<close>)
  then show ?thesis by simp
qed

end
