(* ===== verification/Storage.thy ===== *)
theory Storage
  imports State_Helper "HOL-Library.AList"
begin

text \<open>
  \<open>state/types.go\<close>, \<open>state/pgstatestorage/\<close> and the schema of \<open>db/migrations/\<close>: the
  records the aggregator keeps and the SQL statements over them, read as functions on the
  tables. A statement that succeeds returns the new tables; one that violates a constraint, or
  whose parameter does not fit the column, is an error and leaves them alone. The list of proofs
  is the order in which the server happens to scan that table, so what holds for every table
  holds for every order.
\<close>

section \<open>\<open>types.go\<close>\<close>

datatype batch_type =
  BATCH_TYPE_UNSPECIFIED | BATCH_TYPE_REGULAR | BATCH_TYPE_FORCED | BATCH_TYPE_INJECTED |
  BATCH_TYPE_INVALID | BATCH_TYPE_OTHER int

record state_batch =
  BatchNumber :: u64
  Coinbase :: address
  BatchL2Data :: "byte list"
  StateRoot :: hash
  LocalExitRoot :: hash
  AccInputHash :: hash
  L1InfoTreeIndex :: u32
  L1InfoRoot :: hash
  Timestamp :: int            \<comment> \<open>seconds since the epoch\<close>
  Transactions :: "transaction list"
  GlobalExitRoot :: hash
  ForcedBatchNum :: "u64 option"
  ChainID :: u64
  ForkID :: u64
  Type :: batch_type

record sequence_range =
  FromBatchNumber :: u64
  ToBatchNumber :: u64

record state_proof =
  ProofBatch :: u64
  ProofBatchFinal :: u64
  ProofText :: string
  InputProver :: string
  ProofID :: "string option"
  Prover :: "string option"
  ProverID :: "string option"
  GeneratingSince :: "int option"
  CreatedAt :: int
  UpdatedAt :: int

record db_batch =
  Batch :: state_batch
  Datastream :: "byte list"
  Witness :: "byte list"

section \<open>The tables\<close>

record batch_row =
  row_batch :: state_batch
  row_datastream :: string
  row_witness :: "string option"   \<comment> \<open>nullable since the third migration\<close>

record tables =
  batch_table :: "u64 \<Rightarrow> batch_row option"
  proof_table :: "state_proof list"
  sequence_table :: "(u64 \<times> u64) list"   \<comment> \<open>first and last batch\<close>

datatype storage_error =
  ErrNotFound | ErrOutOfRange | ErrPrimaryKey | ErrForeignKey | ErrNullColumn |
  ErrUnsupportedDuration | ErrBadInterval | ErrConnection

definition empty_tables :: tables where
  "empty_tables = \<lparr>batch_table = \<lambda>_. None, proof_table = [], sequence_table = []\<rparr>"

text \<open>A \<open>uint64\<close> parameter of a \<open>BIGINT\<close> column has to be below \<open>2^63\<close>.\<close>

definition bigint :: "u64 \<Rightarrow> bool" where
  "bigint n = (unat n < 2 ^ 63)"

definition needs :: "bool \<Rightarrow> 'e \<Rightarrow> ('e, 'a) outcome \<Rightarrow> ('e, 'a) outcome" where
  "needs b e r = (if b then r else Err e)"

section \<open>\<open>batch.go\<close>\<close>

text \<open>
  The column \<open>batch\<close> holds the JSON of a batch, which the driver of the database writes and reads by \<open>encoding/json\<close>: the
  model keeps the batch itself, so that what is read is what was written, and a batch is never refused.
\<close>

definition AddBatch :: "db_batch \<Rightarrow> tables \<Rightarrow> (storage_error, tables) outcome" where
  "AddBatch dbBatch t =
     needs (bigint (BatchNumber (Batch dbBatch))) ErrOutOfRange
       (Ok (t\<lparr>batch_table := (batch_table t)(BatchNumber (Batch dbBatch) \<mapsto>
              \<lparr>row_batch = Batch dbBatch, row_datastream = encode_to_string (Datastream dbBatch),
               row_witness = Some (encode_to_string (Witness dbBatch))\<rparr>)\<rparr>))"

definition GetBatch :: "u64 \<Rightarrow> tables \<Rightarrow> (storage_error, db_batch) outcome" where
  "GetBatch batchNumber t =
     needs (bigint batchNumber) ErrOutOfRange
       (case batch_table t batchNumber of
          None \<Rightarrow> Err ErrNotFound
        | Some r \<Rightarrow>
            (case row_witness r of
               None \<Rightarrow> Err ErrNullColumn
             | Some w \<Rightarrow> Ok \<lparr>Batch = row_batch r, Datastream = hex2bytes (row_datastream r),
                              Witness = hex2bytes w\<rparr>))"

text \<open>Deleting a batch deletes what references it: the proofs and sequences that start there.\<close>

definition delete_batches :: "(u64 \<Rightarrow> bool) \<Rightarrow> tables \<Rightarrow> tables" where
  "delete_batches gone t =
     \<lparr>batch_table = (\<lambda>n. if gone n then None else batch_table t n),
      proof_table = filter (\<lambda>p. \<not> gone (ProofBatch p)) (proof_table t),
      sequence_table = filter (\<lambda>s. \<not> gone (fst s)) (sequence_table t)\<rparr>"

definition DeleteBatchesOlderThanBatchNumber :: "u64 \<Rightarrow> tables \<Rightarrow> (storage_error, tables) outcome" where
  "DeleteBatchesOlderThanBatchNumber batchNumber t =
     needs (bigint batchNumber) ErrOutOfRange (Ok (delete_batches (\<lambda>n. n < batchNumber) t))"

definition DeleteBatchesNewerThanBatchNumber :: "u64 \<Rightarrow> tables \<Rightarrow> (storage_error, tables) outcome" where
  "DeleteBatchesNewerThanBatchNumber batchNumber t =
     needs (bigint batchNumber) ErrOutOfRange (Ok (delete_batches (\<lambda>n. n > batchNumber) t))"

section \<open>\<open>sequence.go\<close>\<close>

definition AddSequence :: "sequence_range \<Rightarrow> tables \<Rightarrow> (storage_error, tables) outcome" where
  "AddSequence s t =
     needs (bigint (FromBatchNumber s) \<and> bigint (ToBatchNumber s)) ErrOutOfRange
       (needs (batch_table t (FromBatchNumber s) \<noteq> None) ErrForeignKey
         (Ok (t\<lparr>sequence_table := AList.update (FromBatchNumber s) (ToBatchNumber s) (sequence_table t)\<rparr>)))"

section \<open>\<open>proof.go\<close>\<close>

definition CheckProofExistsForBatch :: "u64 \<Rightarrow> tables \<Rightarrow> (storage_error, bool) outcome" where
  "CheckProofExistsForBatch batchNumber t =
     needs (bigint batchNumber) ErrOutOfRange
       (Ok (\<exists>p \<in> set (proof_table t). batchNumber \<ge> ProofBatch p \<and> batchNumber \<le> ProofBatchFinal p))"

definition sequence_starts :: "tables \<Rightarrow> u64 \<Rightarrow> bool" where
  "sequence_starts t n = (\<exists>(f, l) \<in> set (sequence_table t). f = n)"

definition sequence_ends :: "tables \<Rightarrow> u64 \<Rightarrow> bool" where
  "sequence_ends t n = (\<exists>(f, l) \<in> set (sequence_table t). l = n)"

definition sequence_holds :: "tables \<Rightarrow> u64 list \<Rightarrow> bool" where
  "sequence_holds t ns = (\<exists>(f, l) \<in> set (sequence_table t). \<forall>n \<in> set ns. f \<le> n \<and> n \<le> l)"

definition CheckProofContainsCompleteSequences :: "state_proof \<Rightarrow> tables \<Rightarrow> (storage_error, bool) outcome" where
  "CheckProofContainsCompleteSequences p t =
     needs (bigint (ProofBatch p) \<and> bigint (ProofBatchFinal p)) ErrOutOfRange
       (Ok (sequence_starts t (ProofBatch p) \<and> sequence_ends t (ProofBatchFinal p)))"

definition unlocked :: "state_proof \<Rightarrow> bool" where
  "unlocked p = (GeneratingSince p = None)"

definition GetProofReadyToVerify :: "u64 \<Rightarrow> tables \<Rightarrow> (storage_error, state_proof) outcome" where
  "GetProofReadyToVerify lastVerfiedBatchNumber t =
     needs (bigint (lastVerfiedBatchNumber + 1)) ErrOutOfRange
       (case filter (\<lambda>p. ProofBatch p = lastVerfiedBatchNumber + 1 \<and> unlocked p \<and>
               sequence_starts t (ProofBatch p) \<and> sequence_ends t (ProofBatchFinal p)) (proof_table t) of
          [] \<Rightarrow> Err ErrNotFound
        | p # _ \<Rightarrow> Ok p)"

text \<open>
  The join of the proofs with themselves, and the row the \<open>ORDER BY\<close> puts first. The column \<open>proof\<close> is never \<open>NULL\<close>, as
  the program writes a string to it.
\<close>

definition aggregable :: "tables \<Rightarrow> state_proof \<Rightarrow> state_proof \<Rightarrow> bool" where
  "aggregable t p1 p2 =
     (int (unat (ProofBatchFinal p1)) = int (unat (ProofBatch p2)) - 1 \<and> unlocked p1 \<and> unlocked p2 \<and>
      (sequence_holds t [ProofBatch p1, ProofBatchFinal p1, ProofBatch p2, ProofBatchFinal p2] \<or>
       sequence_starts t (ProofBatch p1) \<and> sequence_ends t (ProofBatchFinal p1) \<and>
       sequence_starts t (ProofBatch p2) \<and> sequence_ends t (ProofBatchFinal p2)))"

definition aggregable_pairs :: "tables \<Rightarrow> (state_proof \<times> state_proof) list" where
  "aggregable_pairs t =
     filter (\<lambda>(p1, p2). aggregable t p1 p2) (List.product (proof_table t) (proof_table t))"

definition GetProofsToAggregate :: "tables \<Rightarrow> (storage_error, state_proof \<times> state_proof) outcome" where
  "GetProofsToAggregate t =
     (case sort_key (\<lambda>(p1, p2). ProofBatch p1) (aggregable_pairs t) of
        [] \<Rightarrow> Err ErrNotFound
      | pair # _ \<Rightarrow> Ok pair)"

definition same_key :: "state_proof \<Rightarrow> state_proof \<Rightarrow> bool" where
  "same_key p q = (ProofBatch p = ProofBatch q \<and> ProofBatchFinal p = ProofBatchFinal q)"

definition AddGeneratedProof :: "int \<Rightarrow> state_proof \<Rightarrow> tables \<Rightarrow> (storage_error, tables) outcome" where
  "AddGeneratedProof now p t =
     needs (bigint (ProofBatch p) \<and> bigint (ProofBatchFinal p)) ErrOutOfRange
       (needs (\<not> (\<exists>q \<in> set (proof_table t). same_key p q)) ErrPrimaryKey
         (needs (batch_table t (ProofBatch p) \<noteq> None) ErrForeignKey
           (Ok (t\<lparr>proof_table := proof_table t @ [p\<lparr>CreatedAt := now, UpdatedAt := now\<rparr>]\<rparr>))))"

definition row_update :: "int \<Rightarrow> state_proof \<Rightarrow> state_proof \<Rightarrow> state_proof" where
  "row_update now p q = (if same_key p q then p\<lparr>CreatedAt := CreatedAt q, UpdatedAt := now\<rparr> else q)"

definition UpdateGeneratedProof :: "int \<Rightarrow> state_proof \<Rightarrow> tables \<Rightarrow> (storage_error, tables) outcome" where
  "UpdateGeneratedProof now p t =
     needs (bigint (ProofBatch p) \<and> bigint (ProofBatchFinal p)) ErrOutOfRange
       (Ok (t\<lparr>proof_table := map (row_update now p) (proof_table t)\<rparr>))"

definition delete_proofs :: "(state_proof \<Rightarrow> bool) \<Rightarrow> tables \<Rightarrow> tables" where
  "delete_proofs gone t = t\<lparr>proof_table := filter (\<lambda>p. \<not> gone p) (proof_table t)\<rparr>"

definition DeleteGeneratedProofs :: "u64 \<Rightarrow> u64 \<Rightarrow> tables \<Rightarrow> (storage_error, tables) outcome" where
  "DeleteGeneratedProofs batchNumber batchNumberFinal t =
     needs (bigint batchNumber \<and> bigint batchNumberFinal) ErrOutOfRange
       (Ok (delete_proofs (\<lambda>p. ProofBatch p \<ge> batchNumber \<and> ProofBatchFinal p \<le> batchNumberFinal) t))"

definition CleanupGeneratedProofs :: "u64 \<Rightarrow> tables \<Rightarrow> (storage_error, tables) outcome" where
  "CleanupGeneratedProofs batchNumber t =
     needs (bigint batchNumber) ErrOutOfRange (Ok (delete_proofs (\<lambda>p. ProofBatchFinal p \<le> batchNumber) t))"

definition DeleteUngeneratedProofs :: "tables \<Rightarrow> (storage_error, tables) outcome" where
  "DeleteUngeneratedProofs t = Ok (delete_proofs (\<lambda>p. \<not> unlocked p) t)"

definition toPostgresInterval :: "string \<Rightarrow> (storage_error, string) outcome" where
  "toPostgresInterval duration =
     (if duration = [] then Panic
      else
        let unit = last duration in
        if unit \<notin> {CHR ''s'', CHR ''m'', CHR ''h''} then Err ErrUnsupportedDuration
        else
          let pgUnit = (if unit = CHR ''s'' then ''second'' else if unit = CHR ''m'' then ''minute'' else ''hour'');
              isMoreThanOne = (hd duration \<noteq> CHR ''1'' \<or> length duration > 2);
              pgUnit = (if isMoreThanOne then pgUnit @ ''s'' else pgUnit)
          in Ok (butlast duration @ '' '' @ pgUnit))"

text \<open>
  \<open>interval\<close> is the server's reading of an interval literal, in microseconds; a text it cannot
  read is an error of the statement. The result counts the deleted rows.
\<close>

definition CleanupLockedProofs ::
    "(string \<Rightarrow> int option) \<Rightarrow> int \<Rightarrow> string \<Rightarrow> tables \<Rightarrow> (storage_error, nat \<times> tables) outcome" where
  "CleanupLockedProofs interval now duration t =
     obind (toPostgresInterval duration) (\<lambda>text.
     case interval text of
       None \<Rightarrow> Err ErrBadInterval
     | Some d \<Rightarrow>
         let stale = (\<lambda>p. case GeneratingSince p of None \<Rightarrow> False | Some s \<Rightarrow> s < now - d)
         in Ok (length (filter stale (proof_table t)), delete_proofs stale t))"

section \<open>Well-formed tables\<close>

definition proof_key :: "state_proof \<Rightarrow> u64 \<times> u64" where
  "proof_key p = (ProofBatch p, ProofBatchFinal p)"

lemma same_key_iff: "same_key p q \<longleftrightarrow> proof_key p = proof_key q"
  by (simp add: same_key_def proof_key_def)

definition tables_wf :: "tables \<Rightarrow> bool" where
  "tables_wf t =
     ((\<forall>n r. batch_table t n = Some r \<longrightarrow> bigint n \<and> BatchNumber (row_batch r) = n) \<and>
      (\<forall>p \<in> set (proof_table t). batch_table t (ProofBatch p) \<noteq> None \<and> bigint (ProofBatchFinal p)) \<and>
      distinct (map proof_key (proof_table t)) \<and>
      (\<forall>(f, l) \<in> set (sequence_table t). batch_table t f \<noteq> None \<and> bigint l) \<and>
      distinct (map fst (sequence_table t)))"

datatype storage_call =
    CallAddBatch db_batch | CallDeleteOlder u64 | CallDeleteNewer u64 | CallAddSequence sequence_range
  | CallAddProof int state_proof | CallUpdateProof int state_proof | CallDeleteProofs u64 u64
  | CallCleanupProofs u64 | CallCleanupLocked "string \<Rightarrow> int option" int string | CallDeleteUngenerated

fun exec_call :: "storage_call \<Rightarrow> tables \<Rightarrow> (storage_error, tables) outcome" where
  "exec_call (CallAddBatch b) t = AddBatch b t"
| "exec_call (CallDeleteOlder n) t = DeleteBatchesOlderThanBatchNumber n t"
| "exec_call (CallDeleteNewer n) t = DeleteBatchesNewerThanBatchNumber n t"
| "exec_call (CallAddSequence s) t = AddSequence s t"
| "exec_call (CallAddProof now p) t = AddGeneratedProof now p t"
| "exec_call (CallUpdateProof now p) t = UpdateGeneratedProof now p t"
| "exec_call (CallDeleteProofs a b) t = DeleteGeneratedProofs a b t"
| "exec_call (CallCleanupProofs n) t = CleanupGeneratedProofs n t"
| "exec_call (CallCleanupLocked i now d) t = obind (CleanupLockedProofs i now d t) (\<lambda>(n, t). Ok t)"
| "exec_call CallDeleteUngenerated t = DeleteUngeneratedProofs t"

text \<open>A server executes calls one after the other; one that fails changes nothing.\<close>

fun exec_calls :: "storage_call list \<Rightarrow> tables \<Rightarrow> tables" where
  "exec_calls [] t = t"
| "exec_calls (c # cs) t = exec_calls cs (case exec_call c t of Ok t' \<Rightarrow> t' | _ \<Rightarrow> t)"

lemma needs_iff [outcome_simps]:
  "needs b e r = Ok x \<longleftrightarrow> b \<and> r = Ok x"
  "needs b e r = Err f \<longleftrightarrow> (if b then r = Err f else e = f)"
  "needs b e r = Panic \<longleftrightarrow> b \<and> r = Panic"
  by (simp_all add: needs_def)

lemma wf_delete_proofs: "tables_wf t \<Longrightarrow> tables_wf (delete_proofs gone t)"
  by (auto simp: tables_wf_def delete_proofs_def intro: distinct_map_filter)

lemma wf_delete_batches: "tables_wf t \<Longrightarrow> tables_wf (delete_batches gone t)"
  by (auto simp: tables_wf_def delete_batches_def distinct_map_filter split: if_splits)

lemma wf_AddBatch: "tables_wf t \<Longrightarrow> AddBatch b t = Ok t' \<Longrightarrow> tables_wf t'"
  by (auto simp: tables_wf_def AddBatch_def outcome_simps split: if_splits)

lemma update_mem: "(a, b) \<in> set (AList.update k v xs) \<Longrightarrow> (a, b) = (k, v) \<or> (a, b) \<in> set xs"
  by (induction xs) (auto split: if_splits)

lemma wf_AddSequence: "tables_wf t \<Longrightarrow> AddSequence s t = Ok t' \<Longrightarrow> tables_wf t'"
  by (auto simp: tables_wf_def AddSequence_def outcome_simps distinct_update dest!: update_mem)

lemma wf_AddGeneratedProof: "tables_wf t \<Longrightarrow> AddGeneratedProof now p t = Ok t' \<Longrightarrow> tables_wf t'"
  by (auto simp: tables_wf_def AddGeneratedProof_def same_key_def proof_key_def outcome_simps)

lemma row_update_key [simp]:
  "proof_key (row_update now p q) = proof_key q"
  "ProofBatch (row_update now p q) = ProofBatch q"
  "ProofBatchFinal (row_update now p q) = ProofBatchFinal q"
  by (simp_all add: row_update_def same_key_def proof_key_def)

lemma row_update_keys [simp]: "proof_key \<circ> row_update now p = proof_key"
  by (simp add: fun_eq_iff)

lemma wf_UpdateGeneratedProof: "tables_wf t \<Longrightarrow> UpdateGeneratedProof now p t = Ok t' \<Longrightarrow> tables_wf t'"
  by (auto simp: tables_wf_def UpdateGeneratedProof_def outcome_simps)

lemma wf_CleanupLockedProofs: "tables_wf t \<Longrightarrow> CleanupLockedProofs i now d t = Ok (n, t') \<Longrightarrow> tables_wf t'"
  by (auto simp: CleanupLockedProofs_def outcome_simps Let_def wf_delete_proofs split: option.splits)

lemmas deletions = DeleteBatchesOlderThanBatchNumber_def DeleteBatchesNewerThanBatchNumber_def
  DeleteGeneratedProofs_def CleanupGeneratedProofs_def DeleteUngeneratedProofs_def

lemma exec_call_wf: "tables_wf t \<Longrightarrow> exec_call c t = Ok t' \<Longrightarrow> tables_wf t'"
  by (cases c)
     (auto simp: deletions wf_delete_batches wf_delete_proofs needs_iff obind_Ok_iff
       dest: wf_AddBatch wf_AddSequence wf_AddGeneratedProof wf_UpdateGeneratedProof wf_CleanupLockedProofs)

lemma exec_calls_wf: "tables_wf t \<Longrightarrow> tables_wf (exec_calls cs t)"
  by (induction cs arbitrary: t) (auto split: outcome.splits intro: exec_call_wf)

section \<open>The batch table as a map\<close>

text \<open>What the aggregator relies on: a batch stored is the batch read back, and others stay.\<close>

locale batch_store =
  fixes put :: "'v \<Rightarrow> 's \<Rightarrow> ('e, 's) outcome"
    and get :: "'k \<Rightarrow> 's \<Rightarrow> ('e, 'v) outcome"
    and key :: "'v \<Rightarrow> 'k"
    and valid :: "'k \<Rightarrow> bool"
  assumes put_ok: "valid (key v) \<Longrightarrow> \<exists>s'. put v s = Ok s'"
    and get_put_same: "put v s = Ok s' \<Longrightarrow> get (key v) s' = Ok v"
    and get_put_other: "put v s = Ok s' \<Longrightarrow> k \<noteq> key v \<Longrightarrow> get k s' = get k s"
begin

lemma last_put_wins:
  assumes "fold (\<lambda>v s. obind s (put v)) vs (Ok s) = Ok s'"
  shows "get k s' = (case find (\<lambda>v. key v = k) (rev vs) of Some v \<Rightarrow> Ok v | None \<Rightarrow> get k s)"
  using assms
proof (induction vs arbitrary: s' rule: rev_induct)
  case Nil
  then show ?case by simp
next
  case (snoc v vs)
  then obtain s'' where "fold (\<lambda>v s. obind s (put v)) vs (Ok s) = Ok s''" "put v s'' = Ok s'"
    by (auto simp: outcome_simps)
  with snoc.IH [of s''] show ?case
    using get_put_same get_put_other [of v s'' s' k] by auto
qed

lemma puts_ok: "list_all (\<lambda>v. valid (key v)) vs \<Longrightarrow> \<exists>s'. fold (\<lambda>v s. obind s (put v)) vs (Ok s) = Ok s'"
proof (induction vs arbitrary: s)
  case (Cons v vs)
  then have "valid (key v)" by simp
  from put_ok [OF this] obtain s' where "put v s = Ok s'" by blast
  with Cons show ?case by simp
qed simp

end

interpretation batches: batch_store AddBatch GetBatch "\<lambda>b. BatchNumber (Batch b)" bigint
proof unfold_locales
  fix v s s'
  assume "AddBatch v s = Ok s'"
  then show "GetBatch (BatchNumber (Batch v)) s' = Ok v"
    by (auto simp: AddBatch_def GetBatch_def outcome_simps)
next
  fix v s s' k
  assume "AddBatch v s = Ok s'" "k \<noteq> BatchNumber (Batch v)"
  then show "GetBatch k s' = GetBatch k s"
    by (auto simp: AddBatch_def GetBatch_def needs_iff)
qed (simp add: AddBatch_def needs_def)

section \<open>Properties\<close>

text \<open>
  C24. Whatever calls are made, in whatever order and with whatever arguments, starting from the
  empty schema: every proof and every sequence starts at a stored batch, no two proofs have the
  same range, no two sequences the same start, and every stored number fits its column. A call
  that violates a constraint is refused, and deletions cascade.
\<close>

theorem storage_wf:
  "tables_wf (exec_calls calls empty_tables)"
  by (rule exec_calls_wf) (simp add: tables_wf_def empty_tables_def)

definition sample_state_batch :: "u64 \<Rightarrow> state_batch" where
  "sample_state_batch n = \<lparr>BatchNumber = n, Coinbase = 5, BatchL2Data = [11], StateRoot = 7, LocalExitRoot = 8,
     AccInputHash = 9, L1InfoTreeIndex = 0, L1InfoRoot = 10, Timestamp = 1700000000, Transactions = [],
     GlobalExitRoot = 11, ForcedBatchNum = None, ChainID = 1101, ForkID = 9, Type = BATCH_TYPE_REGULAR\<rparr>"

definition sample_db_batch :: "u64 \<Rightarrow> byte list \<Rightarrow> db_batch" where
  "sample_db_batch n w = \<lparr>Batch = sample_state_batch n, Datastream = [1, 2], Witness = w\<rparr>"

lemma sample_db_batch_simps [simp]:
  "BatchNumber (Batch (sample_db_batch n w)) = n" "BatchNumber (sample_state_batch n) = n"
  by (simp_all add: sample_db_batch_def sample_state_batch_def)

text \<open>
  The batch table is a map: after any number of \<open>AddBatch\<close> calls, \<open>GetBatch\<close> returns the
  batch stored last under a number, its data stream and witness included, and what was there
  before under any other number.
\<close>

theorem last_stored_batch:
  assumes "list_all (\<lambda>b. bigint (BatchNumber (Batch b))) bs"
  shows "\<exists>t'. fold (\<lambda>b t. obind t (AddBatch b)) bs (Ok t) = Ok t' \<and>
    (\<forall>n. GetBatch n t' =
      (case find (\<lambda>b. BatchNumber (Batch b) = n) (rev bs) of Some b \<Rightarrow> Ok b | None \<Rightarrow> GetBatch n t))"
proof -
  obtain t' where t': "fold (\<lambda>b t. obind t (AddBatch b)) bs (Ok t) = Ok t'"
    using batches.puts_ok [OF assms] by blast
  show ?thesis
    using batches.last_put_wins [OF t'] t' by blast
qed

theorem last_stored_batch_witness:
  "\<exists>t'. fold (\<lambda>b t. obind t (AddBatch b)) [sample_db_batch 1 [], sample_db_batch 2 [3], sample_db_batch 1 [4]]
      (Ok empty_tables) = Ok t' \<and>
    GetBatch 1 t' = Ok (sample_db_batch 1 [4]) \<and> GetBatch 2 t' = Ok (sample_db_batch 2 [3])"
proof -
  have "list_all (\<lambda>b. bigint (BatchNumber (Batch b))) [sample_db_batch 1 [], sample_db_batch 2 [3], sample_db_batch 1 [4]]"
    by (simp add: bigint_def)
  from last_stored_batch [OF this, of empty_tables] obtain t' where t':
    "fold (\<lambda>b t. obind t (AddBatch b)) [sample_db_batch 1 [], sample_db_batch 2 [3], sample_db_batch 1 [4]]
      (Ok empty_tables) = Ok t'"
    and g: "\<And>n. GetBatch n t' = (case find (\<lambda>b. BatchNumber (Batch b) = n)
      (rev [sample_db_batch 1 [], sample_db_batch 2 [3], sample_db_batch 1 [4]]) of
        Some b \<Rightarrow> Ok b | None \<Rightarrow> GetBatch n empty_tables)" by blast
  from t' g [of 1] g [of 2] show ?thesis by simp
qed

text \<open>
  After a reorganisation nothing of the removed batches is left: no batch, no proof and no
  sequence starts above the given number, and everything at or below it is as it was.
\<close>

theorem delete_newer_cascades:
  assumes "tables_wf t" and "bigint n"
  shows "\<exists>t'. DeleteBatchesNewerThanBatchNumber n t = Ok t' \<and>
    (\<forall>m > n. GetBatch m t' = Err ErrNotFound \<or> \<not> bigint m) \<and>
    (\<forall>m \<le> n. GetBatch m t' = GetBatch m t) \<and>
    (\<forall>p. p \<in> set (proof_table t') \<longleftrightarrow> p \<in> set (proof_table t) \<and> ProofBatch p \<le> n) \<and>
    (\<forall>f. sequence_starts t' f \<longleftrightarrow> sequence_starts t f \<and> f \<le> n)"
  using assms
  by (auto simp: DeleteBatchesNewerThanBatchNumber_def delete_batches_def needs_def GetBatch_def sequence_starts_def)

definition sample_proof :: "u64 \<Rightarrow> u64 \<Rightarrow> int option \<Rightarrow> state_proof" where
  "sample_proof a b g = \<lparr>ProofBatch = a, ProofBatchFinal = b, ProofText = ''p'', InputProver = '''',
     ProofID = Some ''id'', Prover = None, ProverID = None, GeneratingSince = g, CreatedAt = 0, UpdatedAt = 0\<rparr>"

definition sample_tables :: tables where
  "sample_tables = exec_calls
     [CallAddBatch (sample_db_batch 5 []), CallAddBatch (sample_db_batch 6 []), CallAddBatch (sample_db_batch 7 []),
      CallAddSequence \<lparr>FromBatchNumber = 5, ToBatchNumber = 6\<rparr>, CallAddProof 0 (sample_proof 5 6 None),
      CallAddProof 0 (sample_proof 7 7 (Some 1))] empty_tables"

theorem delete_newer_cascades_witness:
  "\<exists>t'. DeleteBatchesNewerThanBatchNumber 6 sample_tables = Ok t' \<and> GetBatch 6 t' = GetBatch 6 sample_tables \<and>
    GetBatch 7 t' = Err ErrNotFound \<and> (\<forall>p. p \<in> set (proof_table t') \<longleftrightarrow> p \<in> set (proof_table sample_tables) \<and> ProofBatch p \<le> 6)"
proof -
  have "tables_wf sample_tables"
    unfolding sample_tables_def by (rule exec_calls_wf) (simp add: tables_wf_def empty_tables_def)
  moreover have "bigint 6" "bigint 7" by (simp_all add: bigint_def)
  ultimately obtain t' where "DeleteBatchesNewerThanBatchNumber 6 sample_tables = Ok t'"
    "\<forall>m > 6. GetBatch m t' = Err ErrNotFound \<or> \<not> bigint m" "\<forall>m \<le> 6. GetBatch m t' = GetBatch m sample_tables"
    "\<forall>p. p \<in> set (proof_table t') \<longleftrightarrow> p \<in> set (proof_table sample_tables) \<and> ProofBatch p \<le> 6"
    using delete_newer_cascades [of sample_tables 6] by blast
  moreover have "(6 :: u64) < 7" by simp
  ultimately show ?thesis using \<open>bigint 7\<close> by (intro exI [of _ t']) (metis order_refl)
qed

definition ready_to_verify :: "u64 \<Rightarrow> tables \<Rightarrow> state_proof \<Rightarrow> bool" where
  "ready_to_verify lastVerified t p =
     (p \<in> set (proof_table t) \<and> ProofBatch p = lastVerified + 1 \<and> unlocked p \<and>
      sequence_starts t (ProofBatch p) \<and> sequence_ends t (ProofBatchFinal p))"

text \<open>
  C25. \<open>GetProofReadyToVerify\<close> returns an unlocked proof that starts right after the last verified
  batch and covers complete sequences, whenever there is one, and \<open>ErrNotFound\<close> only when
  there is none.
\<close>

theorem proof_ready_spec:
  assumes "bigint (lastVerified + 1)"
  shows "(case GetProofReadyToVerify lastVerified t of
      Ok p \<Rightarrow> ready_to_verify lastVerified t p
    | Err e \<Rightarrow> e = ErrNotFound \<and> \<not> (\<exists>p. ready_to_verify lastVerified t p)
    | Panic \<Rightarrow> False)"
proof -
  let ?c = "\<lambda>p. ProofBatch p = lastVerified + 1 \<and> unlocked p \<and> sequence_starts t (ProofBatch p) \<and>
      sequence_ends t (ProofBatchFinal p)"
  show ?thesis
  proof (cases "filter ?c (proof_table t)")
    case Nil
    then have "\<forall>p \<in> set (proof_table t). \<not> ?c p"
      by (simp add: filter_empty_conv)
    with Nil assms show ?thesis
      by (simp add: GetProofReadyToVerify_def needs_def ready_to_verify_def) blast
  next
    case (Cons p ps)
    then have "p \<in> set (filter ?c (proof_table t))" by simp
    then have "ready_to_verify lastVerified t p"
      unfolding ready_to_verify_def set_filter by blast
    moreover have "GetProofReadyToVerify lastVerified t = Ok p"
      using Cons assms by (simp add: GetProofReadyToVerify_def needs_def)
    ultimately show ?thesis by simp
  qed
qed

theorem proof_ready_spec_witness:
  "(case GetProofReadyToVerify 4 sample_tables of
      Ok p \<Rightarrow> ready_to_verify 4 sample_tables p
    | Err e \<Rightarrow> e = ErrNotFound \<and> \<not> (\<exists>p. ready_to_verify 4 sample_tables p)
    | Panic \<Rightarrow> False)"
  by (rule proof_ready_spec) (simp add: bigint_def)

text \<open>
  What a pair to be joined has to satisfy, apart from the query: both proofs are stored and not locked, the second
  starts where the first ends, and their bounds lie in one sequence or are bounds of sequences.
\<close>

definition can_aggregate :: "tables \<Rightarrow> state_proof \<Rightarrow> state_proof \<Rightarrow> bool" where
  "can_aggregate t p1 p2 \<longleftrightarrow>
     {p1, p2} \<subseteq> set (proof_table t) \<and> unat (ProofBatch p2) = Suc (unat (ProofBatchFinal p1)) \<and>
     (\<forall>p \<in> {p1, p2}. GeneratingSince p = None) \<and>
     ((\<exists>(f, l) \<in> set (sequence_table t). \<forall>p \<in> {p1, p2}. {ProofBatch p, ProofBatchFinal p} \<subseteq> {f..l}) \<or>
      (\<forall>p \<in> {p1, p2}. ProofBatch p \<in> fst ` set (sequence_table t) \<and> ProofBatchFinal p \<in> snd ` set (sequence_table t)))"

lemma sequence_bounds_iff:
  "sequence_starts t n \<longleftrightarrow> n \<in> fst ` set (sequence_table t)" "sequence_ends t n \<longleftrightarrow> n \<in> snd ` set (sequence_table t)"
  by (force simp: sequence_starts_def sequence_ends_def)+

lemma next_batch_iff: "int (unat m) = int (unat n) - 1 \<longleftrightarrow> unat n = Suc (unat m)"
  by linarith

lemma can_aggregate_iff:
  "can_aggregate t p1 p2 \<longleftrightarrow> p1 \<in> set (proof_table t) \<and> p2 \<in> set (proof_table t) \<and> aggregable t p1 p2"
  unfolding can_aggregate_def aggregable_def next_batch_iff sequence_bounds_iff sequence_holds_def unlocked_def
  by (simp add: conj_ac case_prod_beta)

lemma aggregable_pairs_iff: "(p1, p2) \<in> set (aggregable_pairs t) \<longleftrightarrow> can_aggregate t p1 p2"
  by (auto simp: aggregable_pairs_def can_aggregate_iff)

lemma hd_sort_key:
  assumes "sort_key f xs = y # ys"
  shows "y \<in> set xs" "\<forall>x \<in> set xs. f y \<le> f x"
proof -
  have "set (y # ys) = set xs" "sorted (map f (y # ys))"
    using assms by (metis set_sort, metis sorted_sort_key)
  then show "y \<in> set xs" "\<forall>x \<in> set xs. f y \<le> f x" by auto
qed

lemma GetProofsToAggregate_can_aggregate:
  "GetProofsToAggregate t = Ok (p1, p2) \<Longrightarrow> can_aggregate t p1 p2"
  by (auto simp: GetProofsToAggregate_def simp flip: aggregable_pairs_iff dest: hd_sort_key(1) split: list.splits)

text \<open>
  C26. \<open>GetProofsToAggregate\<close> returns two unlocked proofs, the second starting right after the
  first, that lie in one sequence or both cover complete sequences, with the least first batch
  among all such pairs, and \<open>ErrNotFound\<close> exactly when there is no such pair.
\<close>

theorem proofs_to_aggregate_spec:
  "(case GetProofsToAggregate t of
      Ok (p1, p2) \<Rightarrow> can_aggregate t p1 p2 \<and> \<not> (\<exists>q1 q2. can_aggregate t q1 q2 \<and> ProofBatch q1 < ProofBatch p1)
    | Err e \<Rightarrow> e = ErrNotFound \<and> \<not> (\<exists>p1 p2. can_aggregate t p1 p2)
    | Panic \<Rightarrow> False)"
proof (cases "sort_key (\<lambda>(p1, p2). ProofBatch p1) (aggregable_pairs t)")
  case Nil
  then have "aggregable_pairs t = []"
    by (metis length_0_conv length_sort)
  then show ?thesis
    using aggregable_pairs_iff [of _ _ t] by (simp add: GetProofsToAggregate_def)
next
  case (Cons y ys)
  obtain p1 p2 where "y = (p1, p2)" by (cases y)
  with Cons hd_sort_key [OF Cons] show ?thesis
    by (fastforce simp: GetProofsToAggregate_def simp flip: aggregable_pairs_iff)
qed

text \<open>
  A threshold of \<open>n\<close> seconds, minutes or hours becomes the interval \<open>n second(s)\<close>,
  \<open>n minute(s)\<close> or \<open>n hour(s)\<close>, in the singular exactly for 1; any other unit is an error, and
  an empty text is out of range.
\<close>

theorem interval_text:
  "toPostgresInterval (dec_text n @ [u]) =
     (if u \<in> {CHR ''s'', CHR ''m'', CHR ''h''}
      then Ok (dec_text n @ '' '' @
        (if u = CHR ''s'' then ''second'' else if u = CHR ''m'' then ''minute'' else ''hour'') @
        (if n = 1 then '''' else ''s''))
      else Err ErrUnsupportedDuration) \<and>
   toPostgresInterval [] = Panic"
proof -
  have d: "dec_text n \<noteq> [] \<and> ((hd (dec_text n) \<noteq> CHR ''1'' \<or> 1 < length (dec_text n)) \<longleftrightarrow> n \<noteq> 1)"
  proof (cases "n < 10")
    case True
    then have "dec_text n = [hex_char n]" by (simp add: dec_text.simps)
    moreover have "hex_char n = CHR ''1'' \<longleftrightarrow> n = 1"
    proof -
      have "n \<in> set [0..<10]" using True by simp
      then show ?thesis by (auto simp: upt_rec hex_char_def)
    qed
    ultimately show ?thesis by simp
  next
    case False
    have "dec_text (n div 10) \<noteq> []" by (subst dec_text.simps) simp
    moreover have "dec_text n = dec_text (n div 10) @ [hex_char (n mod 10)]"
      using False by (simp add: dec_text.simps)
    ultimately show ?thesis using False by (cases "dec_text (n div 10)") auto
  qed
  then have "hd (dec_text n @ [u]) = hd (dec_text n)" "length (dec_text n @ [u]) > 2 \<longleftrightarrow> 1 < length (dec_text n)"
    by auto
  with d show ?thesis
    unfolding toPostgresInterval_def Let_def by simp
qed

end
