(* ===== verification/Acc_Input_Hash.thy ===== *)
theory Acc_Input_Hash
  imports Prelude
begin

text \<open>
  \<open>aggregator/accinputhash/\<close>: the accumulated input hash of a batch, the Keccak hash (a
  parameter) of six values laid out at fixed widths.
\<close>

text \<open>The loops \<open>for len(v) < n \{ v = append([]byte\{0\}, v...) \}\<close>.\<close>

function pad_front :: "nat \<Rightarrow> byte list \<Rightarrow> byte list" where
  "pad_front n v = (if length v < n then pad_front n (0 # v) else v)"
  by pat_completeness auto
termination
  by (relation "measure (\<lambda>(n, v). n - length v)") auto

declare pad_front.simps [simp del]

text \<open>What the outer hash is taken of.\<close>

definition acc_input_preimage ::
    "(byte list \<Rightarrow> byte list) \<Rightarrow> hash \<Rightarrow> byte list \<Rightarrow> hash \<Rightarrow> u64 \<Rightarrow> address \<Rightarrow> hash \<Rightarrow> byte list" where
  "acc_input_preimage keccak oldAccInputHash batchData l1InfoRoot timestampLimit sequencerAddr forcedBlockhashL1 =
     (let v1 = pad_front 32 (hash_bytes oldAccInputHash);
          v3 = pad_front 32 (hash_bytes l1InfoRoot);
          v4 = pad_front 8 (be_min (unat timestampLimit));
          v5 = pad_front 20 (address_bytes sequencerAddr);
          v6 = pad_front 32 (hash_bytes forcedBlockhashL1);
          v2 = keccak batchData
      in v1 @ v2 @ v3 @ v4 @ v5 @ v6)"

definition CalculateAccInputHash ::
    "(byte list \<Rightarrow> byte list) \<Rightarrow> hash \<Rightarrow> byte list \<Rightarrow> hash \<Rightarrow> u64 \<Rightarrow> address \<Rightarrow> hash \<Rightarrow>
     (unit, hash) outcome" where
  "CalculateAccInputHash keccak oldAccInputHash batchData l1InfoRoot timestampLimit sequencerAddr forcedBlockhashL1 =
     Ok (bytes_to_hash (keccak (acc_input_preimage keccak oldAccInputHash batchData l1InfoRoot
       timestampLimit sequencerAddr forcedBlockhashL1)))"

lemma pad_front_replicate: "pad_front n v = replicate (n - length v) 0 @ v"
proof (induction n v rule: pad_front.induct)
  case (1 n v)
  show ?case
  proof (cases "length v < n")
    case True
    then have "n - length v = Suc (n - length (0 # v))" by simp
    with 1 True show ?thesis
      by (subst pad_front.simps) (simp add: replicate_app_Cons_same)
  qed (simp add: pad_front.simps)
qed

lemma pad_front_id [simp]: "length v = n \<Longrightarrow> pad_front n v = v"
  by (simp add: pad_front_replicate)

lemma be_nat_zeros: "be_nat (replicate k 0 @ v) = be_nat v"
  by (induction k) (simp_all add: be_nat_Cons)

lemma pad_front_be_min: "n < 256 ^ k \<Longrightarrow> pad_front k (be_min n) = be_bytes k n"
proof -
  assume n: "n < 256 ^ k"
  let ?v = "replicate (k - length (be_min n)) 0 @ be_min n"
  have "length ?v = k" using length_be_min_le [OF n] by simp
  then have "be_bytes k (be_nat ?v) = ?v" by (rule be_bytes_be_nat)
  then show ?thesis by (simp add: pad_front_replicate be_nat_zeros be_nat_be_min)
qed

lemma be_bytes_inj: "m < 256 ^ k \<Longrightarrow> n < 256 ^ k \<Longrightarrow> be_bytes k m = be_bytes k n \<longleftrightarrow> m = n"
  by (metis be_nat_be_bytes mod_less)

lemma unat_u64_less: "unat (t :: u64) < 256 ^ 8"
  using unsigned_less [of t, where ?'a = nat] by simp

lemma acc_input_preimage_layout:
  "acc_input_preimage keccak old bd root ts sq fb =
   hash_bytes old @ keccak bd @ hash_bytes root @ be_bytes 8 (unat ts) @ address_bytes sq @ hash_bytes fb"
  by (simp add: acc_input_preimage_def pad_front_be_min [OF unat_u64_less] Let_def del: be_bytes.simps)

text \<open>
  The hash is taken of a layout that nothing can shift: with a 32-byte hash inside, it is 156
  bytes long whatever the timestamp (whose minimal bytes are padded to eight), and two batches have
  the same layout only if they agree on every value and on the hash of their data.
\<close>

theorem acc_input_layout:
  assumes "\<And>bs. length (keccak bs) = 32"
  shows "CalculateAccInputHash keccak old bd root ts sq fb =
      Ok (bytes_to_hash (keccak (acc_input_preimage keccak old bd root ts sq fb))) \<and>
    length (acc_input_preimage keccak old bd root ts sq fb) = 156 \<and>
    (acc_input_preimage keccak old bd root ts sq fb = acc_input_preimage keccak old' bd' root' ts' sq' fb' \<longleftrightarrow>
     old = old' \<and> keccak bd = keccak bd' \<and> root = root' \<and> ts = ts' \<and> sq = sq' \<and> fb = fb')"
proof -
  have ts: "be_bytes 8 (unat ts) = be_bytes 8 (unat ts') \<longleftrightarrow> ts = ts'"
    using be_bytes_inj [OF unat_u64_less unat_u64_less, of ts ts'] by (simp add: word_unat_eq_iff del: be_bytes.simps)
  show ?thesis
    using assms ts by (simp add: acc_input_preimage_layout CalculateAccInputHash_def del: be_bytes.simps)
qed

theorem acc_input_layout_witness:
  "length (acc_input_preimage (\<lambda>bs. be_bytes 32 (be_nat bs)) 1 [1, 2] 3 4 5 6) = 156 \<and>
   acc_input_preimage (\<lambda>bs. be_bytes 32 (be_nat bs)) 1 [1, 2] 3 4 5 6 \<noteq>
   acc_input_preimage (\<lambda>bs. be_bytes 32 (be_nat bs)) 1 [1, 2] 3 7 5 6"
  using acc_input_layout [of "\<lambda>bs. be_bytes 32 (be_nat bs)" 1 "[1, 2]" 3 4 5 6 1 "[1, 2]" 3 7 5 6,
      OF length_be_bytes]
  by simp

end
