(* ===== verification/Batch_V2.thy ===== *)
theory Batch_V2
  imports State_Helper
begin

unbundle bit_operations_syntax

text \<open>
  \<open>state/encoding_batch_v2.go\<close>: the byte form of an Etrog batch (block headers, each followed by
  its transactions), its encoder with the builder it uses, and the decoders \<open>DecodeBatchV2\<close> and
  \<open>DecodeForcedBatchV2\<close>. Positions are Go \<open>int\<close>s and stay within the data, so they are \<open>nat\<close>
  here; the lengths and end positions the code computes in \<open>uint64\<close> are 64-bit words and wrap.
\<close>

section \<open>Data\<close>

record change_l2_block_header =
  DeltaTimestamp :: u32
  IndexL1InfoTree :: u32

record l2_tx_raw =
  EfficiencyPercentage :: byte
  TxAlreadyEncoded :: bool
  raw_tx :: "transaction option"
  raw_data :: "byte list"

record l2_block_raw =
  BlockNumber :: u64
  block_header :: change_l2_block_header
  block_txs :: "l2_tx_raw list"

record batch_raw_v2 =
  Blocks :: "l2_block_raw list"

record forced_batch_raw_v2 =
  forced_txs :: "l2_tx_raw list"

definition changeL2Block :: byte where "changeL2Block = 11"
definition sizeUInt32 :: nat where "sizeUInt32 = 4"

text \<open>\<open>BatchRawV2.String\<close>.\<close>

fun block_lines :: "nat \<Rightarrow> nat \<Rightarrow> l2_block_raw list \<Rightarrow> string" where
  "block_lines n i [] = ''''"
| "block_lines n i (b # bs) =
     ''Block['' @ dec_text i @ ''/'' @ dec_text n @ '']: deltaTimestamp: '' @
     dec_text (unat (DeltaTimestamp (block_header b))) @ '', indexL1InfoTree: '' @
     dec_text (unat (IndexL1InfoTree (block_header b))) @ '' nTxs: '' @
     dec_text (length (block_txs b)) @ [CHR 0x0A] @ block_lines n (i + 1) bs"

definition batch_v2_string :: "batch_raw_v2 \<Rightarrow> string" where
  "batch_v2_string b =
     ''BATCHv2, nBlocks: '' @ dec_text (length (Blocks b)) @ '' nTxs:'' @
     dec_text (\<Sum>blk\<leftarrow>Blocks b. length (block_txs blk)) @ '' '' @ [CHR 0x0A] @
     block_lines (length (Blocks b)) 0 (Blocks b)"

section \<open>Encoding\<close>

definition encodeUint32 :: "u32 \<Rightarrow> byte list" where
  "encodeUint32 value = be_bytes sizeUInt32 (unat value)"

text \<open>The builder. Like \<open>append\<close>, each operation returns the grown data.\<close>

record batch_v2_encoder =
  batchData :: "byte list"

definition NewBatchV2Encoder :: batch_v2_encoder where
  "NewBatchV2Encoder = \<lparr>batchData = []\<rparr>"

definition header_Encode :: "change_l2_block_header \<Rightarrow> byte list \<Rightarrow> byte list" where
  "header_Encode c bd =
     (let bd = bd @ [changeL2Block];
          bd = bd @ encodeUint32 (DeltaTimestamp c);
          bd = bd @ encodeUint32 (IndexL1InfoTree c)
      in bd)"

definition tx_Encode ::
    "(rlp_field list \<Rightarrow> byte list option) \<Rightarrow> l2_tx_raw \<Rightarrow> byte list \<Rightarrow> (state_error, byte list) outcome" where
  "tx_Encode enc tx bd =
     obind (if TxAlreadyEncoded tx then Ok (bd @ raw_data tx)
            else obind (of_option (raw_tx tx)) (\<lambda>t.
                 obind (prepare_rlp_tx_data enc t) (\<lambda>rlpTx. Ok (bd @ rlpTx)))) (\<lambda>bd.
     Ok (bd @ [EfficiencyPercentage tx]))"

definition AddBlockHeader :: "batch_v2_encoder \<Rightarrow> change_l2_block_header \<Rightarrow> batch_v2_encoder" where
  "AddBlockHeader b l2BlockHeader = b\<lparr>batchData := header_Encode l2BlockHeader (batchData b)\<rparr>"

text \<open>A failed \<open>AddTransaction\<close> leaves the builder with the \<open>nil\<close> data \<open>Encode\<close> returned.\<close>

definition AddTransaction ::
    "(rlp_field list \<Rightarrow> byte list option) \<Rightarrow> batch_v2_encoder \<Rightarrow> l2_tx_raw \<Rightarrow>
     (state_error, unit) outcome \<times> batch_v2_encoder" where
  "AddTransaction enc b transaction =
     (case tx_Encode enc transaction (batchData b) of
        Ok d \<Rightarrow> (Ok (), b\<lparr>batchData := d\<rparr>)
      | Err e \<Rightarrow> (Err e, b\<lparr>batchData := []\<rparr>)
      | Panic \<Rightarrow> (Panic, b))"

fun AddTransactions ::
    "(rlp_field list \<Rightarrow> byte list option) \<Rightarrow> batch_v2_encoder \<Rightarrow> l2_tx_raw list \<Rightarrow>
     (state_error, unit) outcome \<times> batch_v2_encoder" where
  "AddTransactions enc b [] = (Ok (), b)"
| "AddTransactions enc b (tx # txs) =
     (case AddTransaction enc b tx of
        (Ok _, b') \<Rightarrow> AddTransactions enc b' txs
      | r \<Rightarrow> r)"

definition GetResult :: "batch_v2_encoder \<Rightarrow> byte list" where
  "GetResult b = batchData b"

fun encode_blocks ::
    "(rlp_field list \<Rightarrow> byte list option) \<Rightarrow> batch_v2_encoder \<Rightarrow> l2_block_raw list \<Rightarrow>
     (state_error, byte list) outcome" where
  "encode_blocks enc encoder [] = Ok (GetResult encoder)"
| "encode_blocks enc encoder (block # blocks) =
     (let encoder = AddBlockHeader encoder (block_header block) in
      case AddTransactions enc encoder (block_txs block) of
        (Ok _, encoder) \<Rightarrow> encode_blocks enc encoder blocks
      | (Err e, _) \<Rightarrow> Err e
      | (Panic, _) \<Rightarrow> Panic)"

definition EncodeBatchV2 ::
    "(rlp_field list \<Rightarrow> byte list option) \<Rightarrow> batch_raw_v2 option \<Rightarrow> (state_error, byte list) outcome" where
  "EncodeBatchV2 enc batch =
     (case batch of
        None \<Rightarrow> Err ErrInvalidBatchV2
      | Some b \<Rightarrow>
          if length (Blocks b) = 0 then Err ErrInvalidBatchV2
          else encode_blocks enc NewBatchV2Encoder (Blocks b))"

section \<open>Decoding\<close>

definition decodeUint32 :: "byte list \<Rightarrow> nat \<Rightarrow> (state_error, nat \<times> u32) outcome" where
  "decodeUint32 txsData pos =
     (if int (length txsData) - int pos < int sizeUInt32 then Err ErrInvalidBatchV2
      else obind (of_option (go_slice txsData pos (pos + sizeUInt32))) (\<lambda>bs.
           Ok (pos + sizeUInt32, word_of_nat (be_nat bs))))"

definition decodeBlockHeader :: "byte list \<Rightarrow> nat \<Rightarrow> (state_error, nat \<times> l2_block_raw) outcome" where
  "decodeBlockHeader txsData pos =
     obind (decodeUint32 txsData pos) (\<lambda>(pos, deltaTimestamp).
     obind (decodeUint32 txsData pos) (\<lambda>(pos, indexL1InfoTree).
     Ok (pos, \<lparr>BlockNumber = 0,
               block_header = \<lparr>DeltaTimestamp = deltaTimestamp, IndexL1InfoTree = indexL1InfoTree\<rparr>,
               block_txs = []\<rparr>)))"

definition decodeRLPListLengthFromOffset :: "byte list \<Rightarrow> nat \<Rightarrow> (state_error, u64) outcome" where
  "decodeRLPListLengthFromOffset txsData offset =
     (let txDataLength = word_of_nat (length txsData) :: u64 in
      obind (of_option (go_index txsData offset)) (\<lambda>b.
      let num = word_of_nat (unat b) :: u64 in
      if num < c0 then Err ErrInvalidRLP
      else
        let length' = num - c0 in
        obind
          (if length' > shortRlp then
             (let pos64 = word_of_nat offset;
                  lengthInByteOfSize = num - f7
              in if pos64 + headerByteLength + lengthInByteOfSize > txDataLength
                 then Err ErrInvalidRLP
                 else obind (of_option (go_slice txsData (unat (pos64 + 1))
                               (unat (pos64 + 1 + lengthInByteOfSize)))) (\<lambda>bs.
                      obind (map_err ErrParse (parse_uint64 16 (hex_encode_to_string bs))) (\<lambda>n.
                      Ok (n + num - f7))))
           else Ok length')
          (\<lambda>length'. Ok (length' + headerByteLength))))"

definition DecodeTxRLP ::
    "(byte list \<Rightarrow> byte list list option) \<Rightarrow> (legacy_tx \<Rightarrow> transaction) \<Rightarrow> byte list \<Rightarrow> nat \<Rightarrow>
     (state_error, nat \<times> l2_tx_raw) outcome" where
  "DecodeTxRLP dec newTx txsData offset =
     obind (decodeRLPListLengthFromOffset txsData offset) (\<lambda>length'.
     let endPos = word_of_nat offset + length' + rLength + sLength + vLength +
                  EfficiencyPercentageByteLength
     in if endPos > word_of_nat (length txsData) then Err ErrInvalidBatchV2
        else
          let dataStart = word_of_nat offset + length' :: u64;
              slice = (\<lambda>lo hi. of_option (go_slice txsData lo (unat hi)))
          in obind (slice offset endPos) (\<lambda>fullDataTx.
             obind (slice offset dataStart) (\<lambda>txInfo.
             obind (slice (unat dataStart) (dataStart + rLength)) (\<lambda>rData.
             obind (slice (unat (dataStart + rLength)) (dataStart + rLength + sLength)) (\<lambda>sData.
             obind (slice (unat (dataStart + rLength + sLength))
                          (dataStart + rLength + sLength + vLength)) (\<lambda>vData.
             obind (of_option (go_index txsData (unat (dataStart + rLength + sLength + vLength))))
               (\<lambda>efficiencyPercentage.
             case dec txInfo of
               None \<Rightarrow> Err ErrRlpDecode
             | Some rlpFields \<Rightarrow>
                 obind (rlp_fields_to_legacy_tx rlpFields vData rData sData) (\<lambda>legacyTx.
                 Ok (unat endPos,
                     \<lparr>EfficiencyPercentage = efficiencyPercentage, TxAlreadyEncoded = False,
                      raw_tx = Some (newTx legacyTx), raw_data = []\<rparr>)))))))))"

text \<open>One pass of the loop of \<open>DecodeBatchV2\<close>, on its three variables.\<close>

definition decode_batch_step ::
    "(byte list \<Rightarrow> byte list list option) \<Rightarrow> (legacy_tx \<Rightarrow> transaction) \<Rightarrow> byte list \<Rightarrow>
     nat \<times> l2_block_raw list \<times> l2_block_raw option \<Rightarrow>
     (state_error, nat \<times> l2_block_raw list \<times> l2_block_raw option) outcome" where
  "decode_batch_step dec newTx txsData = (\<lambda>(pos, blocks, currentBlock).
     obind (of_option (go_index txsData pos)) (\<lambda>b.
     if b = changeL2Block then
       (let blocks = (case currentBlock of None \<Rightarrow> blocks | Some c \<Rightarrow> blocks @ [c]) in
        obind (decodeBlockHeader txsData (pos + 1)) (\<lambda>(pos, c). Ok (pos, blocks, Some c)))
     else
       case currentBlock of
         None \<Rightarrow>
           (case DecodeTxRLP dec newTx txsData pos of
              Ok _ \<Rightarrow> Err ErrBatchV2DontStartWithChangeL2Block
            | Err _ \<Rightarrow> Err ErrInvalidBatchV2
            | Panic \<Rightarrow> Panic)
       | Some c \<Rightarrow>
           obind (DecodeTxRLP dec newTx txsData pos) (\<lambda>(pos, tx).
           Ok (pos, blocks, Some (c\<lparr>block_txs := block_txs c @ [tx]\<rparr>)))))"

lemma decodeUint32_progress: "decodeUint32 d pos = Ok (pos', v) \<Longrightarrow> pos' = pos + 4 \<and> pos' \<le> length d"
  by (auto simp: decodeUint32_def sizeUInt32_def outcome_simps split: if_splits)

lemma decodeBlockHeader_progress: "decodeBlockHeader d pos = Ok (pos', c) \<Longrightarrow> pos' = pos + 8 \<and> pos' \<le> length d"
  by (auto simp: decodeBlockHeader_def outcome_simps dest!: decodeUint32_progress)

text \<open>A transaction takes at least its 65 bytes of signature and the percentage.\<close>

lemma DecodeTxRLP_progress:
  assumes "DecodeTxRLP dec newTx d offset = Ok (pos', tx)"
  shows "offset + 66 \<le> pos' \<and> pos' \<le> length d"
proof -
  obtain len r t v where
    le: "offset \<le> unat (word_of_nat offset + len :: u64)"
    and s1: "go_slice d (unat (word_of_nat offset + len)) (unat (word_of_nat offset + len + rLength)) = Some r"
    and s2: "go_slice d (unat (word_of_nat offset + len + rLength))
      (unat (word_of_nat offset + len + rLength + sLength)) = Some t"
    and s3: "go_slice d (unat (word_of_nat offset + len + rLength + sLength))
      (unat (word_of_nat offset + len + rLength + sLength + vLength)) = Some v"
    and ix: "unat (word_of_nat offset + len + rLength + sLength + vLength) < 2 ^ 63"
    and e: "pos' = unat (word_of_nat offset + len + rLength + sLength + vLength + EfficiencyPercentageByteLength)"
      "pos' \<le> length d"
    using assms
    by (auto simp: DecodeTxRLP_def Let_def outcome_simps split: if_splits option.splits)
  have "pos' = unat (word_of_nat offset + len + rLength + sLength + vLength) + 1"
    using unat_plus_cases [of "word_of_nat offset + len + rLength + sLength + vLength" 1] ix
    by (auto simp: e EfficiencyPercentageByteLength_def)
  then show ?thesis
    using slice_unat_add [OF s1] slice_unat_add [OF s2] slice_unat_add [OF s3] le e
    by (simp add: rLength_def sLength_def vLength_def)
qed

lemma decode_batch_step_progress:
  "decode_batch_step dec newTx d (pos, bl, cur) = Ok (pos', bl', cur') \<Longrightarrow> pos < pos' \<and> pos' \<le> length d"
  by (auto simp: decode_batch_step_def Let_def outcome_simps split: if_splits option.splits outcome.splits
      dest!: decodeBlockHeader_progress DecodeTxRLP_progress)

function decode_batch_loop ::
    "(byte list \<Rightarrow> byte list list option) \<Rightarrow> (legacy_tx \<Rightarrow> transaction) \<Rightarrow> byte list \<Rightarrow>
     nat \<times> l2_block_raw list \<times> l2_block_raw option \<Rightarrow>
     (state_error, l2_block_raw list \<times> l2_block_raw option) outcome" where
  "decode_batch_loop dec newTx txsData (pos, blocks, currentBlock) =
     (if pos < length txsData then
        (case decode_batch_step dec newTx txsData (pos, blocks, currentBlock) of
           Ok s \<Rightarrow> decode_batch_loop dec newTx txsData s
         | Err e \<Rightarrow> Err e
         | Panic \<Rightarrow> Panic)
      else Ok (blocks, currentBlock))"
  by pat_completeness auto
termination
  by (relation "measure (\<lambda>(dec, newTx, txsData, pos, blocks, currentBlock). length txsData - pos)")
     (auto dest: decode_batch_step_progress)

declare decode_batch_loop.simps [simp del]

definition DecodeBatchV2 ::
    "(byte list \<Rightarrow> byte list list option) \<Rightarrow> (legacy_tx \<Rightarrow> transaction) \<Rightarrow> byte list \<Rightarrow>
     (state_error, batch_raw_v2) outcome" where
  "DecodeBatchV2 dec newTx txsData =
     obind (decode_batch_loop dec newTx txsData (0, [], None)) (\<lambda>(blocks, currentBlock).
     Ok \<lparr>Blocks = (case currentBlock of None \<Rightarrow> blocks | Some c \<Rightarrow> blocks @ [c])\<rparr>)"

definition DecodeForcedBatchV2 ::
    "(byte list \<Rightarrow> byte list list option) \<Rightarrow> (legacy_tx \<Rightarrow> transaction) \<Rightarrow> byte list \<Rightarrow>
     (state_error, forced_batch_raw_v2) outcome" where
  "DecodeForcedBatchV2 dec newTx txsData =
     obind (decode_txs dec newTx txsData FORKID_ETROG) (\<lambda>(txs, _, efficiencyPercentages).
     if length efficiencyPercentages \<noteq> length txs then Err ErrInvalidRLP
     else Ok \<lparr>forced_txs =
       map2 (\<lambda>tx e. \<lparr>EfficiencyPercentage = e, TxAlreadyEncoded = False, raw_tx = Some tx, raw_data = []\<rparr>)
         txs efficiencyPercentages\<rparr>)"

section \<open>The two transaction decoders agree\<close>

definition raw_of :: "transaction \<Rightarrow> byte \<Rightarrow> l2_tx_raw" where
  "raw_of tx e = \<lparr>EfficiencyPercentage = e, TxAlreadyEncoded = False, raw_tx = Some tx, raw_data = []\<rparr>"

lemma word_of_nat_u64_unat: "(word_of_nat (unat w) :: u64) = w"
  by simp

lemma tx_end_pos:
  "pos + (len + headerByteLength) + rLength + sLength + vLength + EfficiencyPercentageByteLength =
   pos + len + rLength + sLength + vLength + headerByteLength + EfficiencyPercentageByteLength"
  "pos + (len + headerByteLength) = pos + len + headerByteLength"
  by (simp_all add: ac_simps)

lemma efficiency_slice:
  assumes "length d < 2 ^ 63"
  shows "obind (of_option (go_slice d (unat a) (unat (a + EfficiencyPercentageByteLength))))
      (\<lambda>ep. obind (of_option (go_index ep 0)) (\<lambda>e. Ok [e])) =
    obind (of_option (go_index d (unat a))) (\<lambda>e. Ok [e])"
proof (cases "unat a < length d")
  case True
  have u: "unat (a + EfficiencyPercentageByteLength) = unat a + 1"
    using unat_plus_cases [of a 1] True assms by (simp add: EfficiencyPercentageByteLength_def)
  have "go_slice d (unat a) (unat (a + EfficiencyPercentageByteLength)) = Some [d ! unat a]"
    using True assms by (simp add: u go_slice_def take_Suc_conv_app_nth hd_drop_conv_nth take_Suc drop_eq_Nil)
  with True assms show ?thesis
    by (simp add: go_index_def)
next
  case False
  then have "go_slice d (unat a) (unat (a + EfficiencyPercentageByteLength)) = None"
    using slice_unat_add [of d a EfficiencyPercentageByteLength]
    by (cases "go_slice d (unat a) (unat (a + EfficiencyPercentageByteLength))")
       (auto simp: go_slice_Some_iff EfficiencyPercentageByteLength_def)
  with False show ?thesis
    by (simp add: go_index_def)
qed

lemma DecodeTxRLP_body:
  assumes d: "length d < 2 ^ 63" and off: "offset < length d" and fork: "forkID \<ge> FORKID_DRAGONFRUIT"
    and len: "decodeRLPListLengthFromOffset d offset = Ok (len + headerByteLength)"
  shows "DecodeTxRLP dec newTx d offset = Ok (p, t) \<longleftrightarrow>
    (\<exists>p' tx e. decode_txs_body dec newTx d forkID (word_of_nat offset) len = Ok (p', tx, [e]) \<and>
       p = unat p' \<and> t = raw_of tx e)"
proof -
  have o: "unat (word_of_nat offset :: u64) = offset" using d off by (simp add: unat_word_u64)
  let ?D = "word_of_nat offset + len + headerByteLength"
  have e: "word_of_nat offset + len + rLength + sLength + vLength + headerByteLength + EfficiencyPercentageByteLength
    = ?D + rLength + sLength + vLength + EfficiencyPercentageByteLength"
    by (simp add: ac_simps)
  show ?thesis
    unfolding DecodeTxRLP_def len decode_txs_body_def Let_def
    using fork
    by (simp only: if_True obind.simps tx_end_pos e efficiency_slice [OF d] o)
       (auto simp: outcome_simps raw_of_def o word_less_nat_alt split: if_splits option.splits)
qed

lemma list_length_agree:
  assumes d: "length d < 2 ^ 63" and off: "offset < length d"
    and num: "num = word_of_nat (unat (d ! offset))" "\<not> num < c0"
  shows "decode_txs_length d (word_of_nat offset) num = Ok (Some len) \<Longrightarrow>
      decodeRLPListLengthFromOffset d offset = Ok (len + headerByteLength)"
    and "decodeRLPListLengthFromOffset d offset = Ok L \<Longrightarrow>
      decode_txs_length d (word_of_nat offset) num = Ok (Some (L - headerByteLength)) \<or>
      decode_txs_length d (word_of_nat offset) num = Err ErrInvalidData \<and> f7 + (L - headerByteLength) < f7"
proof -
  have i: "go_index d offset = Some (d ! offset)"
    using d off by (simp add: go_index_def)
  have e: "word_of_nat offset + headerByteLength + (num - f7) = word_of_nat offset + 1 + num - f7"
     "word_of_nat offset + 1 + (num - f7) = word_of_nat offset + 1 + num - f7"
    by (simp_all add: headerByteLength_def)
  have n: "f7 + (n + num - f7) = n + num" for n by simp
  show "decode_txs_length d (word_of_nat offset) num = Ok (Some len) \<Longrightarrow>
      decodeRLPListLengthFromOffset d offset = Ok (len + headerByteLength)"
    using num(2) unfolding decodeRLPListLengthFromOffset_def decode_txs_length_def Let_def i num(1) [symmetric]
      of_option.simps obind.simps e
    by (auto simp: outcome_simps split: if_splits)
  show "decodeRLPListLengthFromOffset d offset = Ok L \<Longrightarrow>
      decode_txs_length d (word_of_nat offset) num = Ok (Some (L - headerByteLength)) \<or>
      decode_txs_length d (word_of_nat offset) num = Err ErrInvalidData \<and> f7 + (L - headerByteLength) < f7"
    using num(2) unfolding decodeRLPListLengthFromOffset_def decode_txs_length_def Let_def i num(1) [symmetric]
      of_option.simps obind.simps e
    by (auto simp: outcome_simps n simp del: add_diff_eq split: if_splits)
qed

lemma decode_txs_step_at:
  assumes d: "length d < 2 ^ 63" and off: "offset < length d"
  shows "decode_txs_step dec newTx d forkID (word_of_nat offset) =
    (let num = word_of_nat (unat (d ! offset)) in
     if num < c0 then Err ErrInvalidData
     else obind (decode_txs_length d (word_of_nat offset) num) (\<lambda>len.
          case len of
            None \<Rightarrow> Ok None
          | Some length' \<Rightarrow>
              obind (decode_txs_body dec newTx d forkID (word_of_nat offset) length') (\<lambda>r. Ok (Some r))))"
proof -
  have "go_slice d (unat (word_of_nat offset :: u64)) (unat (word_of_nat offset + 1 :: u64)) = Some [d ! offset]"
    using slice_in [of d "take offset d" "[d ! offset]" "drop (Suc offset) d" offset "offset + 1"] d off
    by (simp add: id_take_nth_drop [symmetric] add.commute)
  then show ?thesis
    unfolding decode_txs_step_def by (simp add: parse_header_byte Let_def)
qed

lemma DecodeTxRLP_of_step:
  assumes d: "length d < 2 ^ 63" and off: "offset < length d" and fork: "forkID \<ge> FORKID_DRAGONFRUIT"
    and st: "decode_txs_step dec newTx d forkID (word_of_nat offset) = Ok (Some (p', tx, [e]))"
  shows "DecodeTxRLP dec newTx d offset = Ok (unat p', raw_of tx e)"
proof -
  define num where "num = (word_of_nat (unat (d ! offset)) :: u64)"
  from st obtain len where num: "\<not> num < c0"
    and len: "decode_txs_length d (word_of_nat offset) num = Ok (Some len)"
    and body: "decode_txs_body dec newTx d forkID (word_of_nat offset) len = Ok (p', tx, [e])"
    unfolding decode_txs_step_at [OF d off] Let_def num_def [symmetric]
    by (auto simp: outcome_simps split: if_splits option.splits)
  show ?thesis
    using DecodeTxRLP_body [OF d off fork list_length_agree(1) [OF d off num_def num len], of dec newTx] body
    by blast
qed

lemma tx_rlp_agree:
  assumes d: "length d < 2 ^ 63" and off: "offset < length d" and fork: "forkID \<ge> FORKID_DRAGONFRUIT"
    and dec: "dec [] = None"
  shows "DecodeTxRLP dec newTx d offset = Ok (p, t) \<longleftrightarrow>
    (\<exists>p' tx e. decode_txs_step dec newTx d forkID (word_of_nat offset) = Ok (Some (p', tx, [e])) \<and>
       p = unat p' \<and> t = raw_of tx e)"
proof -
  define num where "num = (word_of_nat (unat (d ! offset)) :: u64)"
  have i: "go_index d offset = Some (d ! offset)"
    using d off by (simp add: go_index_def)
  show ?thesis
  proof (cases "num < c0")
    case True
    then have "decodeRLPListLengthFromOffset d offset = Err ErrInvalidRLP"
      unfolding decodeRLPListLengthFromOffset_def Let_def i of_option.simps obind.simps num_def [symmetric]
      by simp
    then have "DecodeTxRLP dec newTx d offset = Err ErrInvalidRLP"
      by (simp add: DecodeTxRLP_def)
    moreover have "decode_txs_step dec newTx d forkID (word_of_nat offset) = Err ErrInvalidData"
      unfolding decode_txs_step_at [OF d off] Let_def num_def [symmetric] using True by simp
    ultimately show ?thesis by simp
  next
    case False
    note ag = list_length_agree [OF d off num_def False]
    show ?thesis
    proof (cases "\<exists>len. decode_txs_length d (word_of_nat offset) num = Ok (Some len)")
      case True
      then obtain len where len: "decode_txs_length d (word_of_nat offset) num = Ok (Some len)" by blast
      show ?thesis
        unfolding DecodeTxRLP_body [OF d off fork ag(1) [OF len], of dec newTx p t]
          decode_txs_step_at [OF d off] Let_def num_def [symmetric] len
        using False by (simp add: outcome_simps)
    next
      case no: False
      then have "\<not> (\<exists>p' tx e. decode_txs_step dec newTx d forkID (word_of_nat offset) = Ok (Some (p', tx, [e])))"
        unfolding decode_txs_step_at [OF d off] Let_def num_def [symmetric] using False
        by (auto simp: outcome_simps split: option.splits)
      moreover have "DecodeTxRLP dec newTx d offset \<noteq> Ok (p, t)"
      proof
        assume a: "DecodeTxRLP dec newTx d offset = Ok (p, t)"
        then obtain L where L: "decodeRLPListLengthFromOffset d offset = Ok L"
          by (auto simp: DecodeTxRLP_def outcome_simps)
        have o: "unat (word_of_nat offset :: u64) = offset" using d off by (simp add: unat_word_u64)
        from a L have le: "offset \<le> unat (word_of_nat offset + L)" "unat (word_of_nat offset + L) \<le> length d"
          and dc: "dec (take (unat (word_of_nat offset + L) - offset) (drop offset d)) \<noteq> None"
          by (auto simp: DecodeTxRLP_def outcome_simps Let_def split: if_splits option.splits)
        have "f7 + (L - headerByteLength) < f7"
          using ag(2) [OF L] no by auto
        then have M: "2 ^ 64 - 247 \<le> unat (L - 1)"
          using unat_plus_cases [of f7 "L - 1"] by (auto simp: word_less_nat_alt helper_consts)
        show False
        proof (cases "L = 0")
          case True
          with dc dec o show False by simp
        next
          case False
          then have "1 \<le> L" by (simp add: word_le_nat_alt unat_gt_0 Suc_le_eq)
          from unat_minus_le [OF this] M have "2 ^ 64 - 247 < unat L" by simp
          then show False
            using unat_plus_cases [of "word_of_nat offset" L] le d o unsigned_less [of L, where ?'a = nat] off
            by auto
        qed
      qed
      ultimately show ?thesis by blast
    qed
  qed
qed

section \<open>Decoding an encoded batch\<close>

lemma header_Encode_append: "header_Encode c bd = bd @ header_Encode c []"
  by (simp add: header_Encode_def)

lemma header_Encode_bytes:
  "header_Encode c [] = changeL2Block # be_bytes 4 (unat (DeltaTimestamp c)) @ be_bytes 4 (unat (IndexL1InfoTree c))"
  by (simp add: header_Encode_def encodeUint32_def sizeUInt32_def del: be_bytes.simps)

lemma length_header_Encode [simp]: "length (header_Encode c []) = 9"
  by (simp add: header_Encode_bytes del: be_bytes.simps)

lemma decodeUint32_at:
  assumes "length (pre @ be_bytes 4 (unat v) @ post) < 2 ^ 63"
  shows "decodeUint32 (pre @ be_bytes 4 (unat (v :: u32)) @ post) (length pre) = Ok (length pre + 4, v)"
proof -
  have v: "unat v mod 4294967296 = unat v"
    using unsigned_less [of v, where ?'a = nat] by simp
  have "go_slice (pre @ be_bytes 4 (unat v) @ post) (length pre) (length pre + 4) = Some (be_bytes 4 (unat v))"
    using go_slice_mid [of pre "be_bytes 4 (unat v)" post] assms by (simp del: be_bytes.simps)
  moreover have "(word_of_nat (be_nat (be_bytes 4 (unat v))) :: u32) = v"
    by (simp add: be_nat_be_bytes v del: be_bytes.simps)
  ultimately show ?thesis
    by (simp add: decodeUint32_def sizeUInt32_def del: be_bytes.simps)
qed

definition fresh_block :: "change_l2_block_header \<Rightarrow> l2_tx_raw list \<Rightarrow> l2_block_raw" where
  "fresh_block h txs = \<lparr>BlockNumber = 0, block_header = h, block_txs = txs\<rparr>"

definition flush_block :: "l2_block_raw list \<Rightarrow> l2_block_raw option \<Rightarrow> l2_block_raw list" where
  "flush_block bl cur = (case cur of None \<Rightarrow> bl | Some c \<Rightarrow> bl @ [c])"

lemma decodeBlockHeader_at:
  assumes "length (pre @ header_Encode h [] @ post) < 2 ^ 63"
  shows "decodeBlockHeader (pre @ header_Encode h [] @ post) (length pre + 1) = Ok (length pre + 9, fresh_block h [])"
proof -
  let ?t = "be_bytes 4 (unat (DeltaTimestamp h))" and ?i = "be_bytes 4 (unat (IndexL1InfoTree h))"
  have 1: "decodeUint32 (pre @ header_Encode h [] @ post) (length pre + 1) = Ok (length pre + 5, DeltaTimestamp h)"
    using decodeUint32_at [of "pre @ [changeL2Block]" "DeltaTimestamp h" "?i @ post"] assms
    by (simp add: header_Encode_bytes add.commute del: be_bytes.simps)
  have 2: "decodeUint32 (pre @ header_Encode h [] @ post) (length pre + 5) = Ok (length pre + 9, IndexL1InfoTree h)"
    using decodeUint32_at [of "pre @ [changeL2Block] @ ?t" "IndexL1InfoTree h" post] assms
    by (simp add: header_Encode_bytes add.commute del: be_bytes.simps)
  show ?thesis
    using 1 2 by (simp add: decodeBlockHeader_def fresh_block_def)
qed

lemma decode_batch_step_header:
  assumes "length (pre @ header_Encode h [] @ post) < 2 ^ 63"
  shows "decode_batch_step dec newTx (pre @ header_Encode h [] @ post) (length pre, bl, cur) =
    Ok (length pre + 9, flush_block bl cur, Some (fresh_block h []))"
proof -
  have "go_index (pre @ header_Encode h [] @ post) (length pre) = Some changeL2Block"
    using go_index_mid [of pre changeL2Block] assms by (simp add: header_Encode_bytes del: be_bytes.simps)
  then show ?thesis
    using decodeBlockHeader_at [OF assms] by (simp add: decode_batch_step_def flush_block_def Let_def)
qed

lemma framed_hd: "rlp_framed c \<Longrightarrow> length c < 2 ^ 63 \<Longrightarrow> 192 \<le> unat (hd c)"
  by (erule framed_cases) (auto simp: unat_byte_of_nat simp del: of_nat_add)

fun blocks_data :: "(change_l2_block_header \<times> (byte list \<times> transaction \<times> byte) list) list \<Rightarrow> byte list" where
  "blocks_data [] = []"
| "blocks_data ((h, xs) # bs) = header_Encode h [] @ txs_data FORKID_ETROG xs @ blocks_data bs"

context rlp_codec
begin

lemma DecodeTxRLP_chunk:
  assumes can: "tx_canonical tx" and enc: "enc (tx_fields tx) = Some c"
    and len: "length (pre @ tx_chunk FORKID_ETROG c tx eff @ post) < 2 ^ 63"
  shows "DecodeTxRLP dec newTx (pre @ tx_chunk FORKID_ETROG c tx eff @ post) (length pre) =
    Ok (length pre + length (tx_chunk FORKID_ETROG c tx eff), raw_of (newTx (legacy_of tx)) eff)"
proof -
  let ?d = "pre @ tx_chunk FORKID_ETROG c tx eff @ post"
  have fork: "FORKID_ETROG \<ge> FORKID_DRAGONFRUIT"
    by (simp add: helper_consts)
  have ct: "chunk_tail FORKID_ETROG eff = [eff]"
    using fork by (simp add: chunk_tail_def)
  have "0 < length (tx_chunk FORKID_ETROG c tx eff)"
    by (simp add: tx_chunk_def ct)
  then have lt: "length pre < length ?d" by simp
  have u: "unat (word_of_nat (length pre + length (tx_chunk FORKID_ETROG c tx eff)) :: u64) =
      length pre + length (tx_chunk FORKID_ETROG c tx eff)"
    using len by (intro unat_word_u64) simp
  show ?thesis
    using DecodeTxRLP_of_step [OF len lt fork decode_txs_step_chunk [OF can enc len, unfolded ct]]
    unfolding u .
qed

lemma decode_batch_step_chunk:
  assumes can: "tx_canonical tx" and enc: "enc (tx_fields tx) = Some c"
    and len: "length (pre @ tx_chunk FORKID_ETROG c tx eff @ post) < 2 ^ 63"
  shows "decode_batch_step dec newTx (pre @ tx_chunk FORKID_ETROG c tx eff @ post) (length pre, bl, cur) =
    (case cur of
       None \<Rightarrow> Err ErrBatchV2DontStartWithChangeL2Block
     | Some b \<Rightarrow> Ok (length pre + length (tx_chunk FORKID_ETROG c tx eff), bl,
         Some (b\<lparr>block_txs := block_txs b @ [raw_of (newTx (legacy_of tx)) eff]\<rparr>)))"
proof -
  have fr: "rlp_framed c" using enc by (rule enc_framed)
  then obtain x c' where c: "c = x # c'"
    using framed_not_Nil by (cases c) auto
  have "length c < 2 ^ 63" using len by (simp add: tx_chunk_def)
  from framed_hd [OF fr this] have "x \<noteq> changeL2Block"
    by (auto simp: c changeL2Block_def)
  moreover have "go_index (pre @ tx_chunk FORKID_ETROG c tx eff @ post) (length pre) = Some x"
    using len go_index_mid [of pre x] by (simp add: tx_chunk_def c)
  ultimately show ?thesis
    using DecodeTxRLP_chunk [OF can enc len] by (simp add: decode_batch_step_def split: option.splits)
qed

lemma decode_batch_loop_chunks:
  assumes xs: "\<And>c tx eff. (c, tx, eff) \<in> set xs \<Longrightarrow> tx_canonical tx \<and> enc (tx_fields tx) = Some c"
    and len: "length (pre @ txs_data FORKID_ETROG xs @ post) < 2 ^ 63"
  shows "decode_batch_loop dec newTx (pre @ txs_data FORKID_ETROG xs @ post) (length pre, bl, Some b) =
    decode_batch_loop dec newTx (pre @ txs_data FORKID_ETROG xs @ post)
      (length pre + length (txs_data FORKID_ETROG xs), bl,
       Some (b\<lparr>block_txs := block_txs b @ map (\<lambda>(c, tx, eff). raw_of (newTx (legacy_of tx)) eff) xs\<rparr>))"
  using xs len
proof (induction xs arbitrary: pre b)
  case Nil
  then show ?case by simp
next
  case (Cons x xs)
  obtain c tx eff where x: "x = (c, tx, eff)" by (cases x)
  let ?k = "tx_chunk FORKID_ETROG c tx eff" and ?r = "txs_data FORKID_ETROG xs @ post"
  let ?b = "b\<lparr>block_txs := block_txs b @ [raw_of (newTx (legacy_of tx)) eff]\<rparr>"
  have "tx_canonical tx" "enc (tx_fields tx) = Some c"
    using Cons.prems(1) [of c tx eff] x by auto
  with Cons.prems(2) x
  have st: "decode_batch_step dec newTx (pre @ ?k @ ?r) (length pre, bl, Some b) =
      Ok (length pre + length ?k, bl, Some ?b)"
    by (subst decode_batch_step_chunk) auto
  have k: "0 < length ?k"
    by (simp add: tx_chunk_def tx_tail_def)
  have IH: "decode_batch_loop dec newTx ((pre @ ?k) @ ?r) (length (pre @ ?k), bl, Some ?b) =
      decode_batch_loop dec newTx ((pre @ ?k) @ ?r)
        (length (pre @ ?k) + length (txs_data FORKID_ETROG xs), bl,
         Some (?b\<lparr>block_txs := block_txs ?b @ map (\<lambda>(c, tx, eff). raw_of (newTx (legacy_of tx)) eff) xs\<rparr>))"
    by (rule Cons.IH) (use Cons.prems x in auto)
  show ?case
    using k st IH by (simp add: x decode_batch_loop.simps [of dec newTx _ "length pre"] add.assoc)
qed

lemma decode_batch_loop_blocks:
  assumes "\<And>h xs c tx eff. (h, xs) \<in> set bs \<Longrightarrow> (c, tx, eff) \<in> set xs \<Longrightarrow>
      tx_canonical tx \<and> enc (tx_fields tx) = Some c"
    and "length (pre @ blocks_data bs) < 2 ^ 63"
  shows "obind (decode_batch_loop dec newTx (pre @ blocks_data bs) (length pre, bl, cur))
      (\<lambda>(bl, cur). Ok (flush_block bl cur)) =
    Ok (flush_block bl cur @
        map (\<lambda>(h, xs). fresh_block h (map (\<lambda>(c, tx, eff). raw_of (newTx (legacy_of tx)) eff) xs)) bs)"
  using assms
proof (induction bs arbitrary: pre bl cur)
  case Nil
  then show ?case by (simp add: decode_batch_loop.simps)
next
  case (Cons x bs)
  obtain h xs where x: "x = (h, xs)" by (cases x)
  let ?T = "txs_data FORKID_ETROG xs" and ?R = "blocks_data bs"
  let ?d = "pre @ header_Encode h [] @ ?T @ ?R"
  have len: "length ?d < 2 ^ 63" using Cons.prems(2) x by simp
  have "decode_batch_step dec newTx ?d (length pre, bl, cur) =
      Ok (length pre + 9, flush_block bl cur, Some (fresh_block h []))"
    using len by (intro decode_batch_step_header) simp
  then have 1: "decode_batch_loop dec newTx ?d (length pre, bl, cur) =
      decode_batch_loop dec newTx ?d (length pre + 9, flush_block bl cur, Some (fresh_block h []))"
    by (simp add: decode_batch_loop.simps [of dec newTx _ "length pre"])
  let ?c = "fresh_block h (map (\<lambda>(c, tx, eff). raw_of (newTx (legacy_of tx)) eff) xs)"
  have 2: "decode_batch_loop dec newTx ((pre @ header_Encode h []) @ ?T @ ?R)
      (length (pre @ header_Encode h []), flush_block bl cur, Some (fresh_block h [])) =
    decode_batch_loop dec newTx ((pre @ header_Encode h []) @ ?T @ ?R)
      (length (pre @ header_Encode h []) + length ?T, flush_block bl cur, Some ?c)"
    using decode_batch_loop_chunks [of xs "pre @ header_Encode h []" ?R newTx "flush_block bl cur" "fresh_block h []"]
      Cons.prems(1) [of h xs] len by (simp add: x fresh_block_def)
  have 3: "obind (decode_batch_loop dec newTx ((pre @ header_Encode h [] @ ?T) @ ?R)
      (length (pre @ header_Encode h [] @ ?T), flush_block bl cur, Some ?c))
      (\<lambda>(bl, cur). Ok (flush_block bl cur)) =
    Ok (flush_block (flush_block bl cur) (Some ?c) @
        map (\<lambda>(h, xs). fresh_block h (map (\<lambda>(c, tx, eff). raw_of (newTx (legacy_of tx)) eff) xs)) bs)"
    by (rule Cons.IH [OF Cons.prems(1) [OF list.set_intros(2)]]) (use len in auto)
  show ?case
    using 1 2 3 by (simp add: x add.assoc flush_block_def)
qed

end

section \<open>Properties\<close>

definition raw_ok :: "(rlp_field list \<Rightarrow> byte list option) \<Rightarrow> (l2_tx_raw \<Rightarrow> transaction) \<Rightarrow> l2_tx_raw \<Rightarrow> bool" where
  "raw_ok enc tx_of r =
     (tx_canonical (tx_of r) \<and>
      (if TxAlreadyEncoded r then prepare_rlp_tx_data enc (tx_of r) = Ok (raw_data r)
       else raw_tx r = Some (tx_of r)))"

definition chunk_of :: "(rlp_field list \<Rightarrow> byte list option) \<Rightarrow> (l2_tx_raw \<Rightarrow> transaction) \<Rightarrow> l2_tx_raw \<Rightarrow>
    byte list \<times> transaction \<times> byte" where
  "chunk_of enc tx_of r = (the (enc (tx_fields (tx_of r))), tx_of r, EfficiencyPercentage r)"

lemma etrog_tail [simp]: "chunk_tail FORKID_ETROG eff = [eff]"
  by (simp add: chunk_tail_def helper_consts)

lemma tx_Encode_chunk:
  assumes "raw_ok enc tx_of r" and "tx_Encode enc r bd = Ok bd'"
  shows "bd' = bd @ txs_data FORKID_ETROG [chunk_of enc tx_of r] \<and> enc (tx_fields (tx_of r)) \<noteq> None"
  using assms prepare_rlp_tx_data_Ok [of "tx_of r" enc]
  by (fastforce simp: raw_ok_def tx_Encode_def chunk_of_def tx_chunk_def outcome_simps split: if_splits)

lemma AddTransactions_chunks:
  "\<lbrakk>list_all (raw_ok enc tx_of) txs; AddTransactions enc b txs = (Ok u, b')\<rbrakk> \<Longrightarrow>
   batchData b' = batchData b @ txs_data FORKID_ETROG (map (chunk_of enc tx_of) txs) \<and>
   (\<forall>r \<in> set txs. enc (tx_fields (tx_of r)) \<noteq> None)"
proof (induction txs arbitrary: b)
  case (Cons r txs)
  then obtain bd where r: "tx_Encode enc r (batchData b) = Ok bd"
    and rest: "AddTransactions enc (b\<lparr>batchData := bd\<rparr>) txs = (Ok u, b')"
    by (auto simp: AddTransaction_def split: outcome.splits)
  show ?case
    using tx_Encode_chunk [OF _ r, of tx_of] Cons.IH [OF _ rest] Cons.prems(1)
    by (cases "chunk_of enc tx_of r") auto
qed simp

definition block_chunks ::
  "(rlp_field list \<Rightarrow> byte list option) \<Rightarrow> (l2_tx_raw \<Rightarrow> transaction) \<Rightarrow> l2_block_raw \<Rightarrow>
   change_l2_block_header \<times> (byte list \<times> transaction \<times> byte) list" where
  "block_chunks enc tx_of b = (block_header b, map (chunk_of enc tx_of) (block_txs b))"

lemma encode_blocks_chunks:
  "\<lbrakk>list_all (\<lambda>b. list_all (raw_ok enc tx_of) (block_txs b)) bs; encode_blocks enc e bs = Ok data\<rbrakk> \<Longrightarrow>
   data = batchData e @ blocks_data (map (block_chunks enc tx_of) bs) \<and>
   (\<forall>b \<in> set bs. \<forall>r \<in> set (block_txs b). enc (tx_fields (tx_of r)) \<noteq> None)"
proof (induction bs arbitrary: e)
  case Nil
  then show ?case by (simp add: GetResult_def)
next
  case (Cons b bs)
  then obtain u e' where b: "AddTransactions enc (AddBlockHeader e (block_header b)) (block_txs b) = (Ok u, e')"
    and rest: "encode_blocks enc e' bs = Ok data"
    by (auto simp: Let_def split: prod.splits outcome.splits)
  show ?case
    using AddTransactions_chunks [OF _ b, of tx_of] Cons.IH [OF _ rest] Cons.prems(1)
      header_Encode_append [of "block_header b" "batchData e"]
    by (auto simp: block_chunks_def AddBlockHeader_def)
qed

lemma chunk_raw:
  "(\<lambda>(c, tx, eff). raw_of (newTx (legacy_of tx)) eff) (chunk_of enc tx_of r) =
   raw_of (newTx (legacy_of (tx_of r))) (EfficiencyPercentage r)"
  by (simp add: chunk_of_def)

text \<open>
  C16. Decoding the bytes \<open>EncodeBatchV2\<close> makes of a batch returns the batch: the same blocks in
  the same order, with the same timestamps and L1 info tree indexes and the same transactions
  and percentages. Only what the bytes do not carry is lost: the block numbers (all 0 afterwards)
  and whether a transaction was given as bytes or as a value.
\<close>

theorem batch_v2_round_trip:
  assumes "rlp_codec enc dec"
    and "list_all (\<lambda>b. list_all (raw_ok enc tx_of) (block_txs b)) (Blocks batch)"
    and "EncodeBatchV2 enc (Some batch) = Ok data" and "length data < 2 ^ 63"
  shows "DecodeBatchV2 dec newTx data = Ok \<lparr>Blocks =
    map (\<lambda>b. \<lparr>BlockNumber = 0, block_header = block_header b,
      block_txs = map (\<lambda>r. raw_of (newTx (legacy_of (tx_of r))) (EfficiencyPercentage r)) (block_txs b)\<rparr>)
    (Blocks batch)\<rparr>"
proof -
  let ?cs = "map (block_chunks enc tx_of) (Blocks batch)"
  have "encode_blocks enc NewBatchV2Encoder (Blocks batch) = Ok data"
    using assms(3) by (auto simp: EncodeBatchV2_def split: if_splits)
  from encode_blocks_chunks [OF assms(2) this]
  have data: "data = blocks_data ?cs"
    and enc: "\<forall>b \<in> set (Blocks batch). \<forall>r \<in> set (block_txs b). enc (tx_fields (tx_of r)) \<noteq> None"
    by (auto simp: NewBatchV2Encoder_def)
  have ok: "tx_canonical tx \<and> enc (tx_fields tx) = Some c"
    if "(h, xs) \<in> set ?cs" "(c, tx, eff) \<in> set xs" for h xs c tx eff
    using that enc assms(2) by (fastforce simp: block_chunks_def chunk_of_def list_all_iff raw_ok_def)
  have "obind (decode_batch_loop dec newTx data (0, [], None)) (\<lambda>(bl, cur). Ok (flush_block bl cur)) =
    Ok (map (\<lambda>(h, xs). fresh_block h (map (\<lambda>(c, tx, eff). raw_of (newTx (legacy_of tx)) eff) xs)) ?cs)"
    using rlp_codec.decode_batch_loop_blocks [OF assms(1), of ?cs "[]" newTx "[]" None, OF ok] assms(4)
    by (simp add: data flush_block_def)
  then obtain bl cur where "decode_batch_loop dec newTx data (0, [], None) = Ok (bl, cur)"
    "flush_block bl cur =
      map (\<lambda>(h, xs). fresh_block h (map (\<lambda>(c, tx, eff). raw_of (newTx (legacy_of tx)) eff) xs)) ?cs"
    by (auto simp: outcome_simps)
  then show ?thesis
    by (simp add: DecodeBatchV2_def flush_block_def block_chunks_def fresh_block_def comp_def chunk_raw
        del: map_map) (simp add: block_chunks_def fresh_block_def comp_def chunk_raw)
qed

definition sample_header :: change_l2_block_header where
  "sample_header = \<lparr>DeltaTimestamp = 3, IndexL1InfoTree = 1\<rparr>"

definition sample_batch :: batch_raw_v2 where
  "sample_batch = \<lparr>Blocks =
     [\<lparr>BlockNumber = 1, block_header = sample_header,
       block_txs =
        [\<lparr>EfficiencyPercentage = 9, TxAlreadyEncoded = False, raw_tx = Some sample_tx, raw_data = []\<rparr>,
         \<lparr>EfficiencyPercentage = 255, TxAlreadyEncoded = True, raw_tx = None, raw_data = sample_bytes\<rparr>]\<rparr>,
      \<lparr>BlockNumber = 2, block_header = sample_header, block_txs = []\<rparr>]\<rparr>"

definition sample_batch_data :: "byte list" where
  "sample_batch_data = header_Encode sample_header [] @ sample_bytes @ [9] @ sample_bytes @ [255] @
     header_Encode sample_header []"

lemma sample_batch_encoded:
  "EncodeBatchV2 rlp_enc (Some sample_batch) = Ok sample_batch_data" "length sample_batch_data < 1000"
  using sample_prepared header_Encode_append [of sample_header "_ @ _"]
  by (simp_all add: EncodeBatchV2_def sample_batch_def NewBatchV2Encoder_def AddBlockHeader_def
      AddTransaction_def tx_Encode_def GetResult_def sample_batch_data_def)

theorem batch_v2_round_trip_witness:
  "DecodeBatchV2 rlp_dec new_tx_ref sample_batch_data = Ok \<lparr>Blocks =
     [\<lparr>BlockNumber = 0, block_header = sample_header,
       block_txs = [raw_of (sample_tx) 9, raw_of (sample_tx) 255]\<rparr>,
      \<lparr>BlockNumber = 0, block_header = sample_header, block_txs = []\<rparr>]\<rparr>"
  by (subst batch_v2_round_trip [OF rlp_ref.rlp_codec_axioms, of "\<lambda>r. sample_tx" sample_batch])
     (use sample_batch_encoded sample_prepared sample_canonical in
       \<open>simp_all add: sample_batch_def raw_ok_def\<close>)

text \<open>
  A batch that starts with a transaction is refused with the error meant for it, whatever
  follows: an old-format or forced batch is never taken for an Etrog batch.
\<close>

theorem batch_v2_without_block:
  assumes "rlp_codec enc dec" and "tx_canonical tx" and "prepare_rlp_tx_data enc tx = Ok bs"
    and "length (bs @ eff # rest) < 2 ^ 63"
  shows "DecodeBatchV2 dec newTx (bs @ eff # rest) = Err ErrBatchV2DontStartWithChangeL2Block"
proof -
  obtain c where c: "enc (tx_fields tx) = Some c" "bs = c @ tx_tail tx"
    using prepare_rlp_tx_data_Ok [OF assms(2,3)] by blast
  have "decode_batch_step dec newTx (bs @ eff # rest) (0, [], None) = Err ErrBatchV2DontStartWithChangeL2Block"
    using rlp_codec.decode_batch_step_chunk [OF assms(1,2) c(1), of "[]" eff rest newTx "[]" None] assms(4)
    by (simp add: tx_chunk_def c(2))
  then show ?thesis
    by (simp add: DecodeBatchV2_def decode_batch_loop.simps)
qed

theorem batch_v2_without_block_witness:
  "DecodeBatchV2 rlp_dec new_tx_ref (sample_bytes @ 9 # [1, 2, 3]) = Err ErrBatchV2DontStartWithChangeL2Block"
  by (rule batch_v2_without_block [OF rlp_ref.rlp_codec_axioms sample_canonical])
     (use sample_prepared in simp_all)

text \<open>
  C18. \<open>DecodeTxRLP\<close> and one pass of the loop of \<open>DecodeTxs\<close>, two implementations of the same
  format, accept the same transactions and advance by the same number of bytes, although only
  the second guards its 64-bit arithmetic against wrap-around (an empty slice must not be a
  valid RLP list, which it is not).
\<close>

theorem tx_decoders_agree:
  assumes "length d < 2 ^ 63" and "offset < length d" and "dec [] = None"
  shows "DecodeTxRLP dec newTx d offset = Ok (p, t) \<longleftrightarrow>
    (\<exists>p' tx e. decode_txs_step dec newTx d FORKID_ETROG (word_of_nat offset) = Ok (Some (p', tx, [e])) \<and>
       p = unat p' \<and> t = raw_of tx e)"
  using assms by (intro tx_rlp_agree) (simp_all add: helper_consts)

theorem tx_decoders_agree_witness:
  "DecodeTxRLP rlp_dec new_tx_ref (1 # sample_bytes @ [9]) 1 = Ok (length sample_bytes + 2, raw_of sample_tx 9) \<and>
   (\<exists>p' tx e. decode_txs_step rlp_dec new_tx_ref (1 # sample_bytes @ [9]) FORKID_ETROG (word_of_nat 1) =
        Ok (Some (p', tx, [e])) \<and>
      length sample_bytes + 2 = unat p' \<and> raw_of sample_tx 9 = raw_of tx e)"
proof -
  have c: "tx_chunk FORKID_ETROG sample_rlp sample_tx 9 = sample_bytes @ [9]"
    by (simp add: tx_chunk_def sample_bytes_def)
  have "DecodeTxRLP rlp_dec new_tx_ref (1 # sample_bytes @ [9]) 1 = Ok (length sample_bytes + 2, raw_of sample_tx 9)"
    using rlp_ref.DecodeTxRLP_chunk [OF sample_canonical sample_rlp(1), of "[1]" 9 "[]" new_tx_ref] sample_prepared(2)
    by (simp add: c)
  moreover have "DecodeTxRLP rlp_dec new_tx_ref (1 # sample_bytes @ [9]) 1 = Ok (length sample_bytes + 2, raw_of sample_tx 9) \<longleftrightarrow>
      (\<exists>p' tx e. decode_txs_step rlp_dec new_tx_ref (1 # sample_bytes @ [9]) FORKID_ETROG (word_of_nat 1) =
        Ok (Some (p', tx, [e])) \<and>
      length sample_bytes + 2 = unat p' \<and> raw_of sample_tx 9 = raw_of tx e)"
    by (rule tx_decoders_agree) (use sample_prepared in \<open>simp_all add: rlp_dec_def\<close>)
  ultimately show ?thesis by blast
qed

text \<open>
  \<open>DecodeForcedBatchV2\<close> never reports the mismatch its comment calls impossible, never
  panics, and returns one entry per transaction of \<open>DecodeTxs\<close>.
\<close>

theorem forced_batch_total:
  assumes "length txsData < 2 ^ 63"
  shows "(case decode_txs dec newTx txsData FORKID_ETROG of
      Panic \<Rightarrow> False
    | Err e \<Rightarrow> DecodeForcedBatchV2 dec newTx txsData = Err e
    | Ok (txs, _, effs) \<Rightarrow> DecodeForcedBatchV2 dec newTx txsData = Ok \<lparr>forced_txs = map2 raw_of txs effs\<rparr> \<and>
        map raw_tx (map2 raw_of txs effs) = map Some txs)"
proof -
  have f: "FORKID_ETROG \<ge> FORKID_DRAGONFRUIT" by (simp add: helper_consts)
  have len: "length effs = length txs" if "decode_txs dec newTx txsData FORKID_ETROG = Ok (txs, d, effs)" for txs d effs
    using decode_txs_loop_result [of dec newTx txsData FORKID_ETROG 0 "[]" "[]"] that f
    by (auto simp: decode_txs_def split: if_splits)
  have "map raw_tx (map2 raw_of txs effs) = map Some txs" if "length effs = length txs" for txs effs
    using that by (induction txs effs rule: list_induct2') (auto simp: raw_of_def)
  moreover have "decode_txs dec newTx txsData FORKID_ETROG \<noteq> Panic"
    using decode_txs_loop_not_Panic [OF assms, of dec newTx FORKID_ETROG 0 "[]" "[]"]
    by (simp add: decode_txs_def)
  ultimately show ?thesis
    using len
    by (cases "decode_txs dec newTx txsData FORKID_ETROG")
       (auto simp: DecodeForcedBatchV2_def raw_of_def [abs_def])
qed

theorem forced_batch_total_witness:
  "(case decode_txs rlp_dec new_tx_ref [255, 1] FORKID_ETROG of
      Panic \<Rightarrow> False
    | Err e \<Rightarrow> DecodeForcedBatchV2 rlp_dec new_tx_ref [255, 1] = Err e
    | Ok (txs, _, effs) \<Rightarrow> DecodeForcedBatchV2 rlp_dec new_tx_ref [255, 1] = Ok \<lparr>forced_txs = map2 raw_of txs effs\<rparr> \<and>
        map raw_tx (map2 raw_of txs effs) = map Some txs)"
  by (rule forced_batch_total) simp

text \<open>
  C20. A crafted length makes \<open>DecodeBatchV2\<close> panic instead of returning an error: after a block
  header, a transaction whose 8-byte RLP length is so close to \<open>2^64\<close> that the end position
  wraps around to a small number passes the check for enough data, and the slice expressions
  after it are out of range. \<open>DecodeTxs\<close> guards the same computation.
\<close>

theorem batch_v2_crafted_length_panics:
  assumes n: "2 ^ 64 - 84 \<le> unat n" "unat n < 2 ^ 64 - 9" and d: "d = header_Encode h [] @ 255 # be_bytes 8 (unat (n :: u64)) @ rest"
    and len: "length d < 2 ^ 63" "unat (n + 84) \<le> length d"
  shows "DecodeBatchV2 dec newTx d = Panic"
proof -
  have ld: "length d = 18 + length rest" by (simp add: d)
  have n8: "unat n mod 18446744073709551616 = unat n"
    using unsigned_less [of n, where ?'a = nat] by simp
  have at: "d ! 9 = 255" "go_index d 9 = Some 255" "go_index d 0 = Some changeL2Block"
    using ld by (simp_all add: d nth_append go_index_def header_Encode_bytes del: be_bytes.simps)
  have sl: "go_slice d 10 18 = Some (be_bytes 8 (unat n))"
    using go_slice_mid [of "header_Encode h [] @ [255]" "be_bytes 8 (unat n)" rest] len ld
    by (simp add: d del: be_bytes.simps)
  have "be_bytes 8 (unat n) \<noteq> []"
    by (metis length_be_bytes list.size(3) zero_neq_numeral)
  from parse_uint64_encode [OF this] have pr: "parse_uint64 16 (hex_encode_to_string (be_bytes 8 (unat n))) = Ok n"
    by (simp add: hex_encode_to_string_def be_nat_be_bytes n8 del: be_bytes.simps)
  have "unat (word_of_nat (length d) :: u64) = length d"
    using len by (intro unat_word_u64) simp
  then have enough: "\<not> (word_of_nat (length d) :: u64) < 18"
    using ld by (simp only: word_less_nat_alt) simp
  have L: "decodeRLPListLengthFromOffset d 9 = Ok (n + 9)"
    using enough by (simp add: decodeRLPListLengthFromOffset_def at helper_consts sl pr Let_def)
  have ds: "unat (n + 18) < 9 \<or> length d < unat (n + 18)"
    using unat_plus_cases [of n 18] n len by auto
  have end': "\<not> (word_of_nat (length d) :: u64) < n + 84"
    using len by (simp add: word_less_nat_alt unat_of_nat)
  have e: "n + 18 + rLength + sLength + vLength + EfficiencyPercentageByteLength = n + 84"
    "word_of_nat 9 + (n + 9) = n + 18"
    by (simp_all add: helper_consts)
  have "go_slice d 9 (unat (n + 18)) = None"
    using ds by (auto simp: go_slice_def)
  then have "DecodeTxRLP dec newTx d 9 = Panic"
    unfolding DecodeTxRLP_def L obind.simps Let_def e(2) e(1)
    using end' by (cases "go_slice d 9 (unat (n + 84))") simp_all
  then have "decode_batch_step dec newTx d (9, [], Some (fresh_block h [])) = Panic"
    by (simp add: decode_batch_step_def at(2) changeL2Block_def)
  moreover have "decode_batch_step dec newTx d (0, [], None) = Ok (9, [], Some (fresh_block h []))"
    using decode_batch_step_header [of "[]" h "255 # be_bytes 8 (unat n) @ rest" dec newTx "[]" None] len(1)
    by (simp add: d flush_block_def del: be_bytes.simps)
  ultimately show ?thesis
    using ld by (simp add: DecodeBatchV2_def decode_batch_loop.simps [of dec newTx d 0]
        decode_batch_loop.simps [of dec newTx d 9])
qed

theorem batch_v2_crafted_length_panics_witness:
  "DecodeBatchV2 rlp_dec new_tx_ref (header_Encode sample_header [] @ 255 # be_bytes 8 (2 ^ 64 - 80) @ []) = Panic"
  using batch_v2_crafted_length_panics [of "- 80" _ sample_header "[]" rlp_dec new_tx_ref, OF _ _ refl]
  by simp

end
