(* ===== verification/Agg_Base.thy ===== *)
theory Agg_Base
  imports Etherman Agglayer Storage Acc_Input_Hash Batch_V2
begin

text \<open>
  The state of the aggregator (\<open>aggregator/aggregator.go\<close>), what surrounds it, and the way its
  functions run. A function of the aggregator is a \<open>step\<close>: it takes the state and either does not
  return (\<open>None\<close>) or gives an outcome and the new state; what it has written stays written when it
  returns an error. Everything it asks for (the database, the clock, a prover, L1) is one
  interaction, and interactions are numbered. \<open>agg_env\<close> says what happens at each: whether the
  database answers, what L1 and the prover answer, and which storage calls the other goroutines
  (the other provers' channels, the data stream, the clean-up of stale locks) have made since the
  interaction before. So a theorem about every environment holds for every interleaving.
\<close>

section \<open>What surrounds the aggregator\<close>

datatype l1_error = L1NotFound | L1Failure

record l1_sequence =
  seq_From :: u64
  seq_To :: u64
  seq_L1InfoRoot :: hash
  seq_Timestamp :: int

record virtual_batch =
  vb_BatchL2Data :: "byte list"
  vb_BlockNumber :: u64

record l1_leaf =
  leaf_GlobalExitRoot :: hash
  leaf_PreviousBlockHash :: hash
  leaf_Timestamp :: int

datatype settlement_backend = AggLayer | L1

text \<open>What the JSON-RPC call for a witness answers; its result is read as a text, if it reads at all.\<close>

datatype witness_reply = WitnessCallFails | WitnessError string | WitnessResult "string option"

text \<open>An entry of the data stream, and what its payload is read as (\<open>state/datastream/datastream.pb.go\<close>).\<close>

datatype entry_type =
    EtBookmark | ENTRY_TYPE_BATCH_START | ENTRY_TYPE_L2_BLOCK | ENTRY_TYPE_TRANSACTION | ENTRY_TYPE_BATCH_END
  | EtOther int

record file_entry =
  entry_Type :: entry_type
  entry_Data :: "byte list"

record ds_batch_start =
  bs_Number :: u64
  bs_Type :: batch_type
  bs_ForkId :: u64
  bs_ChainId :: u64

record ds_batch_end =
  be_LocalExitRoot :: "byte list"
  be_StateRoot :: "byte list"

record ds_l2_block =
  blk_Number :: u64
  blk_DeltaTimestamp :: u32
  blk_L1InfotreeIndex :: u32
  blk_GlobalExitRoot :: "byte list"
  blk_Coinbase :: "byte list"

record ds_transaction =
  dtx_EffectiveGasPricePercentage :: u32
  dtx_Encoded :: "byte list"

text \<open>
  \<open>Config\<close> without the configurations of the libraries (\<open>DB\<close>, \<open>StreamClient\<close>, \<open>EthTxManager\<close>, \<open>Log\<close>,
  \<open>Synchronizer\<close>) and without the key file, which \<open>New\<close> takes apart; durations are in microseconds.
\<close>

record agg_config =
  Host :: string
  Port :: int
  RetryTime :: int
  VerifyProofInterval :: int
  ProofStatePollingInterval :: int
  TxProfitabilityCheckerType :: string
  TxProfitabilityMinReward :: int
  IntervalAfterWhichBatchConsolidateAnyway :: int
  BatchProofSanityCheckEnabled :: bool
  CfgChainID :: u64
  CfgForkId :: u64
  SenderAddress :: string
  CleanupLockedProofsInterval :: int
  GeneratingProofCleanupThreshold :: string
  GasOffset :: u64
  WitnessURL :: string
  UseL1BatchData :: bool
  UseFullWitness :: bool
  SettlementBackend :: settlement_backend
  AggLayerTxTimeout :: int
  AggLayerURL :: string
  MaxWitnessRetrievalWorkers :: int
  SyncModeOnlyEnabled :: bool

text \<open>
  The libraries: Keccak, the RLP codec, \<open>types.NewTx\<close> and \<open>UnmarshalBinary\<close>, JSON, the Poseidon constant,
  \<open>FileEntry.Encode\<close> and \<open>proto.Unmarshal\<close> for the four payloads of the data stream.
\<close>

record libraries =
  lib_keccak :: "byte list \<Rightarrow> byte list"
  lib_rlp :: "byte list \<Rightarrow> byte list list option"
  lib_rlp_enc :: "rlp_field list \<Rightarrow> byte list option"
  lib_UnmarshalBinary :: "byte list \<Rightarrow> transaction option"
  lib_newTx :: "legacy_tx \<Rightarrow> transaction"
  lib_publics :: "string \<Rightarrow> string list option"
  lib_NROUNDSF :: nat
  lib_marshal_pair :: "string \<Rightarrow> string \<Rightarrow> string"   \<comment> \<open>\<open>json.Marshal\<close> of the two recursive proofs\<close>
  lib_checksum_text :: "address \<Rightarrow> string"   \<comment> \<open>\<open>Address.String\<close>\<close>
  lib_agglayer :: agglayer_lib
  lib_interval :: "string \<Rightarrow> int option"   \<comment> \<open>how the server reads an interval\<close>
  lib_Encode :: "file_entry \<Rightarrow> byte list"
  lib_BatchStart :: "byte list \<Rightarrow> ds_batch_start option"
  lib_BatchEnd :: "byte list \<Rightarrow> ds_batch_end option"
  lib_L2Block :: "byte list \<Rightarrow> ds_l2_block option"
  lib_Transaction :: "byte list \<Rightarrow> ds_transaction option"

record agg_env =
  env_cfg :: agg_config
  env_lib :: libraries
  env_now :: "nat \<Rightarrow> int"
  env_db_ok :: "nat \<Rightarrow> bool"
  env_others :: "nat \<Rightarrow> storage_call list"
  env_ctx_done :: "nat \<Rightarrow> bool"
  env_prover :: "nat \<Rightarrow> connection"
  env_polls :: "nat \<Rightarrow> poll list"
  env_etherman :: "nat \<Rightarrow> etherman_client"
  env_sequence :: "nat \<Rightarrow> u64 \<Rightarrow> l1_error + l1_sequence option"
  env_virtual :: "nat \<Rightarrow> u64 \<Rightarrow> l1_error + virtual_batch"
  env_block_parent :: "nat \<Rightarrow> u64 \<Rightarrow> l1_error + hash"
  env_leaves :: "nat \<Rightarrow> hash \<Rightarrow> l1_error + l1_leaf list"
  env_leaf :: "nat \<Rightarrow> u32 \<Rightarrow> l1_error + l1_leaf option"
  env_sign :: "nat \<Rightarrow> byte list \<Rightarrow> byte list option"   \<comment> \<open>\<open>crypto.Sign\<close> with the sequencer's key\<close>
  env_send :: "nat \<Rightarrow> signed_tx \<Rightarrow> hash rpc_reply"
  env_mined :: "nat \<Rightarrow> wait_event list"
  env_auth :: "nat \<Rightarrow> bool \<times> nat list"
  env_eth_add :: "nat \<Rightarrow> bool"   \<comment> \<open>\<open>ethTxManager.Add\<close>\<close>
  env_monitored :: "nat \<Rightarrow> bool list"   \<comment> \<open>the results it reports: whether the transaction failed\<close>
  env_last_virtual :: "nat \<Rightarrow> l1_error + u64"
  env_sync :: "nat \<Rightarrow> bool"   \<comment> \<open>\<open>Sync\<close> with L1 returns without an error\<close>
  env_listen :: "nat \<Rightarrow> bool"   \<comment> \<open>so does \<open>net.Listen\<close>\<close>
  env_stream_start :: "nat \<Rightarrow> bool"
  env_bookmark :: "nat \<Rightarrow> u64 \<Rightarrow> bool"   \<comment> \<open>the stream can start at this batch\<close>
  env_witness :: "nat \<Rightarrow> u64 \<Rightarrow> string \<Rightarrow> witness_reply"   \<comment> \<open>\<open>zkevm_getBatchWitness\<close>\<close>

section \<open>The state\<close>

record final_proof_msg =
  msg_proverName :: string
  msg_proverID :: string
  msg_recursiveProof :: state_proof
  msg_finalProof :: final_proof

record aggregator =
  agg_tables :: tables
  agg_tick :: nat
  agg_verifyingProof :: bool
  agg_timeSendFinalProof :: int
  agg_sent :: "final_proof_msg list"   \<comment> \<open>what went through the channel \<open>finalProof\<close>, oldest first\<close>
  agg_halted :: bool
  agg_currentBatchStreamData :: "byte list"
  agg_currentStreamBatch :: state_batch
  agg_currentStreamBatchRaw :: batch_raw_v2
  agg_currentStreamL2Block :: l2_block_raw
  agg_witnessRetrieval :: "db_batch list"   \<comment> \<open>what went through \<open>witnessRetrievalChan\<close>, oldest first\<close>

datatype agg_error =
    EStorage storage_error | EProver prover_error | EL1 l1_error | ETree tree_error
  | EState state_error | EContext | EEtherman etherman_error | ERootMismatch | EHash
  | EAgglayer agglayer_error | ESign | EEthTxManager | EUnmarshal | EDecodeTx | EHexDecode hex_error
  | EWitnessBusy | EWitness | EForkID

type_synonym 'a result = "(agg_error, 'a) outcome"
type_synonym 'a step = "aggregator \<Rightarrow> ('a result \<times> aggregator) option"

text \<open>What L1 answers: an error on the left, a value on the right.\<close>

fun l1_result :: "l1_error + 'a \<Rightarrow> 'a result" where
  "l1_result (Inl e) = Err (EL1 e)"
| "l1_result (Inr x) = Ok x"

section \<open>Running steps\<close>

definition ret :: "'a \<Rightarrow> 'a step" where "ret x = (\<lambda>s. Some (Ok x, s))"
definition fail :: "agg_error \<Rightarrow> 'a step" where "fail e = (\<lambda>s. Some (Err e, s))"
definition crash :: "'a step" where "crash = (\<lambda>s. Some (Panic, s))"
definition hang :: "'a step" where "hang = (\<lambda>s. None)"

definition sbind :: "'a step \<Rightarrow> ('a \<Rightarrow> 'b step) \<Rightarrow> 'b step" where
  "sbind m f = (\<lambda>s. case m s of
       None \<Rightarrow> None
     | Some (Ok x, s') \<Rightarrow> f x s'
     | Some (Err e, s') \<Rightarrow> Some (Err e, s')
     | Some (Panic, s') \<Rightarrow> Some (Panic, s'))"

text \<open>\<open>attempt m\<close> gives the caller the error \<open>m\<close> returns as a value; a panic goes on.\<close>

definition attempt :: "'a step \<Rightarrow> 'a result step" where
  "attempt m = (\<lambda>s. case m s of
       None \<Rightarrow> None
     | Some (Panic, s') \<Rightarrow> Some (Panic, s')
     | Some (r, s') \<Rightarrow> Some (Ok r, s'))"

text \<open>A deferred clean-up that runs when the body returns an error; its own error is only logged.\<close>

definition on_error :: "'a step \<Rightarrow> unit step \<Rightarrow> 'a step" where
  "on_error m cleanup =
     sbind (attempt m) (\<lambda>r.
     case r of
       Ok x \<Rightarrow> ret x
     | Panic \<Rightarrow> crash
     | Err e \<Rightarrow> sbind (attempt cleanup) (\<lambda>_. fail e))"

definition lift :: "'a result \<Rightarrow> 'a step" where "lift r = (\<lambda>s. Some (r, s))"

definition getter :: "(aggregator \<Rightarrow> 'a) \<Rightarrow> 'a step" where "getter f = (\<lambda>s. Some (Ok (f s), s))"

definition modify :: "(aggregator \<Rightarrow> aggregator) \<Rightarrow> unit step" where "modify f = (\<lambda>s. Some (Ok (), f s))"

text \<open>One interaction: the others' storage calls have taken effect, and its number is used up.\<close>

definition interact :: "agg_env \<Rightarrow> nat step" where
  "interact env = (\<lambda>s. Some (Ok (agg_tick s),
     s\<lparr>agg_tick := agg_tick s + 1, agg_tables := exec_calls (env_others env (agg_tick s)) (agg_tables s)\<rparr>))"

definition ask :: "agg_env \<Rightarrow> (nat \<Rightarrow> 'a result) \<Rightarrow> 'a step" where
  "ask env f = sbind (interact env) (\<lambda>n. lift (f n))"

section \<open>The database\<close>

text \<open>A call that reads, and one that writes; the clock at the call gives the row its times.\<close>

definition db_read :: "agg_env \<Rightarrow> (tables \<Rightarrow> (storage_error, 'a) outcome) \<Rightarrow> 'a step" where
  "db_read env f =
     sbind (interact env) (\<lambda>n.
     if \<not> env_db_ok env n then fail (EStorage ErrConnection)
     else sbind (getter agg_tables) (\<lambda>t. lift (map_err EStorage (f t))))"

definition db_write :: "agg_env \<Rightarrow> (int \<Rightarrow> storage_call) \<Rightarrow> unit step" where
  "db_write env call =
     sbind (interact env) (\<lambda>n.
     if \<not> env_db_ok env n then fail (EStorage ErrConnection)
     else sbind (getter agg_tables) (\<lambda>t.
       sbind (lift (map_err EStorage (exec_call (call (env_now env n)) t))) (\<lambda>t'.
       modify (\<lambda>s. s\<lparr>agg_tables := t'\<rparr>))))"

text \<open>
  A transaction: \<open>BeginStateTransaction\<close>, its calls in order up to the first that fails, then
  \<open>Commit\<close> or \<open>Rollback\<close>. It takes place at one point of the history: the calls of the others come
  before it. A rollback that fails only changes the error; the changes are dropped in any case.
\<close>

fun tx_calls :: "agg_env \<Rightarrow> nat \<Rightarrow> (int \<Rightarrow> storage_call) list \<Rightarrow> tables \<Rightarrow> (storage_error, tables) outcome" where
  "tx_calls env n [] t = Ok t"
| "tx_calls env n (c # cs) t =
     (if \<not> env_db_ok env n then Err ErrConnection
      else obind (exec_call (c (env_now env n)) t) (tx_calls env (n + 1) cs))"

definition tx_body :: "agg_env \<Rightarrow> (int \<Rightarrow> storage_call) list \<Rightarrow> nat \<Rightarrow> unit step" where
  "tx_body env calls n =
     sbind (getter agg_tables) (\<lambda>t.
     sbind (modify (\<lambda>s. s\<lparr>agg_tick := n + length calls + 2\<rparr>)) (\<lambda>_.
     case tx_calls env (n + 1) calls t of
       Ok t' \<Rightarrow>
         if \<not> env_db_ok env (n + length calls + 1) then fail (EStorage ErrConnection)
         else modify (\<lambda>s. s\<lparr>agg_tables := t'\<rparr>)
     | Err e \<Rightarrow>
         if \<not> env_db_ok env (n + length calls + 1) then fail (EStorage ErrConnection)
         else fail (EStorage e)
     | Panic \<Rightarrow> crash))"

definition transaction :: "agg_env \<Rightarrow> (int \<Rightarrow> storage_call) list \<Rightarrow> unit step" where
  "transaction env calls =
     sbind (interact env) (\<lambda>n.
     if \<not> env_db_ok env n then fail (EStorage ErrConnection) else tx_body env calls n)"

text \<open>The clock and the wait for a prover.\<close>

definition time_now :: "agg_env \<Rightarrow> int step" where
  "time_now env = ask env (\<lambda>n. Ok (env_now env n))"

definition wait_recursive :: "agg_env \<Rightarrow> string \<Rightarrow> (string \<times> hash) step" where
  "wait_recursive env proofID =
     sbind (interact env) (\<lambda>n.
     case WaitRecursiveProof (lib_NROUNDSF (env_lib env)) (lib_publics (env_lib env)) (env_polls env n) proofID of
       None \<Rightarrow> hang
     | Some r \<Rightarrow> lift (map_err EProver r))"

definition wait_final :: "agg_env \<Rightarrow> string \<Rightarrow> final_proof step" where
  "wait_final env proofID =
     sbind (interact env) (\<lambda>n.
     case WaitFinalProof (env_polls env n) proofID of
       None \<Rightarrow> hang
     | Some r \<Rightarrow> lift (map_err EProver r))"

definition latest_verified :: "agg_env \<Rightarrow> u64 step" where
  "latest_verified env =
     ask env (\<lambda>n. map_err EEtherman (GetLatestVerifiedBatchNum (env_etherman env n)))"

section \<open>Reasoning about steps\<close>

text \<open>\<open>triple P m Q\<close>: from a state with \<open>P\<close>, if \<open>m\<close> returns then \<open>Q\<close> holds of its outcome and state.\<close>

definition triple :: "(aggregator \<Rightarrow> bool) \<Rightarrow> 'a step \<Rightarrow> ('a result \<Rightarrow> aggregator \<Rightarrow> bool) \<Rightarrow> bool" where
  "triple P m Q \<longleftrightarrow> (\<forall>s r s'. P s \<longrightarrow> m s = Some (r, s') \<longrightarrow> Q r s')"

named_theorems triple_intros \<open>rules that decompose a step\<close>

lemma tripleD: "triple P m Q \<Longrightarrow> P s \<Longrightarrow> m s = Some (r, s') \<Longrightarrow> Q r s'"
  by (auto simp: triple_def)

lemma triple_pre: "triple P m Q \<Longrightarrow> (\<And>s. P' s \<Longrightarrow> P s) \<Longrightarrow> triple P' m Q"
  by (auto simp: triple_def)

lemma triple_post: "triple P m Q \<Longrightarrow> (\<And>r s. Q r s \<Longrightarrow> Q' r s) \<Longrightarrow> triple P m Q'"
  by (auto simp: triple_def)

lemma triple_ret [triple_intros]: "(\<And>s. P s \<Longrightarrow> Q (Ok x) s) \<Longrightarrow> triple P (ret x) Q"
  by (auto simp: triple_def ret_def)

lemma triple_fail [triple_intros]: "(\<And>s. P s \<Longrightarrow> Q (Err e) s) \<Longrightarrow> triple P (fail e) Q"
  by (auto simp: triple_def fail_def)

lemma triple_crash: "(\<And>s. P s \<Longrightarrow> Q Panic s) \<Longrightarrow> triple P crash Q"
  by (auto simp: triple_def crash_def)

lemma triple_hang [triple_intros]: "triple P hang Q"
  by (auto simp: triple_def hang_def)

lemma triple_lift [triple_intros]: "(\<And>s. P s \<Longrightarrow> Q r s) \<Longrightarrow> triple P (lift r) Q"
  by (auto simp: triple_def lift_def)

lemma triple_getter: "(\<And>s. P s \<Longrightarrow> Q (Ok (f s)) s) \<Longrightarrow> triple P (getter f) Q"
  by (auto simp: triple_def getter_def)

lemma triple_modify: "(\<And>s. P s \<Longrightarrow> Q (Ok ()) (f s)) \<Longrightarrow> triple P (modify f) Q"
  by (auto simp: triple_def modify_def)

definition seq_post :: "('a \<Rightarrow> aggregator \<Rightarrow> bool) \<Rightarrow> ('b result \<Rightarrow> aggregator \<Rightarrow> bool) \<Rightarrow> 'a result \<Rightarrow> aggregator \<Rightarrow> bool" where
  "seq_post P Q r s = (case r of Ok x \<Rightarrow> P x s | Err e \<Rightarrow> Q (Err e) s | Panic \<Rightarrow> Q Panic s)"

lemma seq_post_simps [simp]:
  "seq_post P Q (Ok x) s = P x s" "seq_post P Q (Err e) s = Q (Err e) s" "seq_post P Q Panic s = Q Panic s"
  by (simp_all add: seq_post_def)

lemma triple_sbind:
  assumes "triple P m (seq_post P' Q)" "\<And>x. triple (P' x) (f x) Q"
  shows "triple P (sbind m f) Q"
  using assms by (fastforce simp: triple_def sbind_def split: option.splits prod.splits outcome.splits)

lemma triple_attempt:
  assumes "triple P m (\<lambda>r s. case r of Panic \<Rightarrow> Q Panic s | _ \<Rightarrow> Q (Ok r) s)"
  shows "triple P (attempt m) Q"
  using assms by (fastforce simp: triple_def attempt_def split: option.splits prod.splits outcome.splits)

lemma triple_on_error:
  assumes "triple P m (\<lambda>r s. case r of Err e \<Rightarrow> P' e s | _ \<Rightarrow> Q r s)"
    "\<And>e. triple (P' e) cleanup (\<lambda>r s. case r of Panic \<Rightarrow> Q Panic s | _ \<Rightarrow> Q (Err e) s)"
  shows "triple P (on_error m cleanup) Q"
  unfolding on_error_def
proof (rule triple_sbind)
  show "triple P (attempt m) (seq_post (\<lambda>r s. case r of Err e \<Rightarrow> P' e s | _ \<Rightarrow> Q (map_err id r) s) Q)"
    by (rule triple_attempt) (rule triple_post [OF assms(1)], auto split: outcome.splits)
next
  fix r
  show "triple (\<lambda>s. case r of Err e \<Rightarrow> P' e s | _ \<Rightarrow> Q (map_err id r) s)
      (case r of Ok x \<Rightarrow> ret x | Panic \<Rightarrow> crash | Err e \<Rightarrow> sbind (attempt cleanup) (\<lambda>_. fail e)) Q"
  proof (cases r)
    case (Err e)
    have "triple (P' e) (attempt cleanup) (seq_post (\<lambda>_. Q (Err e)) Q)"
      by (rule triple_attempt) (rule triple_post [OF assms(2)], auto split: outcome.splits)
    then show ?thesis using Err by (auto intro!: triple_sbind triple_fail)
  qed (auto intro: triple_ret triple_crash)
qed

section \<open>Invariants of the tables\<close>

text \<open>
  \<open>keeps S I W C m\<close>: \<open>m\<close> preserves the invariant \<open>I\<close> of the tables and \<open>W\<close> of the messages sent, its value has \<open>C\<close> when it returns
  one, and when \<open>S\<close> holds it does not panic. With \<open>S\<close> false this is about every environment.
\<close>

definition keeps ::
    "bool \<Rightarrow> (tables \<Rightarrow> bool) \<Rightarrow> (final_proof_msg list \<Rightarrow> bool) \<Rightarrow> ('a \<Rightarrow> bool) \<Rightarrow> 'a step \<Rightarrow> bool" where
  "keeps S I W C m \<longleftrightarrow>
     triple (\<lambda>s. I (agg_tables s) \<and> W (agg_sent s)) m
       (\<lambda>r s. I (agg_tables s) \<and> W (agg_sent s) \<and> (\<forall>x. r = Ok x \<longrightarrow> C x) \<and> (S \<longrightarrow> r \<noteq> Panic))"

abbreviation any :: "'a \<Rightarrow> bool" where "any \<equiv> \<lambda>_. True"

lemma keepsD:
  "keeps S I W C m \<Longrightarrow> I (agg_tables s) \<Longrightarrow> W (agg_sent s) \<Longrightarrow> m s = Some (r, s') \<Longrightarrow>
   I (agg_tables s') \<and> W (agg_sent s') \<and> (\<forall>x. r = Ok x \<longrightarrow> C x) \<and> (S \<longrightarrow> r \<noteq> Panic)"
  unfolding keeps_def triple_def by blast

lemma keeps_weaken: "keeps S I W C m \<Longrightarrow> (\<And>x. C x \<Longrightarrow> D x) \<Longrightarrow> keeps S I W D m"
  unfolding keeps_def by (erule triple_post) auto

lemma keeps_sbind:
  assumes "keeps S I W C m" "\<And>x. C x \<Longrightarrow> keeps S I W D (f x)"
  shows "keeps S I W D (sbind m f)"
proof -
  have "triple (\<lambda>s. I (agg_tables s) \<and> W (agg_sent s) \<and> C x) (f x)
      (\<lambda>r s. I (agg_tables s) \<and> W (agg_sent s) \<and> (\<forall>x. r = Ok x \<longrightarrow> D x) \<and> (S \<longrightarrow> r \<noteq> Panic))" for x
  proof (cases "C x")
    case True
    show ?thesis using assms(2) [OF True] unfolding keeps_def by (rule triple_pre) simp
  qed (simp add: triple_def)
  moreover have "triple (\<lambda>s. I (agg_tables s) \<and> W (agg_sent s)) m
     (seq_post (\<lambda>x s. I (agg_tables s) \<and> W (agg_sent s) \<and> C x)
       (\<lambda>r s. I (agg_tables s) \<and> W (agg_sent s) \<and> (\<forall>x. r = Ok x \<longrightarrow> D x) \<and> (S \<longrightarrow> r \<noteq> Panic)))"
    using assms(1) unfolding keeps_def by (rule triple_post) (auto simp: seq_post_def split: outcome.split)
  ultimately show ?thesis unfolding keeps_def by (intro triple_sbind)
qed

lemma keeps_attempt: "keeps S I W C m \<Longrightarrow> keeps S I W (\<lambda>r. r \<noteq> Panic \<and> (\<forall>x. r = Ok x \<longrightarrow> C x)) (attempt m)"
  unfolding keeps_def by (rule triple_attempt) (erule triple_post, auto split: outcome.split)

lemma keeps_attempt_sbind:
  assumes "keeps S I W C m" "\<And>x. C x \<Longrightarrow> keeps S I W D (f (Ok x))" "\<And>e. keeps S I W D (f (Err e))"
  shows "keeps S I W D (sbind (attempt m) f)"
proof (rule keeps_sbind [OF keeps_attempt [OF assms(1)]])
  fix r :: "'a result" assume "r \<noteq> Panic \<and> (\<forall>x. r = Ok x \<longrightarrow> C x)"
  then show "keeps S I W D (f r)" using assms(2,3) by (cases r) auto
qed

lemma keeps_on_error: 
  assumes "keeps S I W C m" "keeps S I W any c"
  shows "keeps S I W C (on_error m c)"
  unfolding on_error_def
proof (rule keeps_attempt_sbind [OF assms(1)])
  have "keeps S I W C (ret x)" if "C x" for x
    using that by (simp add: keeps_def triple_def ret_def)
  then show "C x \<Longrightarrow> keeps S I W C (case Ok x of Ok x \<Rightarrow> ret x | Panic \<Rightarrow> crash
      | Err e \<Rightarrow> sbind (attempt c) (\<lambda>_. fail e))" for x
    by simp
  have "keeps S I W C (sbind (attempt c) (\<lambda>_. fail e))" for e
    by (rule keeps_sbind [OF keeps_attempt [OF assms(2)]]) (simp add: keeps_def triple_def fail_def)
  then show "keeps S I W C (case Err e of Ok x \<Rightarrow> ret x | Panic \<Rightarrow> crash
      | Err e \<Rightarrow> sbind (attempt c) (\<lambda>_. fail e))" for e
    by simp
qed

lemma keeps_simple:
  "C x \<Longrightarrow> keeps S I W C (ret x)" "keeps S I W C (fail e)" "\<not> S \<Longrightarrow> keeps S I W C crash" "keeps S I W C hang"
  by (simp_all add: keeps_def triple_def ret_def fail_def crash_def hang_def)

lemma keeps_lift: "(\<And>x. r = Ok x \<Longrightarrow> C x) \<Longrightarrow> (S \<Longrightarrow> r \<noteq> Panic) \<Longrightarrow> keeps S I W C (lift r)"
  by (auto simp: keeps_def triple_def lift_def)

lemma keeps_getter: "keeps S I W any (getter f)"
  by (auto simp: keeps_def triple_def getter_def)

lemma keeps_modify: "(\<And>s. agg_tables (f s) = agg_tables s) \<Longrightarrow> (\<And>s. W (agg_sent s) \<Longrightarrow> W (agg_sent (f s))) \<Longrightarrow> keeps S I W any (modify f)"
  by (auto simp: keeps_def triple_def modify_def)

definition call_returns :: "storage_call \<Rightarrow> bool" where
  "call_returns c = (case c of CallCleanupLocked i now d \<Rightarrow> d \<noteq> [] | _ \<Rightarrow> True)"

lemma toPostgresInterval_Panic: "toPostgresInterval d = Panic \<longleftrightarrow> d = []"
  by (simp add: toPostgresInterval_def Let_def)

lemma exec_call_returns: "call_returns c \<Longrightarrow> exec_call c t \<noteq> Panic"
  by (cases c)
     (auto simp: call_returns_def outcome_simps AddBatch_def DeleteBatchesOlderThanBatchNumber_def
       DeleteBatchesNewerThanBatchNumber_def AddSequence_def AddGeneratedProof_def UpdateGeneratedProof_def
       DeleteGeneratedProofs_def CleanupGeneratedProofs_def CleanupLockedProofs_def DeleteUngeneratedProofs_def
       toPostgresInterval_Panic Let_def split: option.splits)

text \<open>
  The prover answers the wait for an identifier that it has given out with the payload asked for,
  and with public values that can be read.
\<close>

definition final_id :: "agg_env \<Rightarrow> string \<Rightarrow> bool" where
  "final_id env i \<longleftrightarrow> (\<exists>n p a. FinalProofRequest (env_prover env n) p a = Ok i)"

definition recursive_id :: "agg_env \<Rightarrow> string \<Rightarrow> bool" where
  "recursive_id env i \<longleftrightarrow> (\<exists>n p q. AggregatedProof (env_prover env n) p q = Ok i)"

definition sane_prover :: "agg_env \<Rightarrow> bool" where
  "sane_prover env \<longleftrightarrow>
     (\<forall>n i. (recursive_id env i \<longrightarrow>
          WaitRecursiveProof (lib_NROUNDSF (env_lib env)) (lib_publics (env_lib env)) (env_polls env n) i \<noteq> Some Panic) \<and>
        (final_id env i \<longrightarrow> WaitFinalProof (env_polls env n) i \<noteq> Some Panic))"

text \<open>
  An invariant of the tables and the storage calls that are allowed. What every allowed call
  preserves is preserved by every step that makes allowed calls, whatever the others do within the
  same bounds.
\<close>

locale table_invariant =
  fixes S :: bool
    and I :: "tables \<Rightarrow> bool"
    and W :: "final_proof_msg list \<Rightarrow> bool"
    and allowed :: "storage_call \<Rightarrow> bool"
  assumes call_keeps: "I t \<Longrightarrow> allowed c \<Longrightarrow> exec_call c t = Ok t' \<Longrightarrow> I t'"
    and call_ends: "S \<Longrightarrow> allowed c \<Longrightarrow> call_returns c"
begin

definition others_allowed :: "agg_env \<Rightarrow> bool" where
  "others_allowed env \<longleftrightarrow> (\<forall>n. \<forall>c \<in> set (env_others env n). allowed c)"

lemma exec_calls_keeps: "I t \<Longrightarrow> \<forall>c \<in> set cs. allowed c \<Longrightarrow> I (exec_calls cs t)"
  by (induction cs arbitrary: t) (auto simp: call_keeps split: outcome.split)

lemma keeps_interact: "others_allowed env \<Longrightarrow> keeps S I W any (interact env)"
  by (auto simp: keeps_def triple_def interact_def others_allowed_def exec_calls_keeps)

lemma keeps_ask:
  "others_allowed env \<Longrightarrow> (\<And>n x. f n = Ok x \<Longrightarrow> C x) \<Longrightarrow> (\<And>n. S \<Longrightarrow> f n \<noteq> Panic) \<Longrightarrow> keeps S I W C (ask env f)"
  unfolding ask_def by (rule keeps_sbind [OF keeps_interact]) (auto intro: keeps_lift)

lemma keeps_db_read:
  assumes "others_allowed env" "\<And>t x. I t \<Longrightarrow> f t = Ok x \<Longrightarrow> C x" "\<And>t. S \<Longrightarrow> f t \<noteq> Panic"
  shows "keeps S I W C (db_read env f)"
proof -
  have "keeps S I W C (sbind (getter agg_tables) (\<lambda>t. lift (map_err EStorage (f t))))"
    using assms(2,3) by (auto simp: keeps_def triple_def sbind_def getter_def lift_def map_err_iff)
  then show ?thesis
    unfolding db_read_def using keeps_interact [OF assms(1)]
    by (auto intro!: keeps_sbind keeps_simple)
qed

lemma keeps_db_write:
  assumes "others_allowed env" "\<And>now. allowed (call now)"
  shows "keeps S I W any (db_write env call)"
proof -
  have "keeps S I W any (sbind (getter agg_tables) (\<lambda>t.
       sbind (lift (map_err EStorage (exec_call (call (env_now env n)) t))) (\<lambda>t'.
       modify (\<lambda>s. s\<lparr>agg_tables := t'\<rparr>))))" for n
    using assms(2) call_keeps call_ends exec_call_returns
    by (auto simp: keeps_def triple_def sbind_def getter_def lift_def modify_def map_err_iff split: outcome.splits)
  then show ?thesis
    unfolding db_write_def using keeps_interact [OF assms(1)]
    by (auto intro!: keeps_sbind keeps_simple)
qed

lemma tx_calls_keeps:
  "I t \<Longrightarrow> \<forall>c \<in> set cs. \<forall>now. allowed (c now) \<Longrightarrow>
   (\<forall>t'. tx_calls env n cs t = Ok t' \<longrightarrow> I t') \<and> (S \<longrightarrow> tx_calls env n cs t \<noteq> Panic)"
proof (induction env n cs t rule: tx_calls.induct)
  case (2 env n c cs t)
  show ?case
  proof (cases "exec_call (c (env_now env n)) t")
    case (Ok t1)
    have "I t1" using 2(3) Ok 2(2) call_keeps by auto
    then show ?thesis using 2 Ok by auto
  next
    case Panic
    then have "\<not> S" using 2(3) call_ends exec_call_returns by auto
    then show ?thesis using Panic by simp
  qed auto
qed simp

lemma keeps_transaction:
  assumes "others_allowed env" "\<forall>c \<in> set calls. \<forall>now. allowed (c now)"
  shows "keeps S I W any (transaction env calls)"
proof -
  have "keeps S I W any (tx_body env calls n)" for n
    using tx_calls_keeps [OF _ assms(2)]
    by (auto simp: tx_body_def keeps_def triple_def sbind_def getter_def modify_def fail_def crash_def
        split: outcome.splits if_splits)
  then show ?thesis
    unfolding transaction_def using keeps_interact [OF assms(1)]
    by (auto intro!: keeps_sbind keeps_simple)
qed

lemma keeps_time_now: "others_allowed env \<Longrightarrow> keeps S I W any (time_now env)"
  unfolding time_now_def by (rule keeps_ask) auto

lemma keeps_latest_verified: "others_allowed env \<Longrightarrow> keeps S I W any (latest_verified env)"
  unfolding latest_verified_def
  by (rule keeps_ask) (auto simp: outcome_simps GetLatestVerifiedBatchNum_def split: option.splits)

lemma keeps_wait_recursive:
  "others_allowed env \<Longrightarrow> (S \<Longrightarrow> sane_prover env \<and> recursive_id env proofID) \<Longrightarrow> keeps S I W any (wait_recursive env proofID)"
  unfolding wait_recursive_def
  by (rule keeps_sbind [OF keeps_interact])
     (auto simp: sane_prover_def outcome_simps split: option.split intro!: keeps_lift keeps_simple)

lemma keeps_wait_final:
  "others_allowed env \<Longrightarrow> (S \<Longrightarrow> sane_prover env \<and> final_id env proofID) \<Longrightarrow> keeps S I W any (wait_final env proofID)"
  unfolding wait_final_def
  by (rule keeps_sbind [OF keeps_interact])
     (auto simp: sane_prover_def outcome_simps split: option.split intro!: keeps_lift keeps_simple)

end

section \<open>What an unlocked proof has\<close>

text \<open>
  A proof whose range is not empty and that has an identifier: what the code relies on when it
  dereferences \<open>ProofID\<close> of a proof it has found. Unlocked proofs are usable; a proof that is still
  generating has no identifier at first.
\<close>

definition usable :: "state_proof \<Rightarrow> bool" where
  "usable p \<longleftrightarrow> ProofBatch p \<le> ProofBatchFinal p \<and> ProofID p \<noteq> None"

definition proofs_ok :: "tables \<Rightarrow> bool" where
  "proofs_ok t \<longleftrightarrow>
     (\<forall>p \<in> set (proof_table t). ProofBatch p \<le> ProofBatchFinal p \<and> (unlocked p \<longrightarrow> ProofID p \<noteq> None))"

fun proof_call_ok :: "storage_call \<Rightarrow> bool" where
  "proof_call_ok (CallAddProof now p) = (ProofBatch p \<le> ProofBatchFinal p \<and> (unlocked p \<longrightarrow> ProofID p \<noteq> None))"
| "proof_call_ok (CallUpdateProof now p) = (ProofBatch p \<le> ProofBatchFinal p \<and> (unlocked p \<longrightarrow> ProofID p \<noteq> None))"
| "proof_call_ok (CallCleanupLocked i now d) = (d \<noteq> [])"
| "proof_call_ok _ = True"

lemma proofs_ok_call: "proofs_ok t \<Longrightarrow> proof_call_ok c \<Longrightarrow> exec_call c t = Ok t' \<Longrightarrow> proofs_ok t'"
  by (cases c)
     (auto simp: proofs_ok_def outcome_simps AddBatch_def DeleteBatchesOlderThanBatchNumber_def
       DeleteBatchesNewerThanBatchNumber_def AddSequence_def AddGeneratedProof_def UpdateGeneratedProof_def
       DeleteGeneratedProofs_def CleanupGeneratedProofs_def CleanupLockedProofs_def DeleteUngeneratedProofs_def
       delete_batches_def delete_proofs_def row_update_def unlocked_def Let_def split: option.splits if_splits)

text \<open>
  An invariant under which the proofs that the code picks have \<open>U\<close>, and writing a proof with \<open>U\<close> is
  allowed. It is used twice: for the constraints of the schema, with nothing asked of the others'
  calls, and for these together with \<open>proofs_ok\<close>, where \<open>U\<close> is \<open>usable\<close> and no handler dereferences a
  missing identifier.
\<close>

locale proof_invariant = table_invariant +
  fixes U :: "state_proof \<Rightarrow> bool"
  assumes send_usable: "W q \<Longrightarrow> U (msg_recursiveProof m) \<Longrightarrow> W (q @ [m])"
    and unlocked_usable: "I t \<Longrightarrow> p \<in> set (proof_table t) \<Longrightarrow> unlocked p \<Longrightarrow> U p"
    and usable_id: "S \<Longrightarrow> U p \<Longrightarrow> ProofID p \<noteq> None"
    and usable_lock: "U p \<Longrightarrow> U (p\<lparr>GeneratingSince := g\<rparr>)"
    and usable_rename: "U p \<Longrightarrow> U (p\<lparr>ProofID := Some i\<rparr>)"
    and usable_join: "U p1 \<Longrightarrow> U p2 \<Longrightarrow>
      int (unat (ProofBatchFinal p1)) = int (unat (ProofBatch p2)) - 1 \<Longrightarrow>
      ProofBatch p = ProofBatch p1 \<Longrightarrow> ProofBatchFinal p = ProofBatchFinal p2 \<Longrightarrow> ProofID p \<noteq> None \<Longrightarrow> U p"
    and usable_single: "ProofBatch p = ProofBatchFinal p \<Longrightarrow> ProofID p \<noteq> None \<Longrightarrow> U p"
    and update_allowed: "U p \<Longrightarrow> allowed (CallUpdateProof now p)"
    and add_allowed: "U p \<or> ProofBatch p = ProofBatchFinal p \<and> \<not> unlocked p \<Longrightarrow> allowed (CallAddProof now p)"
    and delete_allowed: "allowed (CallDeleteProofs a b)"
    and sequence_allowed: "allowed (CallAddSequence sq)"
    and batch_allowed: "allowed (CallAddBatch dbBatch)" "allowed (CallDeleteNewer n)" "allowed (CallDeleteOlder n)"
    and cleanup_allowed: "allowed CallDeleteUngenerated" "d \<noteq> [] \<Longrightarrow> allowed (CallCleanupLocked interval now d)"

interpretation wf: proof_invariant False tables_wf "\<lambda>_. True" "\<lambda>_. True" "\<lambda>_. True"
  by unfold_locales (auto intro: exec_call_wf)

interpretation ok: proof_invariant S "\<lambda>t. tables_wf t \<and> proofs_ok t"
  "\<lambda>q. \<forall>m \<in> set q. usable (msg_recursiveProof m)" proof_call_ok usable for S
proof unfold_locales
  show "tables_wf t' \<and> proofs_ok t'"
    if "tables_wf t \<and> proofs_ok t" "proof_call_ok c" "exec_call c t = Ok t'" for t c t'
    using that by (auto intro: exec_call_wf proofs_ok_call)
  show "call_returns c" if "proof_call_ok c" for c
    using that by (cases c) (auto simp: call_returns_def)
  show "usable p" if "usable p1" "usable p2" "int (unat (ProofBatchFinal p1)) = int (unat (ProofBatch p2)) - 1"
    "ProofBatch p = ProofBatch p1" "ProofBatchFinal p = ProofBatchFinal p2" "ProofID p \<noteq> None" for p p1 p2
  proof -
    have "unat (ProofBatchFinal p1) \<le> unat (ProofBatch p2)" using that(3) by linarith
    then show ?thesis using that(1,2,4,5,6) by (auto simp: usable_def word_le_nat_alt)
  qed
qed (auto simp: proofs_ok_def usable_def)

section \<open>Running undisturbed\<close>

text \<open>
  An environment in which the database answers and nobody else writes to it. There the tables and
  the messages sent are all that matters of a state, and only writes change them.
\<close>

definition quiet :: "agg_env \<Rightarrow> bool" where
  "quiet env \<longleftrightarrow> (\<forall>n. env_others env n = [] \<and> env_db_ok env n)"

definition at_state :: "tables \<Rightarrow> final_proof_msg list \<Rightarrow> aggregator \<Rightarrow> bool" where
  "at_state t q s \<longleftrightarrow> agg_tables s = t \<and> agg_sent s = q"

named_theorems at_intros \<open>what a step does to the tables and the messages\<close>

lemma at_interact:
  assumes "quiet env" "\<And>n s. at_state t q s \<Longrightarrow> Q (Ok n) s"
  shows "triple (at_state t q) (interact env) Q"
  using assms by (auto simp: triple_def interact_def quiet_def at_state_def)

lemma at_ask:
  assumes "quiet env" "\<And>n s. at_state t q s \<Longrightarrow> Q (f n) s"
  shows "triple (at_state t q) (ask env f) Q"
  using assms by (auto simp: triple_def ask_def sbind_def lift_def interact_def quiet_def at_state_def)

lemma at_db_read:
  assumes "quiet env" "\<And>s. at_state t q s \<Longrightarrow> Q (map_err EStorage (f t)) s"
  shows "triple (at_state t q) (db_read env f) Q"
  using assms
  by (auto simp: triple_def db_read_def sbind_def lift_def getter_def interact_def quiet_def at_state_def)

lemma at_db_write:
  assumes "quiet env"
    "\<And>now t' s. exec_call (call now) t = Ok t' \<Longrightarrow> at_state t' q s \<Longrightarrow> Q (Ok ()) s"
    "\<And>now e s. exec_call (call now) t = Err e \<Longrightarrow> at_state t q s \<Longrightarrow> Q (Err (EStorage e)) s"
    "\<And>now s. exec_call (call now) t = Panic \<Longrightarrow> at_state t q s \<Longrightarrow> Q Panic s"
  shows "triple (at_state t q) (db_write env call) Q"
proof -
  have "Q r s'" if "agg_tables s = t" "agg_sent s = q" "db_write env call s = Some (r, s')" for s r s'
  proof (cases "exec_call (call (env_now env (agg_tick s))) t")
    case (Ok t')
    then show ?thesis
      using that assms(1) assms(2) [OF Ok]
      by (auto simp: db_write_def sbind_def lift_def getter_def modify_def interact_def quiet_def at_state_def)
  next
    case (Err e)
    then show ?thesis
      using that assms(1) assms(3) [OF Err]
      by (auto simp: db_write_def sbind_def lift_def getter_def modify_def interact_def quiet_def at_state_def)
  next
    case Panic
    then show ?thesis
      using that assms(1) assms(4) [OF Panic]
      by (auto simp: db_write_def sbind_def lift_def getter_def modify_def interact_def quiet_def at_state_def)
  qed
  then show ?thesis by (auto simp: triple_def at_state_def)
qed

text \<open>The calls of a transaction one after the other, each with a time of the clock.\<close>

fun run_calls :: "(int \<Rightarrow> storage_call) list \<Rightarrow> int list \<Rightarrow> tables \<Rightarrow> (storage_error, tables) outcome" where
  "run_calls (c # cs) (now # ts) t = obind (exec_call (c now) t) (run_calls cs ts)"
| "run_calls _ _ t = Ok t"

lemma tx_calls_quiet:
  "quiet env \<Longrightarrow> tx_calls env n cs t = run_calls cs (map (env_now env) [n..<n + length cs]) t"
proof (induction env n cs t rule: tx_calls.induct)
  case (2 env n c cs t)
  have "[n..<n + length (c # cs)] = n # [n + 1..<n + 1 + length cs]"
    by (subst upt_rec) simp
  with 2 show ?case by (cases "exec_call (c (env_now env n)) t") (auto simp: quiet_def)
qed simp

lemma at_transaction:
  assumes "quiet env"
    "\<And>ts t' s. length ts = length cs \<Longrightarrow> run_calls cs ts t = Ok t' \<Longrightarrow> at_state t' q s \<Longrightarrow> Q (Ok ()) s"
    "\<And>ts e s. length ts = length cs \<Longrightarrow> run_calls cs ts t = Err e \<Longrightarrow> at_state t q s \<Longrightarrow> Q (Err (EStorage e)) s"
    "\<And>ts s. length ts = length cs \<Longrightarrow> run_calls cs ts t = Panic \<Longrightarrow> at_state t q s \<Longrightarrow> Q Panic s"
  shows "triple (at_state t q) (transaction env cs) Q"
proof -
  have "Q r s'" if s: "agg_tables s = t" "agg_sent s = q" "transaction env cs s = Some (r, s')" for s r s'
  proof -
    let ?n = "Suc (agg_tick s)"
    let ?ts = "map (env_now env) [?n..<?n + length cs]"
    have r: "tx_calls env ?n cs t = run_calls cs ?ts t"
      by (rule tx_calls_quiet [OF assms(1)])
    have len: "length ?ts = length cs" by (simp del: upt_Suc)
    show ?thesis
      using s assms(1) r assms(2,3,4) [OF len]
      by (cases "run_calls cs ?ts t")
         (auto simp: transaction_def tx_body_def sbind_def getter_def modify_def fail_def crash_def interact_def
           quiet_def at_state_def simp del: upt_Suc)
  qed
  then show ?thesis by (auto simp: triple_def at_state_def)
qed

lemma at_time_now:
  "quiet env \<Longrightarrow> (\<And>now s. at_state t q s \<Longrightarrow> Q (Ok now) s) \<Longrightarrow> triple (at_state t q) (time_now env) Q"
  unfolding time_now_def by (rule at_ask)

lemma at_latest_verified:
  assumes "quiet env" "\<And>n s. at_state t q s \<Longrightarrow> Q (map_err EEtherman (GetLatestVerifiedBatchNum (env_etherman env n))) s"
  shows "triple (at_state t q) (latest_verified env) Q"
  unfolding latest_verified_def using assms by (rule at_ask)

lemma at_getter: "(\<And>x s. at_state t q s \<Longrightarrow> Q (Ok x) s) \<Longrightarrow> triple (at_state t q) (getter f) Q"
  by (auto simp: triple_def getter_def)

lemma at_wait_recursive:
  assumes "quiet env" "\<And>r s. at_state t q s \<Longrightarrow> Q (map_err EProver r) s"
  shows "triple (at_state t q) (wait_recursive env i) Q"
  unfolding wait_recursive_def
  by (rule triple_sbind [where P' = "\<lambda>_. at_state t q"])
     (use assms in \<open>auto simp: triple_def interact_def quiet_def at_state_def hang_def lift_def split: option.splits\<close>)

lemma at_wait_final:
  assumes "quiet env" "\<And>r s. at_state t q s \<Longrightarrow> Q (map_err EProver r) s"
  shows "triple (at_state t q) (wait_final env i) Q"
  unfolding wait_final_def
  by (rule triple_sbind [where P' = "\<lambda>_. at_state t q"])
     (use assms in \<open>auto simp: triple_def interact_def quiet_def at_state_def hang_def lift_def split: option.splits\<close>)


section \<open>Locks\<close>

text \<open>A proof is locked while its \<open>generating_since\<close> is set; \<open>locks\<close> has the keys of the locked rows.\<close>

definition locks :: "tables \<Rightarrow> (u64 \<times> u64) set" where
  "locks t = proof_key ` {p \<in> set (proof_table t). \<not> unlocked p}"

definition proof_keys :: "tables \<Rightarrow> (u64 \<times> u64) set" where
  "proof_keys t = proof_key ` set (proof_table t)"

lemma proof_key_updates [simp]:
  "proof_key (p\<lparr>GeneratingSince := g\<rparr>) = proof_key p" "proof_key (p\<lparr>ProofID := i\<rparr>) = proof_key p"
  "proof_key (p\<lparr>CreatedAt := c\<rparr>) = proof_key p" "proof_key (p\<lparr>UpdatedAt := c\<rparr>) = proof_key p"
  "unlocked (p\<lparr>ProofID := i\<rparr>) = unlocked p" "unlocked (p\<lparr>CreatedAt := c\<rparr>) = unlocked p"
  "unlocked (p\<lparr>UpdatedAt := c\<rparr>) = unlocked p"
  "unlocked (p\<lparr>GeneratingSince := Some n\<rparr>) = False" "unlocked (p\<lparr>GeneratingSince := None\<rparr>)"
  by (simp_all add: proof_key_def unlocked_def)

lemma proof_key_row_update: "proof_key (row_update now p r) = proof_key r"
  by (simp add: row_update_def same_key_iff)

lemma proof_keys_update:
  "UpdateGeneratedProof now p t = Ok t' \<Longrightarrow> proof_keys t' = proof_keys t"
  by (auto simp: UpdateGeneratedProof_def outcome_simps proof_keys_def image_image proof_key_row_update)

lemma locks_iff: "k \<in> locks t \<longleftrightarrow> (\<exists>r \<in> set (proof_table t). proof_key r = k \<and> \<not> unlocked r)"
  by (auto simp: locks_def)

lemma proof_keys_iff: "k \<in> proof_keys t \<longleftrightarrow> (\<exists>r \<in> set (proof_table t). proof_key r = k)"
  by (auto simp: proof_keys_def)

lemma unlocked_row_update:
  "unlocked (row_update now p r) = unlocked (if proof_key p = proof_key r then p else r)"
  by (simp add: row_update_def same_key_iff)

lemma locks_update:
  assumes "UpdateGeneratedProof now p t = Ok t'"
  shows "locks t' = (if proof_key p \<notin> proof_keys t then locks t
     else if unlocked p then locks t - {proof_key p} else insert (proof_key p) (locks t))"
proof -
  have t': "proof_table t' = map (row_update now p) (proof_table t)"
    using assms by (auto simp: UpdateGeneratedProof_def outcome_simps)
  have "k \<in> locks t' \<longleftrightarrow>
      (\<exists>r \<in> set (proof_table t). proof_key r = k \<and> \<not> unlocked (if proof_key p = k then p else r))" for k
    by (auto simp: locks_iff t' proof_key_row_update unlocked_row_update split: if_splits)
  then show ?thesis
    by (intro set_eqI) (auto simp: locks_iff proof_keys_iff split: if_splits)
qed

lemma unlocked_not_in_locks:
  assumes "tables_wf t" "p \<in> set (proof_table t)" "unlocked p"
  shows "proof_key p \<notin> locks t" "proof_key p \<in> proof_keys t" "bigint (ProofBatch p)" "bigint (ProofBatchFinal p)"
proof -
  have "inj_on proof_key (set (proof_table t))"
    using assms(1) by (simp add: tables_wf_def distinct_map)
  then show "proof_key p \<notin> locks t" using assms(2,3) by (auto simp: locks_def dest: inj_onD)
  show "proof_key p \<in> proof_keys t" using assms(2) by (simp add: proof_keys_def)
  show "bigint (ProofBatch p)" "bigint (ProofBatchFinal p)" using assms(1,2) by (auto simp: tables_wf_def)
qed

lemma update_Ok_iff:
  "(\<exists>t'. UpdateGeneratedProof now p t = Ok t') \<longleftrightarrow> bigint (ProofBatch p) \<and> bigint (ProofBatchFinal p)"
  by (auto simp: UpdateGeneratedProof_def outcome_simps)

end
