(* ===== verification/Agg_Final.thy ===== *)
theory Agg_Final
  imports Agg_Base
begin

text \<open>
  Final proofs in \<open>aggregator/aggregator.go\<close>: when one may be built (\<open>canVerifyProof\<close>), for which
  recursive proof (\<open>validateEligibleFinalProof\<close>, \<open>getAndLockProofReadyToVerify\<close>), how it is built
  (\<open>tryBuildFinalProof\<close>) and how it is settled (\<open>sendFinalProof\<close>, directly on L1 or through the
  agglayer).
\<close>

section \<open>The turn to verify\<close>

definition canVerifyProof :: "agg_env \<Rightarrow> bool step" where
  "canVerifyProof env =
     sbind (time_now env) (\<lambda>now.
     getter (\<lambda>s. agg_timeSendFinalProof s < now \<and> \<not> agg_verifyingProof s))"

definition startProofVerification :: "unit step" where
  "startProofVerification = modify (\<lambda>s. s\<lparr>agg_verifyingProof := True\<rparr>)"

definition endProofVerification :: "unit step" where
  "endProofVerification = modify (\<lambda>s. s\<lparr>agg_verifyingProof := False\<rparr>)"

definition resetVerifyProofTime :: "agg_env \<Rightarrow> unit step" where
  "resetVerifyProofTime env =
     sbind (time_now env) (\<lambda>now.
     modify (\<lambda>s. s\<lparr>agg_timeSendFinalProof := now + VerifyProofInterval (env_cfg env)\<rparr>))"

section \<open>Choosing the proof\<close>

definition getAndLockProofReadyToVerify :: "agg_env \<Rightarrow> u64 \<Rightarrow> state_proof step" where
  "getAndLockProofReadyToVerify env lastVerifiedBatchNum =
     sbind (db_read env (GetProofReadyToVerify lastVerifiedBatchNum)) (\<lambda>proofToVerify.
     sbind (time_now env) (\<lambda>now.
     let proofToVerify = proofToVerify\<lparr>GeneratingSince := Some now\<rparr> in
     sbind (db_write env (\<lambda>t. CallUpdateProof t proofToVerify)) (\<lambda>_.
     ret proofToVerify)))"

definition validateEligibleFinalProof :: "agg_env \<Rightarrow> state_proof \<Rightarrow> u64 \<Rightarrow> bool step" where
  "validateEligibleFinalProof env proof lastVerifiedBatchNum =
     (let batchNumberToVerify = lastVerifiedBatchNum + 1;
          check = db_read env (CheckProofContainsCompleteSequences proof)
      in if ProofBatch proof \<noteq> batchNumberToVerify then
           if ProofBatch proof < batchNumberToVerify \<and> ProofBatchFinal proof \<ge> batchNumberToVerify then check
           else if ProofBatchFinal proof < batchNumberToVerify then
             sbind (db_write env (\<lambda>_. CallDeleteProofs (ProofBatch proof) (ProofBatchFinal proof))) (\<lambda>_. ret False)
           else ret False
         else check)"

section \<open>Building the final proof\<close>

definition mockedStateRoot :: string where
  "mockedStateRoot = ''0x090bcaf734c4f06c93954a827b45a6e8c67b8e0fd1e0a35a1c5982d6961828f9''"

definition mockedLocalExitRoot :: string where
  "mockedLocalExitRoot = ''0x17c04c3760510b48c6012742c540a81aba4bca2f78b9d14bfd2f123e2e53ea3e''"

text \<open>The roots of a mock prover are replaced by those of the last batch.\<close>

definition mock_sanity_check :: "agg_env \<Rightarrow> state_proof \<Rightarrow> final_proof \<Rightarrow> final_proof step" where
  "mock_sanity_check env proof f =
     (if NewStateRoot (fp_Public f) = text_bytes mockedStateRoot \<and>
         NewLocalExitRoot (fp_Public f) = text_bytes mockedLocalExitRoot then
        sbind (db_read env (GetBatch (ProofBatchFinal proof))) (\<lambda>finalDBBatch.
        ret (f\<lparr>fp_Public := \<lparr>NewStateRoot = hash_bytes (StateRoot (Batch finalDBBatch)),
                            NewLocalExitRoot = hash_bytes (LocalExitRoot (Batch finalDBBatch))\<rparr>\<rparr>))
      else ret f)"

text \<open>
  \<open>buildFinalProof\<close> overwrites the identifier of the proof its caller holds, also when it then fails:
  it gives the proof as it leaves it, and its result.
\<close>

definition buildFinalProof :: "agg_env \<Rightarrow> state_proof \<Rightarrow> (state_proof \<times> final_proof result) step" where
  "buildFinalProof env proof =
     (case ProofID proof of
        None \<Rightarrow> crash
      | Some _ \<Rightarrow>
          sbind (attempt (ask env (\<lambda>n. map_err EProver
            (FinalProofRequest (env_prover env n) (ProofText proof) (SenderAddress (env_cfg env)))))) (\<lambda>r.
          case r of
            Err e \<Rightarrow> ret (proof, Err e)
          | Panic \<Rightarrow> crash
          | Ok finalProofID \<Rightarrow>
              let proof = proof\<lparr>ProofID := Some finalProofID\<rparr> in
              sbind (attempt (sbind (wait_final env finalProofID) (mock_sanity_check env proof))) (\<lambda>r.
              ret (proof, r))))"

text \<open>
  The rest of \<open>tryBuildFinalProof\<close> once a proof is chosen. \<open>locked_here\<close> says that this call has
  locked it; then a build that fails releases it. A context that is done while the message waits
  for its receiver does not release it: the variable the deferred function looks at is still \<open>nil\<close>.
\<close>

definition build_and_send :: "agg_env \<Rightarrow> prover \<Rightarrow> bool \<Rightarrow> state_proof \<Rightarrow> (state_proof \<times> bool result) step" where
  "build_and_send env pr locked_here proof =
     sbind (buildFinalProof env proof) (\<lambda>(proof, r).
     case r of
       Err e \<Rightarrow>
         if locked_here then
           let proof = proof\<lparr>GeneratingSince := None\<rparr> in
           sbind (attempt (db_write env (\<lambda>t. CallUpdateProof t proof))) (\<lambda>_. ret (proof, Err e))
         else ret (proof, Err e)
     | Panic \<Rightarrow> crash
     | Ok finalProof \<Rightarrow>
         sbind (interact env) (\<lambda>n.
         if env_ctx_done env n then ret (proof, Err EContext)
         else
           sbind (modify (\<lambda>s. s\<lparr>agg_sent := agg_sent s @
             [\<lparr>msg_proverName = prover_name pr, msg_proverID = prover_id pr,
               msg_recursiveProof = proof, msg_finalProof = finalProof\<rparr>]\<rparr>)) (\<lambda>_.
           ret (proof, Ok True))))"

text \<open>
  The argument is \<open>None\<close> for \<open>nil\<close>; the result has the proof as the call leaves it in memory.
\<close>

definition tryBuildFinalProof ::
    "agg_env \<Rightarrow> prover \<Rightarrow> state_proof option \<Rightarrow> (state_proof option \<times> bool result) step" where
  "tryBuildFinalProof env pr proof =
     sbind (canVerifyProof env) (\<lambda>can.
     if \<not> can then ret (proof, Ok False)
     else
       sbind (attempt (latest_verified env)) (\<lambda>v.
       case v of
         Err e \<Rightarrow> ret (proof, Err e)
       | Panic \<Rightarrow> crash
       | Ok lastVerifiedBatchNumber \<Rightarrow>
         (case proof of
            None \<Rightarrow>
              sbind (attempt (getAndLockProofReadyToVerify env lastVerifiedBatchNumber)) (\<lambda>r.
              case r of
                Err e \<Rightarrow> ret (None, if e = EStorage ErrNotFound then Ok False else Err e)
              | Panic \<Rightarrow> crash
              | Ok p \<Rightarrow> sbind (build_and_send env pr True p) (\<lambda>(p, r). ret (Some p, r)))
          | Some p \<Rightarrow>
              sbind (attempt (validateEligibleFinalProof env p lastVerifiedBatchNumber)) (\<lambda>r.
              case r of
                Err e \<Rightarrow> ret (Some p, Err e)
              | Panic \<Rightarrow> crash
              | Ok eligible \<Rightarrow>
                  if \<not> eligible then ret (Some p, Ok False)
                  else sbind (build_and_send env pr False p) (\<lambda>(p, r). ret (Some p, r))))))"

section \<open>Settling\<close>

definition handleFailureToAddVerifyBatchToBeMonitored :: "agg_env \<Rightarrow> state_proof \<Rightarrow> unit step" where
  "handleFailureToAddVerifyBatchToBeMonitored env proof =
     (let proof = proof\<lparr>GeneratingSince := None\<rparr> in
      sbind (attempt (db_write env (\<lambda>t. CallUpdateProof t proof))) (\<lambda>_. endProofVerification))"

definition agglayer_tx :: "agg_env \<Rightarrow> u32 \<Rightarrow> state_proof \<Rightarrow> final_proof_inputs \<Rightarrow> agg_tx" where
  "agglayer_tx env rollup proof inputs =
     \<lparr>tx_RollupID = rollup, tx_LastVerifiedBatch = ProofBatch proof - 1,
      tx_NewVerifiedBatch = ProofBatchFinal proof,
      tx_ZKP = \<lparr>zkp_NewStateRoot = bytes_to_hash (fpi_NewStateRoot inputs),
                zkp_NewLocalExitRoot = bytes_to_hash (fpi_NewLocalExitRoot inputs),
                zkp_Proof = hex2bytes (trim_prefix_0x (fp_Proof (fpi_FinalProof inputs)))\<rparr>\<rparr>"

text \<open>The three calls of the agglayer path; whatever fails is handled in the same way.\<close>

definition agglayer_calls :: "agg_env \<Rightarrow> state_proof \<Rightarrow> final_proof_inputs \<Rightarrow> unit step" where
  "agglayer_calls env proof inputs =
     sbind (ask env (\<lambda>n.
       let tx = agglayer_tx env (GetRollupId (env_etherman env n)) proof inputs in
       map_err (\<lambda>_. ESign) (tx_Sign (lib_agglayer (env_lib env)) (\<lambda>_::unit. env_sign env n) () tx))) (\<lambda>signedTx.
     sbind (ask env (\<lambda>n. map_err EAgglayer (SendTx (env_send env n) signedTx))) (\<lambda>txHash.
     sbind (interact env) (\<lambda>n.
     case WaitTxToBeMined (env_mined env n) txHash of
       None \<Rightarrow> hang
     | Some r \<Rightarrow> lift (map_err EAgglayer r))))"

definition settleWithAggLayer :: "agg_env \<Rightarrow> state_proof \<Rightarrow> final_proof_inputs \<Rightarrow> bool step" where
  "settleWithAggLayer env proof inputs =
     sbind (attempt (agglayer_calls env proof inputs)) (\<lambda>r.
     case r of
       Ok _ \<Rightarrow> ret True
     | Panic \<Rightarrow> crash
     | Err e \<Rightarrow> sbind (handleFailureToAddVerifyBatchToBeMonitored env proof) (\<lambda>_. ret False))"

definition direct_calls :: "agg_env \<Rightarrow> state_proof \<Rightarrow> final_proof_inputs \<Rightarrow> unit step" where
  "direct_calls env proof inputs =
     sbind (ask env (\<lambda>n.
       let (auth_ok, order) = env_auth env n in
       map_err EEtherman (BuildTrustedVerifyBatchesTxData auth_ok order (env_etherman env n)
         (ProofBatch proof - 1) (ProofBatchFinal proof) inputs (hex_to_address (SenderAddress (env_cfg env)))))) (\<lambda>_.
     ask env (\<lambda>n. if env_eth_add env n then Ok () else Err EEthTxManager))"

text \<open>\<open>handleMonitoredTxResult\<close>: a transaction that failed ends the process.\<close>

definition handleMonitoredTxResult :: "bool \<Rightarrow> unit step" where
  "handleMonitoredTxResult failed = (if failed then crash else ret ())"

fun process_results :: "bool list \<Rightarrow> unit step" where
  "process_results [] = ret ()"
| "process_results (r # rs) = sbind (handleMonitoredTxResult r) (\<lambda>_. process_results rs)"

definition settleDirect :: "agg_env \<Rightarrow> state_proof \<Rightarrow> final_proof_inputs \<Rightarrow> bool step" where
  "settleDirect env proof inputs =
     sbind (attempt (direct_calls env proof inputs)) (\<lambda>r.
     case r of
       Err e \<Rightarrow> sbind (handleFailureToAddVerifyBatchToBeMonitored env proof) (\<lambda>_. ret False)
     | Panic \<Rightarrow> crash
     | Ok _ \<Rightarrow>
         sbind (interact env) (\<lambda>n.
         sbind (process_results (env_monitored env n)) (\<lambda>_. ret True)))"

text \<open>One message of the loop of \<open>sendFinalProof\<close>.\<close>

definition sendFinalProof :: "agg_env \<Rightarrow> final_proof_msg \<Rightarrow> unit step" where
  "sendFinalProof env msg =
     (let proof = msg_recursiveProof msg in
      sbind startProofVerification (\<lambda>_.
      sbind (attempt (db_read env (GetBatch (ProofBatchFinal proof)))) (\<lambda>r.
      case r of
        Err e \<Rightarrow> endProofVerification
      | Panic \<Rightarrow> crash
      | Ok finalDBBatch \<Rightarrow>
          let inputs = \<lparr>fpi_FinalProof = msg_finalProof msg,
                        fpi_NewLocalExitRoot = hash_bytes (LocalExitRoot (Batch finalDBBatch)),
                        fpi_NewStateRoot = hash_bytes (StateRoot (Batch finalDBBatch))\<rparr> in
          sbind (case SettlementBackend (env_cfg env) of
                   AggLayer \<Rightarrow> settleWithAggLayer env proof inputs
                 | L1 \<Rightarrow> settleDirect env proof inputs) (\<lambda>success.
          if \<not> success then ret ()
          else sbind (resetVerifyProofTime env) (\<lambda>_. endProofVerification)))))"

section \<open>Invariants\<close>


lemma GetProofReadyToVerify_Ok:
  "GetProofReadyToVerify v t = Ok p \<Longrightarrow> p \<in> set (proof_table t) \<and> unlocked p \<and> ProofBatch p = v + 1 \<and>
     sequence_starts t (ProofBatch p) \<and> sequence_ends t (ProofBatchFinal p)"
  by (auto simp: GetProofReadyToVerify_def outcome_simps filter_eq_Cons_iff split: list.splits)

lemma reads_return [simp]:
  "GetProofReadyToVerify v t \<noteq> Panic" "CheckProofContainsCompleteSequences p t \<noteq> Panic"
  "GetBatch n t \<noteq> Panic" "GetProofsToAggregate t \<noteq> Panic" "CheckProofExistsForBatch n t \<noteq> Panic"
  by (auto simp: GetProofReadyToVerify_def CheckProofContainsCompleteSequences_def GetBatch_def
      GetProofsToAggregate_def CheckProofExistsForBatch_def outcome_simps split: list.splits option.splits)

lemma wait_tx_no_panic: "WaitTxToBeMined es h = Some r \<Longrightarrow> r \<noteq> Panic"
  by (induction es h rule: WaitTxToBeMined.induct) (auto split: rpc_reply.splits option.splits if_splits)

text \<open>
  No transaction of a final proof fails on L1 (the process would end), and the bindings return.
\<close>

definition sane_l1 :: "agg_env \<Rightarrow> bool" where
  "sane_l1 env \<longleftrightarrow>
     (\<forall>n. True \<notin> set (env_monitored env n) \<and>
        (\<forall>auth order a b inputs addr.
          BuildTrustedVerifyBatchesTxData auth order (env_etherman env n) a b inputs addr \<noteq> Panic))"

context proof_invariant begin

lemma keeps_canVerifyProof: "others_allowed env \<Longrightarrow> keeps S I W any (canVerifyProof env)"
  unfolding canVerifyProof_def by (rule keeps_sbind [OF keeps_time_now keeps_getter])

lemma keeps_turn:
  "keeps S I W any startProofVerification" "keeps S I W any endProofVerification"
  "others_allowed env \<Longrightarrow> keeps S I W any (resetVerifyProofTime env)"
  unfolding startProofVerification_def endProofVerification_def resetVerifyProofTime_def
  by (auto intro!: keeps_modify keeps_sbind [OF keeps_time_now])

lemma keeps_getAndLockProofReadyToVerify:
  assumes "others_allowed env"
  shows "keeps S I W U (getAndLockProofReadyToVerify env v)"
  unfolding getAndLockProofReadyToVerify_def Let_def
proof (rule keeps_sbind)
  show "keeps S I W U (db_read env (GetProofReadyToVerify v))"
    using assms unlocked_usable by (auto intro!: keeps_db_read dest!: GetProofReadyToVerify_Ok)
  show "keeps S I W U (sbind (time_now env) (\<lambda>now.
      sbind (db_write env (\<lambda>t. CallUpdateProof t (p\<lparr>GeneratingSince := Some now\<rparr>))) (\<lambda>_.
      ret (p\<lparr>GeneratingSince := Some now\<rparr>))))" if "U p" for p
    using assms that
    by (intro keeps_sbind [OF keeps_time_now] keeps_sbind [OF keeps_db_write] keeps_simple update_allowed usable_lock)
qed

lemma keeps_validateEligibleFinalProof:
  assumes "others_allowed env"
  shows "keeps S I W any (validateEligibleFinalProof env p v)"
proof -
  have "keeps S I W any (db_read env (CheckProofContainsCompleteSequences p))"
    by (rule keeps_db_read [OF assms]) auto
  moreover have "keeps S I W any (sbind (db_write env (\<lambda>_. CallDeleteProofs a b)) (\<lambda>_. ret False))" for a b
    using delete_allowed by (intro keeps_sbind [OF keeps_db_write [OF assms]] keeps_simple) auto
  ultimately show ?thesis
    by (simp add: validateEligibleFinalProof_def Let_def keeps_simple)
qed

lemma keeps_mock_sanity_check:
  assumes "others_allowed env"
  shows "keeps S I W any (mock_sanity_check env p f)"
  unfolding mock_sanity_check_def using assms
  by (auto intro!: keeps_sbind [OF keeps_db_read] keeps_simple)

lemma keeps_buildFinalProof:
  assumes "others_allowed env" "S \<Longrightarrow> sane_prover env" "U p"
  shows "keeps S I W (\<lambda>(p', r). U p' \<and> r \<noteq> Panic) (buildFinalProof env p)"
proof (cases "ProofID p")
  case None
  then have "\<not> S" using assms(3) usable_id by blast
  then show ?thesis using None by (simp add: buildFinalProof_def keeps_simple)
next
  case (Some i)
  have final: "keeps S I W any (sbind (wait_final env j) (mock_sanity_check env q))" if "final_id env j" for j q
    using assms(1,2) that by (intro keeps_sbind [OF keeps_wait_final] keeps_mock_sanity_check conjI)
  show ?thesis
    unfolding buildFinalProof_def Some option.case Let_def
  proof (rule keeps_attempt_sbind)
    show "keeps S I W (final_id env) (ask env (\<lambda>n. map_err EProver
        (FinalProofRequest (env_prover env n) (ProofText p) (SenderAddress (env_cfg env)))))"
      unfolding final_id_def using FinalProof_cases by (intro keeps_ask [OF assms(1)]) (auto simp: outcome_simps)
    show "keeps S I W (\<lambda>(p', r). U p' \<and> r \<noteq> Panic)
        (case Ok j of Err e \<Rightarrow> ret (p, Err e) | Panic \<Rightarrow> crash
         | Ok j \<Rightarrow> sbind (attempt (sbind (wait_final env j) (mock_sanity_check env (p\<lparr>ProofID := Some j\<rparr>))))
             (\<lambda>r. ret (p\<lparr>ProofID := Some j\<rparr>, r)))" if "final_id env j" for j
      using assms(3) that by (auto intro!: keeps_sbind [OF keeps_attempt [OF final]] keeps_simple usable_rename)
  qed (use assms(3) in \<open>simp add: keeps_simple\<close>)
qed

lemma keeps_build_and_send:
  assumes "others_allowed env" "S \<Longrightarrow> sane_prover env" "U p"
  shows "keeps S I W (\<lambda>(p', r). U p' \<and> r \<noteq> Panic) (build_and_send env pr here p)"
  unfolding build_and_send_def
proof (rule keeps_sbind [OF keeps_buildFinalProof [OF assms]])
  fix x :: "state_proof \<times> final_proof result"
  obtain q r where x: "x = (q, r)" by (cases x)
  assume "case x of (p', r) \<Rightarrow> U p' \<and> r \<noteq> Panic"
  then have q: "U q" "r \<noteq> Panic" by (simp_all add: x)
  have unlock: "keeps S I W any (attempt (db_write env (\<lambda>t. CallUpdateProof t (q\<lparr>GeneratingSince := None\<rparr>))))"
    using q by (intro keeps_weaken [OF keeps_attempt [OF keeps_db_write [OF assms(1)]]] update_allowed usable_lock) auto
  show "keeps S I W (\<lambda>(p', r). U p' \<and> r \<noteq> Panic)
     (case x of (proof, r) \<Rightarrow>
       (case r of
          Err e \<Rightarrow>
            if here then
              let proof = proof\<lparr>GeneratingSince := None\<rparr> in
              sbind (attempt (db_write env (\<lambda>t. CallUpdateProof t proof))) (\<lambda>_. ret (proof, Err e))
            else ret (proof, Err e)
        | Panic \<Rightarrow> crash
        | Ok finalProof \<Rightarrow>
            sbind (interact env) (\<lambda>n.
            if env_ctx_done env n then ret (proof, Err EContext)
            else
              sbind (modify (\<lambda>s. s\<lparr>agg_sent := agg_sent s @
                [\<lparr>msg_proverName = prover_name pr, msg_proverID = prover_id pr,
                  msg_recursiveProof = proof, msg_finalProof = finalProof\<rparr>]\<rparr>)) (\<lambda>_.
              ret (proof, Ok True)))))"
    using q unlock assms(1)
    by (cases r)
       (auto simp: x Let_def intro!: keeps_simple keeps_sbind [OF unlock] keeps_sbind [OF keeps_interact]
         keeps_sbind [OF keeps_modify] send_usable usable_lock)
qed

lemma keeps_tryBuildFinalProof:
  assumes "others_allowed env" "S \<Longrightarrow> sane_prover env" "\<And>p. po = Some p \<Longrightarrow> U p"
  shows "keeps S I W (\<lambda>(po', r). (\<forall>p. po \<noteq> None \<longrightarrow> po' = Some p \<longrightarrow> U p) \<and> (po \<noteq> None \<longrightarrow> po' \<noteq> None) \<and> r \<noteq> Panic)
    (tryBuildFinalProof env pr po)" (is "keeps S I W ?C _")
proof -
  have sent: "keeps S I W ?C (sbind (build_and_send env pr here p) (\<lambda>(p, r). ret (Some p, r)))" if "U p" for p here
    by (rule keeps_sbind [OF keeps_build_and_send [OF assms(1,2) that]]) (auto intro!: keeps_simple)
  have chosen: "keeps S I W ?C
     (case po of
        None \<Rightarrow>
          sbind (attempt (getAndLockProofReadyToVerify env v)) (\<lambda>r.
          case r of
            Err e \<Rightarrow> ret (None, if e = EStorage ErrNotFound then Ok False else Err e)
          | Panic \<Rightarrow> crash
          | Ok p \<Rightarrow> sbind (build_and_send env pr True p) (\<lambda>(p, r). ret (Some p, r)))
      | Some p \<Rightarrow>
          sbind (attempt (validateEligibleFinalProof env p v)) (\<lambda>r.
          case r of
            Err e \<Rightarrow> ret (Some p, Err e)
          | Panic \<Rightarrow> crash
          | Ok eligible \<Rightarrow>
              if \<not> eligible then ret (Some p, Ok False)
              else sbind (build_and_send env pr False p) (\<lambda>(p, r). ret (Some p, r))))" for v
  proof (cases po)
    case None
    then show ?thesis
      using sent
      by (auto intro!: keeps_attempt_sbind [OF keeps_getAndLockProofReadyToVerify [OF assms(1)]] keeps_simple)
  next
    case (Some p)
    then show ?thesis
      using sent [of p] assms(3)
      by (auto intro!: keeps_attempt_sbind [OF keeps_validateEligibleFinalProof [OF assms(1)]] keeps_simple)
  qed
  show ?thesis
    unfolding tryBuildFinalProof_def
  proof (rule keeps_sbind [OF keeps_canVerifyProof [OF assms(1)]])
    fix can :: bool
    show "keeps S I W ?C
      (if \<not> can then ret (po, Ok False)
       else
         sbind (attempt (latest_verified env)) (\<lambda>v.
         case v of
           Err e \<Rightarrow> ret (po, Err e)
         | Panic \<Rightarrow> crash
         | Ok v \<Rightarrow>
           (case po of
              None \<Rightarrow>
                sbind (attempt (getAndLockProofReadyToVerify env v)) (\<lambda>r.
                case r of
                  Err e \<Rightarrow> ret (None, if e = EStorage ErrNotFound then Ok False else Err e)
                | Panic \<Rightarrow> crash
                | Ok p \<Rightarrow> sbind (build_and_send env pr True p) (\<lambda>(p, r). ret (Some p, r)))
            | Some p \<Rightarrow>
                sbind (attempt (validateEligibleFinalProof env p v)) (\<lambda>r.
                case r of
                  Err e \<Rightarrow> ret (Some p, Err e)
                | Panic \<Rightarrow> crash
                | Ok eligible \<Rightarrow>
                    if \<not> eligible then ret (Some p, Ok False)
                    else sbind (build_and_send env pr False p) (\<lambda>(p, r). ret (Some p, r))))))"
      using chosen assms(3)
      by (auto intro!: keeps_attempt_sbind [OF keeps_latest_verified [OF assms(1)]] keeps_simple)
  qed
qed

lemma keeps_handleFailure:
  assumes "others_allowed env" "U p"
  shows "keeps S I W any (handleFailureToAddVerifyBatchToBeMonitored env p)"
  unfolding handleFailureToAddVerifyBatchToBeMonitored_def Let_def using assms
  by (intro keeps_sbind [OF keeps_attempt [OF keeps_db_write]] keeps_turn update_allowed usable_lock)

lemma keeps_settleWithAggLayer:
  assumes "others_allowed env" "U p"
  shows "keeps S I W any (settleWithAggLayer env p inputs)"
proof -
  have "keeps S I W any (agglayer_calls env p inputs)"
    unfolding agglayer_calls_def
    by (intro keeps_sbind [where C = any] keeps_ask [OF assms(1)] keeps_interact [OF assms(1)])
       (auto simp: outcome_simps Let_def tx_Sign_def SendTx_def wait_tx_no_panic
         split: option.splits rpc_reply.splits intro!: keeps_lift keeps_simple)
  then show ?thesis
    unfolding settleWithAggLayer_def
    by (rule keeps_attempt_sbind)
       (auto intro!: keeps_simple keeps_sbind [OF keeps_handleFailure [OF assms]])
qed

lemma keeps_settleDirect:
  assumes "others_allowed env" "U p" "S \<Longrightarrow> sane_l1 env"
  shows "keeps S I W any (settleDirect env p inputs)"
proof -
  have results: "keeps S I W any (process_results rs)" if "S \<Longrightarrow> True \<notin> set rs" for rs
    using that by (induction rs) (auto simp: handleMonitoredTxResult_def intro!: keeps_sbind keeps_simple)
  have "keeps S I W any (direct_calls env p inputs)"
    unfolding direct_calls_def using assms(3)
    by (intro keeps_sbind [where C = any] keeps_ask [OF assms(1)])
       (auto simp: outcome_simps sane_l1_def split: prod.splits)
  then show ?thesis
    unfolding settleDirect_def
    by (rule keeps_attempt_sbind)
       (use assms(3) in \<open>auto simp: sane_l1_def intro!: keeps_simple
          keeps_sbind [OF keeps_handleFailure [OF assms(1,2)]] keeps_sbind [OF keeps_interact [OF assms(1)]]
          keeps_sbind [OF results]\<close>)
qed

lemma keeps_sendFinalProof:
  assumes "others_allowed env" "U (msg_recursiveProof msg)" "S \<Longrightarrow> sane_l1 env"
  shows "keeps S I W any (sendFinalProof env msg)"
proof -
  have settle: "keeps S I W any (sbind (case b of
        AggLayer \<Rightarrow> settleWithAggLayer env (msg_recursiveProof msg) inputs
      | L1 \<Rightarrow> settleDirect env (msg_recursiveProof msg) inputs) (\<lambda>success.
      if \<not> success then ret () else sbind (resetVerifyProofTime env) (\<lambda>_. endProofVerification)))" for b inputs
    using keeps_settleWithAggLayer [OF assms(1,2)] keeps_settleDirect [OF assms] keeps_turn assms(1)
    by (cases b) (auto intro!: keeps_sbind [where C = any] keeps_simple)
  show ?thesis
    unfolding sendFinalProof_def Let_def
    by (rule keeps_sbind [OF keeps_turn(1)], rule keeps_attempt_sbind [OF keeps_db_read [OF assms(1)], where C = any])
       (auto intro!: settle keeps_turn)
qed

end

end
