(* ===== verification/Agg_Final_Runs.thy ===== *)
theory Agg_Final_Runs
  imports Agg_Final
begin

text \<open>
  What an undisturbed call of \<open>tryBuildFinalProof\<close> leaves behind: which locks, which message, and for
  which proof.
\<close>

section \<open>Undisturbed runs\<close>

text \<open>\<open>reads t q C m\<close>: \<open>m\<close> changes neither tables nor messages; its value has \<open>C\<close>, its error is not \<open>EContext\<close>.\<close>

definition reads :: "tables \<Rightarrow> final_proof_msg list \<Rightarrow> ('a \<Rightarrow> bool) \<Rightarrow> 'a step \<Rightarrow> bool" where
  "reads t q C m \<longleftrightarrow>
     triple (at_state t q) m (\<lambda>r s. at_state t q s \<and> (\<forall>x. r = Ok x \<longrightarrow> C x) \<and> r \<noteq> Err EContext)"

lemma reads_sbind:
  assumes "reads t q C m" "\<And>x. C x \<Longrightarrow> reads t q D (f x)"
  shows "reads t q D (sbind m f)"
  unfolding reads_def
proof (rule triple_sbind [where P' = "\<lambda>x s. at_state t q s \<and> C x"])
  show "triple (at_state t q) m (seq_post (\<lambda>x s. at_state t q s \<and> C x)
      (\<lambda>r s. at_state t q s \<and> (\<forall>x. r = Ok x \<longrightarrow> D x) \<and> r \<noteq> Err EContext))"
    using assms(1) unfolding reads_def by (rule triple_post) (auto simp: seq_post_def split: outcome.split)
  show "triple (\<lambda>s. at_state t q s \<and> C x) (f x)
      (\<lambda>r s. at_state t q s \<and> (\<forall>x. r = Ok x \<longrightarrow> D x) \<and> r \<noteq> Err EContext)" for x
    using assms(2) [of x] by (fastforce simp: reads_def triple_def)
qed

lemma reads_attempt: "reads t q C m \<Longrightarrow> reads t q (\<lambda>r. r \<noteq> Panic \<and> r \<noteq> Err EContext \<and> (\<forall>x. r = Ok x \<longrightarrow> C x)) (attempt m)"
  unfolding reads_def by (rule triple_attempt) (erule triple_post, auto split: outcome.split)

lemma reads_simple: "C x \<Longrightarrow> reads t q C (ret x)" "reads t q C crash" "reads t q C hang"
  by (simp_all add: reads_def triple_def ret_def crash_def hang_def)

lemma reads_ask:
  "quiet env \<Longrightarrow> (\<And>n x. f n = Ok x \<Longrightarrow> C x) \<Longrightarrow> (\<And>n. f n \<noteq> Err EContext) \<Longrightarrow> reads t q C (ask env f)"
  unfolding reads_def by (rule at_ask) auto

lemma reads_db_read: "quiet env \<Longrightarrow> (\<And>x. f t = Ok x \<Longrightarrow> C x) \<Longrightarrow> reads t q C (db_read env f)"
  unfolding reads_def by (rule at_db_read) (auto simp: outcome_simps)

lemma reads_time_now: "quiet env \<Longrightarrow> reads t q any (time_now env)"
  unfolding reads_def by (rule at_time_now) auto

lemma reads_wait: "quiet env \<Longrightarrow> reads t q any (wait_recursive env i)" "quiet env \<Longrightarrow> reads t q any (wait_final env i)"
  unfolding reads_def by (rule at_wait_recursive at_wait_final; auto simp: outcome_simps)+

lemma reads_getter: "reads t q any (getter f)"
  unfolding reads_def by (rule at_getter) auto

lemma reads_latest_verified:
  "quiet env \<Longrightarrow> reads t q (\<lambda>v. \<exists>n. GetLatestVerifiedBatchNum (env_etherman env n) = Ok v) (latest_verified env)"
  unfolding reads_def by (rule at_latest_verified) (auto simp: outcome_simps)

lemma reads_canVerifyProof: "quiet env \<Longrightarrow> reads t q any (canVerifyProof env)"
  unfolding canVerifyProof_def by (intro reads_sbind [OF reads_time_now] reads_getter)

lemma reads_buildFinalProof:
  assumes "quiet env"
  shows "reads t q (\<lambda>(p', r). proof_key p' = proof_key p \<and> unlocked p' = unlocked p \<and> r \<noteq> Err EContext) (buildFinalProof env p)"
proof (cases "ProofID p")
  case (Some i)
  have mock: "reads t q any (mock_sanity_check env p' f)" for p' f
    unfolding mock_sanity_check_def using assms
    by (auto intro!: reads_sbind [OF reads_db_read [where C = any]] reads_simple)
  show ?thesis
    unfolding buildFinalProof_def Some option.case Let_def
  proof (rule reads_sbind [OF reads_attempt [OF reads_ask [OF assms, where C = any]]])
    fix r :: "string result" assume r: "r \<noteq> Panic \<and> r \<noteq> Err EContext \<and> (\<forall>x. r = Ok x \<longrightarrow> True)"
    show "reads t q (\<lambda>(p', r). proof_key p' = proof_key p \<and> unlocked p' = unlocked p \<and> r \<noteq> Err EContext)
      (case r of Err e \<Rightarrow> ret (p, Err e) | Panic \<Rightarrow> crash
       | Ok j \<Rightarrow> sbind (attempt (sbind (wait_final env j) (mock_sanity_check env (p\<lparr>ProofID := Some j\<rparr>))))
           (\<lambda>r. ret (p\<lparr>ProofID := Some j\<rparr>, r)))"
    proof (cases r)
      case (Ok j)
      have "reads t q any (sbind (wait_final env j) (mock_sanity_check env (p\<lparr>ProofID := Some j\<rparr>)))"
        by (intro reads_sbind [OF reads_wait(2) [OF assms]] mock)
      then show ?thesis
        unfolding Ok outcome.case by (rule reads_sbind [OF reads_attempt]) (auto intro!: reads_simple)
    qed (use r in \<open>auto intro!: reads_simple\<close>)
  qed (auto simp: outcome_simps)
qed (simp add: buildFinalProof_def reads_simple)

text \<open>What \<open>build_and_send\<close> has done to tables \<open>t\<close> and messages \<open>q\<close> when it returns.\<close>

definition sent_or_released ::
    "bool \<Rightarrow> tables \<Rightarrow> final_proof_msg list \<Rightarrow> state_proof \<Rightarrow> state_proof \<times> bool result \<Rightarrow> aggregator \<Rightarrow> bool" where
  "sent_or_released here t q p x s \<longleftrightarrow>
     (case x of (p', r) \<Rightarrow>
        proof_key p' = proof_key p \<and>
        (case r of
           Ok True \<Rightarrow> agg_tables s = t \<and> (\<exists>m. agg_sent s = q @ [m] \<and> msg_recursiveProof m = p')
         | Err e \<Rightarrow>
             agg_sent s = q \<and>
             (if here \<and> e \<noteq> EContext then
                agg_tables s = t \<and> \<not> (bigint (ProofBatch p) \<and> bigint (ProofBatchFinal p)) \<or>
                (\<exists>now. UpdateGeneratedProof now p' t = Ok (agg_tables s) \<and> unlocked p')
              else agg_tables s = t)
         | _ \<Rightarrow> False))"

lemma at_build_and_send:
  assumes "quiet env"
  shows "triple (at_state t q) (build_and_send env pr here p) (\<lambda>r s. \<forall>x. r = Ok x \<longrightarrow> sent_or_released here t q p x s)"
  unfolding build_and_send_def
proof (rule triple_sbind [OF triple_post [OF reads_buildFinalProof [OF assms, unfolded reads_def]],
      where P' = "\<lambda>(p', r) s. at_state t q s \<and> proof_key p' = proof_key p \<and> unlocked p' = unlocked p \<and> r \<noteq> Err EContext"])
  fix x :: "state_proof \<times> final_proof result"
  obtain p' r where x: "x = (p', r)" by (cases x)
  let ?Q = "\<lambda>r s. \<forall>x. r = Ok x \<longrightarrow> sent_or_released here t q p x s"
  show "triple ((\<lambda>(p', r) s. at_state t q s \<and> proof_key p' = proof_key p \<and> unlocked p' = unlocked p \<and> r \<noteq> Err EContext) x)
     (case x of (proof, r) \<Rightarrow>
       (case r of
          Err e \<Rightarrow>
            if here then
              let proof = proof\<lparr>GeneratingSince := None\<rparr> in
              sbind (attempt (db_write env (\<lambda>t. CallUpdateProof t proof))) (\<lambda>_. ret (proof, Err e))
            else ret (proof, Err e)
        | Panic \<Rightarrow> crash
        | Ok finalProof \<Rightarrow>
            sbind (interact env) (\<lambda>n.
            if env_ctx_done env n then ret (proof, Err EContext)
            else
              sbind (modify (\<lambda>s. s\<lparr>agg_sent := agg_sent s @
                [\<lparr>msg_proverName = prover_name pr, msg_proverID = prover_id pr,
                  msg_recursiveProof = proof, msg_finalProof = finalProof\<rparr>]\<rparr>)) (\<lambda>_.
              ret (proof, Ok True))))) ?Q"
  proof (cases "proof_key p' = proof_key p \<and> r \<noteq> Err EContext")
    case False
    then show ?thesis by (auto simp: x triple_def)
  next
    case key: True
    then have big: "bigint (ProofBatch p') = bigint (ProofBatch p)" "bigint (ProofBatchFinal p') = bigint (ProofBatchFinal p)"
      by (auto simp: proof_key_def)
    show ?thesis
    proof (cases r)
      case (Ok f)
      show ?thesis
        unfolding x Ok prod.case outcome.case
        using assms key
        by (auto simp: triple_def sbind_def interact_def quiet_def at_state_def ret_def modify_def
            sent_or_released_def split: if_splits)
    next
      case (Err e)
      let ?p = "p'\<lparr>GeneratingSince := None\<rparr>"
      have "triple (at_state t q) (attempt (db_write env (\<lambda>n. CallUpdateProof n ?p)))
          (seq_post (\<lambda>_. sent_or_released True t q p (?p, Err e))
            (\<lambda>r s. \<forall>x. r = Ok x \<longrightarrow> sent_or_released True t q p x s))"
        using key big
        by (intro triple_attempt at_db_write [OF assms])
           (auto simp: sent_or_released_def at_state_def Err outcome_simps UpdateGeneratedProof_def)
      then have "triple (at_state t q)
          (sbind (attempt (db_write env (\<lambda>t. CallUpdateProof t ?p))) (\<lambda>_. ret (?p, Err e)))
          (\<lambda>r s. \<forall>x. r = Ok x \<longrightarrow> sent_or_released True t q p x s)"
        by (rule triple_sbind) (auto simp: triple_def ret_def)
      then have released: "triple (\<lambda>s. at_state t q s \<and> C) 
          (sbind (attempt (db_write env (\<lambda>t. CallUpdateProof t ?p))) (\<lambda>_. ret (?p, Err e)))
          (\<lambda>r s. \<forall>x. r = Ok x \<longrightarrow> sent_or_released True t q p x s)" for C
        by (rule triple_pre) simp
      show ?thesis
      proof (cases here)
        case True
        show ?thesis
          unfolding x Err prod.case outcome.case Let_def
          by (simp only: True if_True) (rule released)
      next
        case False
        then show ?thesis
          unfolding x Err prod.case outcome.case Let_def
          using key by (auto simp: triple_def ret_def sent_or_released_def at_state_def Err)
      qed
    qed (auto simp: x triple_def crash_def)
  qed
qed (auto simp: seq_post_def split: outcome.splits)

definition eligible_at :: "tables \<Rightarrow> u64 \<Rightarrow> u64 \<times> u64 \<Rightarrow> bool" where
  "eligible_at t v k \<longleftrightarrow>
     (fst k = v + 1 \<or> fst k < v + 1 \<and> v + 1 \<le> snd k) \<and> sequence_starts t (fst k) \<and> sequence_ends t (snd k)"

definition latest_known :: "agg_env \<Rightarrow> u64 \<Rightarrow> bool" where
  "latest_known env v \<longleftrightarrow> (\<exists>n. GetLatestVerifiedBatchNum (env_etherman env n) = Ok v)"

lemma at_getAndLockProofReadyToVerify:
  assumes "quiet env"
  shows "triple (at_state t q) (getAndLockProofReadyToVerify env v)
     (\<lambda>r s. case r of
        Ok p \<Rightarrow> \<exists>p0 now. p0 \<in> set (proof_table t) \<and> unlocked p0 \<and> proof_key p = proof_key p0 \<and> \<not> unlocked p \<and>
           eligible_at t v (proof_key p) \<and> agg_sent s = q \<and> UpdateGeneratedProof now p t = Ok (agg_tables s)
      | Err e \<Rightarrow> at_state t q s \<and> e \<noteq> EContext
      | Panic \<Rightarrow> True)" (is "triple _ _ ?Q")
proof -
  have read: "reads t q (\<lambda>p. p \<in> set (proof_table t) \<and> unlocked p \<and> eligible_at t v (proof_key p))
      (db_read env (GetProofReadyToVerify v))"
    by (rule reads_db_read [OF assms])
       (auto dest!: GetProofReadyToVerify_Ok simp: eligible_at_def proof_key_def)
  let ?f = "\<lambda>p. sbind (time_now env) (\<lambda>now.
     let p = p\<lparr>GeneratingSince := Some now\<rparr> in
     sbind (db_write env (\<lambda>t. CallUpdateProof t p)) (\<lambda>_. ret p))"
  let ?C = "\<lambda>p. p \<in> set (proof_table t) \<and> unlocked p \<and> eligible_at t v (proof_key p)"
  have step: "triple (\<lambda>s. at_state t q s \<and> ?C p) (?f p) ?Q" for p
  proof (cases "?C p")
    case True
    let ?p = "\<lambda>now. p\<lparr>GeneratingSince := Some now\<rparr>"
    have upd: "triple (at_state t q) (sbind (db_write env (\<lambda>t. CallUpdateProof t (?p now))) (\<lambda>_. ret (?p now))) ?Q" for now
    proof (rule triple_sbind)
      show "triple (at_state t q) (db_write env (\<lambda>t. CallUpdateProof t (?p now)))
          (seq_post (\<lambda>_ s. agg_sent s = q \<and> (\<exists>n. UpdateGeneratedProof n (?p now) t = Ok (agg_tables s))) ?Q)"
        by (rule at_db_write [OF assms]) (auto simp: at_state_def)
      show "triple (\<lambda>s. agg_sent s = q \<and> (\<exists>n. UpdateGeneratedProof n (?p now) t = Ok (agg_tables s))) (ret (?p now)) ?Q"
        using True by (intro triple_ret) auto
    qed
    have "triple (at_state t q) (?f p) ?Q"
      unfolding Let_def
    proof (rule triple_sbind)
      show "triple (at_state t q) (time_now env) (seq_post (\<lambda>_. at_state t q) ?Q)"
        by (rule at_time_now [OF assms]) simp
    qed (rule upd)
    then show ?thesis by (rule triple_pre) simp
  qed (auto simp: triple_def)
  show ?thesis
    unfolding getAndLockProofReadyToVerify_def
  proof (rule triple_sbind)
    show "triple (at_state t q) (db_read env (GetProofReadyToVerify v)) (seq_post (\<lambda>p s. at_state t q s \<and> ?C p) ?Q)"
      using read unfolding reads_def by (rule triple_post) (auto simp: seq_post_def split: outcome.split)
  qed (rule step)
qed

text \<open>The effect of a call without a proof on tables \<open>t\<close> and messages \<open>q\<close>.\<close>

definition final_effect ::
    "agg_env \<Rightarrow> tables \<Rightarrow> final_proof_msg list \<Rightarrow> state_proof option \<times> bool result \<Rightarrow> aggregator \<Rightarrow> bool" where
  "final_effect env t q x s \<longleftrightarrow>
     (case x of (po', r) \<Rightarrow>
        proof_keys (agg_tables s) = proof_keys t \<and>
        (if r = Ok True \<or> r = Err EContext then
           \<exists>p v. po' = Some p \<and> locks (agg_tables s) = insert (proof_key p) (locks t) \<and> proof_key p \<notin> locks t \<and>
             latest_known env v \<and> eligible_at t v (proof_key p) \<and>
             (if r = Ok True then \<exists>m. agg_sent s = q @ [m] \<and> msg_recursiveProof m = p else agg_sent s = q)
         else locks (agg_tables s) = locks t \<and> agg_sent s = q))"

lemma final_effect_of_build:
  assumes "tables_wf t" "p0 \<in> set (proof_table t)" "unlocked p0" "proof_key p = proof_key p0" "\<not> unlocked p"
    "eligible_at t v (proof_key p)" "latest_known env v" "UpdateGeneratedProof now p t = Ok t1"
    "sent_or_released True t1 q p (p', r) s"
  shows "final_effect env t q (Some p', r) s"
proof -
  have p0: "proof_key p \<notin> locks t" "proof_key p \<in> proof_keys t"
    using unlocked_not_in_locks [OF assms(1,2,3)] assms(4) by simp_all
  then have t1: "locks t1 = insert (proof_key p) (locks t)" "proof_keys t1 = proof_keys t"
    using locks_update [OF assms(8)] proof_keys_update [OF assms(8)] assms(5) by simp_all
  have key: "proof_key p' = proof_key p"
    using assms(9) by (simp add: sent_or_released_def)
  have rel: "locks (agg_tables s) = locks t \<and> proof_keys (agg_tables s) = proof_keys t"
    if "UpdateGeneratedProof n p' t1 = Ok (agg_tables s)" "unlocked p'" for n
    using locks_update [OF that(1)] proof_keys_update [OF that(1)] that(2) p0 t1 key by auto
  have "bigint (ProofBatch p) \<and> bigint (ProofBatchFinal p)"
    using assms(8) by (auto simp: UpdateGeneratedProof_def outcome_simps)
  then show ?thesis
    using assms(6,7,9) p0 t1 key rel
    by (auto simp: final_effect_def sent_or_released_def split: outcome.splits bool.splits if_splits)
qed

lemma at_tryBuildFinalProof_None:
  assumes "quiet env" "tables_wf t"
  shows "triple (at_state t q) (tryBuildFinalProof env pr None) (\<lambda>r s. \<forall>x. r = Ok x \<longrightarrow> final_effect env t q x s)"
    (is "triple _ _ ?Q")
proof -
  have no: "final_effect env t q (None, r) s" if "at_state t q s" "r \<noteq> Ok True" "r \<noteq> Err EContext" for r s
    using that by (simp add: final_effect_def at_state_def)
  let ?lock = "\<lambda>v. sbind (attempt (getAndLockProofReadyToVerify env v)) (\<lambda>r.
      case r of
        Err e \<Rightarrow> ret (None, if e = EStorage ErrNotFound then Ok False else Err e)
      | Panic \<Rightarrow> crash
      | Ok p \<Rightarrow> sbind (build_and_send env pr True p) (\<lambda>(p, r). ret (Some p, r)))"
  define L where "L v r s = (case r of
      Ok p \<Rightarrow> \<exists>p0 now. p0 \<in> set (proof_table t) \<and> unlocked p0 \<and> proof_key p = proof_key p0 \<and> \<not> unlocked p \<and>
        eligible_at t v (proof_key p) \<and> agg_sent s = q \<and> UpdateGeneratedProof now p t = Ok (agg_tables s)
    | Err e \<Rightarrow> at_state t q s \<and> e \<noteq> EContext | Panic \<Rightarrow> True)" for v and r :: "state_proof result" and s
  have sent: "triple (L v (Ok p)) (sbind (build_and_send env pr True p) (\<lambda>(p, r). ret (Some p, r))) ?Q"
    if "latest_known env v" for v p
    unfolding triple_def
  proof (intro allI impI)
    fix s r s' x
    assume s: "L v (Ok p) s" and run: "sbind (build_and_send env pr True p) (\<lambda>(p, r). ret (Some p, r)) s = Some (r, s')"
      and r: "r = Ok x"
    obtain p' b where b: "build_and_send env pr True p s = Some (Ok (p', b), s')" "x = (Some p', b)"
      using run r by (auto simp: sbind_def ret_def split: option.splits prod.splits outcome.splits)
    have "sent_or_released True (agg_tables s) q p (p', b) s'"
      using tripleD [OF at_build_and_send [OF assms(1)] _ b(1)] s by (auto simp: L_def at_state_def)
    with s that b(2) show "final_effect env t q x s'"
      unfolding L_def by (auto intro: final_effect_of_build [OF assms(2)])
  qed
  have lock: "triple (\<lambda>s. at_state t q s \<and> latest_known env v) (?lock v) ?Q" for v
  proof (cases "latest_known env v")
    case True
    have "triple (at_state t q) (?lock v) ?Q"
    proof (rule triple_sbind)
      show "triple (at_state t q) (attempt (getAndLockProofReadyToVerify env v)) (seq_post (L v) ?Q)"
        by (rule triple_attempt, rule triple_post [OF at_getAndLockProofReadyToVerify [OF assms(1)]])
           (auto simp: L_def split: outcome.splits)
      show "triple (L v r) (case r of
          Err e \<Rightarrow> ret (None, if e = EStorage ErrNotFound then Ok False else Err e)
        | Panic \<Rightarrow> crash
        | Ok p \<Rightarrow> sbind (build_and_send env pr True p) (\<lambda>(p, r). ret (Some p, r))) ?Q" for r
        using sent [OF True] no by (cases r) (auto simp: L_def triple_def ret_def crash_def)
    qed
    then show ?thesis by (rule triple_pre) simp
  qed (simp add: triple_def)
  show ?thesis
    unfolding tryBuildFinalProof_def option.case
  proof (rule triple_sbind [where P' = "\<lambda>_. at_state t q"])
    show "triple (at_state t q) (canVerifyProof env) (seq_post (\<lambda>_. at_state t q) ?Q)"
      using reads_canVerifyProof [OF assms(1), of t q] unfolding reads_def
      by (rule triple_post) (auto simp: seq_post_def split: outcome.split)
    show "triple (at_state t q) (if \<not> can then ret (None, Ok False)
      else sbind (attempt (latest_verified env)) (\<lambda>v. case v of
          Err e \<Rightarrow> ret (None, Err e) | Panic \<Rightarrow> crash | Ok v \<Rightarrow> ?lock v)) ?Q" for can
    proof (cases can)
      case True
      have "triple (at_state t q) (sbind (attempt (latest_verified env)) (\<lambda>v. case v of
          Err e \<Rightarrow> ret (None, Err e) | Panic \<Rightarrow> crash | Ok v \<Rightarrow> ?lock v)) ?Q"
      proof (rule triple_sbind)
        show "triple (at_state t q) (attempt (latest_verified env))
          (seq_post (\<lambda>r s. at_state t q s \<and> r \<noteq> Err EContext \<and> (\<forall>v. r = Ok v \<longrightarrow> latest_known env v)) ?Q)"
          using reads_attempt [OF reads_latest_verified [OF assms(1)], of t q] unfolding reads_def
          by (rule triple_post) (auto simp: seq_post_def latest_known_def split: outcome.split)
        show "triple (\<lambda>s. at_state t q s \<and> r \<noteq> Err EContext \<and> (\<forall>v. r = Ok v \<longrightarrow> latest_known env v))
          (case r of Err e \<Rightarrow> ret (None, Err e) | Panic \<Rightarrow> crash | Ok v \<Rightarrow> ?lock v) ?Q" for r
          using lock no by (cases r) (auto simp: triple_def ret_def crash_def)
      qed
      then show ?thesis using True by simp
    qed (use no in \<open>auto simp: triple_def ret_def\<close>)
  qed
qed

end
