(* ===== verification/Agg_Aggregate.thy ===== *)
theory Agg_Aggregate
  imports Agg_Final_Runs
begin

text \<open>
  \<open>tryAggregateProofs\<close> of \<open>aggregator/aggregator.go\<close>: two adjacent proofs are locked in one
  transaction, a prover joins them, and in another transaction they are replaced by the proof of
  the joined range, which is then offered for the final proof or unlocked.
\<close>

definition unlockProofsToAggregate :: "agg_env \<Rightarrow> state_proof \<Rightarrow> state_proof \<Rightarrow> unit step" where
  "unlockProofsToAggregate env proof1 proof2 =
     transaction env
       [\<lambda>t. CallUpdateProof t (proof1\<lparr>GeneratingSince := None\<rparr>),
        \<lambda>t. CallUpdateProof t (proof2\<lparr>GeneratingSince := None\<rparr>)]"

definition getAndLockProofsToAggregate :: "agg_env \<Rightarrow> (state_proof \<times> state_proof) step" where
  "getAndLockProofsToAggregate env =
     sbind (db_read env GetProofsToAggregate) (\<lambda>(proof1, proof2).
     sbind (time_now env) (\<lambda>now.
     let proof1 = proof1\<lparr>GeneratingSince := Some now\<rparr>;
         proof2 = proof2\<lparr>GeneratingSince := Some now\<rparr> in
     sbind (transaction env [\<lambda>t. CallUpdateProof t proof1, \<lambda>t. CallUpdateProof t proof2]) (\<lambda>_.
     ret (proof1, proof2))))"

text \<open>
  The part that the deferred release covers: the joined proof comes back from the prover and
  replaces the two it was made of.
\<close>

definition aggregated_proof :: "agg_env \<Rightarrow> prover \<Rightarrow> state_proof \<Rightarrow> state_proof \<Rightarrow> string \<Rightarrow> string \<Rightarrow> int \<Rightarrow> state_proof" where
  "aggregated_proof env pr proof1 proof2 proofID recursiveProof now =
     \<lparr>ProofBatch = ProofBatch proof1, ProofBatchFinal = ProofBatchFinal proof2, ProofText = recursiveProof,
      InputProver = lib_marshal_pair (env_lib env) (ProofText proof1) (ProofText proof2),
      ProofID = Some proofID, Prover = Some (prover_name pr), ProverID = Some (prover_id pr),
      GeneratingSince = Some now, CreatedAt = 0, UpdatedAt = 0\<rparr>"

definition join_proofs :: "agg_env \<Rightarrow> prover \<Rightarrow> state_proof \<Rightarrow> state_proof \<Rightarrow> state_proof step" where
  "join_proofs env pr proof1 proof2 =
     sbind (ask env (\<lambda>n. map_err EProver
       (AggregatedProof (env_prover env n) (ProofText proof1) (ProofText proof2)))) (\<lambda>aggrProofID.
     sbind (wait_recursive env aggrProofID) (\<lambda>(recursiveProof, _).
     sbind (time_now env) (\<lambda>now.
     let proof = aggregated_proof env pr proof1 proof2 aggrProofID recursiveProof now in
     sbind (transaction env
       [\<lambda>_. CallDeleteProofs (ProofBatch proof1) (ProofBatchFinal proof2), \<lambda>t. CallAddProof t proof]) (\<lambda>_.
     ret proof))))"

text \<open>
  The end that generating and aggregating share: the new proof, locked in the database, is offered
  for the final proof; unless a final proof was built with it, it is stored unlocked, as
  \<open>tryBuildFinalProof\<close> left it in memory.
\<close>

definition finish_proof :: "agg_env \<Rightarrow> prover \<Rightarrow> state_proof \<Rightarrow> bool step" where
  "finish_proof env pr proof =
     sbind (tryBuildFinalProof env pr (Some proof)) (\<lambda>(po, r).
     case po of
       None \<Rightarrow> crash
     | Some proof \<Rightarrow>
         if r = Ok True then ret True
         else
           sbind (db_write env (\<lambda>t. CallUpdateProof t (proof\<lparr>GeneratingSince := None\<rparr>))) (\<lambda>_. ret True))"

definition tryAggregateProofs :: "agg_env \<Rightarrow> prover \<Rightarrow> bool step" where
  "tryAggregateProofs env pr =
     sbind (attempt (getAndLockProofsToAggregate env)) (\<lambda>r.
     case r of
       Err e \<Rightarrow> if e = EStorage ErrNotFound then ret False else fail e
     | Panic \<Rightarrow> crash
     | Ok (proof1, proof2) \<Rightarrow>
         sbind (on_error (join_proofs env pr proof1 proof2) (unlockProofsToAggregate env proof1 proof2)) (\<lambda>proof.
         finish_proof env pr proof))"

section \<open>Invariants\<close>

lemma GetProofsToAggregate_Ok:
  assumes "GetProofsToAggregate t = Ok (p1, p2)"
  shows "p1 \<in> set (proof_table t)" "p2 \<in> set (proof_table t)" "unlocked p1" "unlocked p2"
    "int (unat (ProofBatchFinal p1)) = int (unat (ProofBatch p2)) - 1"
proof -
  have "can_aggregate t p1 p2"
    using assms by (rule GetProofsToAggregate_can_aggregate)
  then show "p1 \<in> set (proof_table t)" "p2 \<in> set (proof_table t)" "unlocked p1" "unlocked p2"
    "int (unat (ProofBatchFinal p1)) = int (unat (ProofBatch p2)) - 1"
    by (simp_all add: can_aggregate_iff aggregable_def)
qed

context proof_invariant begin

definition joinable :: "state_proof \<times> state_proof \<Rightarrow> bool" where
  "joinable x \<longleftrightarrow> U (fst x) \<and> U (snd x) \<and>
     int (unat (ProofBatchFinal (fst x))) = int (unat (ProofBatch (snd x))) - 1"

lemma keeps_getAndLockProofsToAggregate:
  assumes "others_allowed env"
  shows "keeps S I W joinable (getAndLockProofsToAggregate env)"
  unfolding getAndLockProofsToAggregate_def Let_def
proof (rule keeps_sbind)
  show "keeps S I W joinable (db_read env GetProofsToAggregate)"
  proof (rule keeps_db_read [OF assms])
    fix t x assume "I t" "GetProofsToAggregate t = Ok x"
    then show "joinable x"
      using unlocked_usable GetProofsToAggregate_Ok [of t "fst x" "snd x"] by (auto simp: joinable_def)
  qed simp
  show "keeps S I W joinable (case x of (proof1, proof2) \<Rightarrow>
      sbind (time_now env) (\<lambda>now.
      sbind (transaction env [\<lambda>t. CallUpdateProof t (proof1\<lparr>GeneratingSince := Some now\<rparr>),
                              \<lambda>t. CallUpdateProof t (proof2\<lparr>GeneratingSince := Some now\<rparr>)])
        (\<lambda>_. ret (proof1\<lparr>GeneratingSince := Some now\<rparr>, proof2\<lparr>GeneratingSince := Some now\<rparr>))))"
    if "joinable x" for x
    using that assms
    by (auto simp: joinable_def split: prod.split
        intro!: keeps_sbind [OF keeps_time_now] keeps_sbind [OF keeps_transaction] keeps_simple update_allowed usable_lock)
qed

lemma keeps_unlockProofsToAggregate:
  assumes "others_allowed env" "joinable (p1, p2)"
  shows "keeps S I W any (unlockProofsToAggregate env p1 p2)"
  unfolding unlockProofsToAggregate_def using assms
  by (auto simp: joinable_def intro!: keeps_transaction update_allowed usable_lock)

lemma keeps_join_proofs:
  assumes "others_allowed env" "S \<Longrightarrow> sane_prover env" "joinable (p1, p2)"
  shows "keeps S I W U (join_proofs env pr p1 p2)"
  unfolding join_proofs_def Let_def
proof (rule keeps_sbind [where C = "recursive_id env"])
  show "keeps S I W (recursive_id env) (ask env (\<lambda>n. map_err EProver
      (AggregatedProof (env_prover env n) (ProofText p1) (ProofText p2))))"
    unfolding recursive_id_def using AggregatedProof_cases by (intro keeps_ask [OF assms(1)]) (auto simp: outcome_simps)
  fix i
  assume i: "recursive_id env i"
  have U: "U (aggregated_proof env pr p1 p2 i rp now)" for rp now
  proof -
    have j: "U p1" "U p2" "int (unat (ProofBatchFinal p1)) = int (unat (ProofBatch p2)) - 1"
      using assms(3) unfolding joinable_def fst_conv snd_conv by blast+
    show ?thesis by (rule usable_join [OF j]) (simp_all add: aggregated_proof_def)
  qed
  have store: "keeps S I W U (sbind (transaction env [\<lambda>_. CallDeleteProofs (ProofBatch p1) (ProofBatchFinal p2),
      \<lambda>t. CallAddProof t (aggregated_proof env pr p1 p2 i rp now)])
      (\<lambda>_. ret (aggregated_proof env pr p1 p2 i rp now)))" for rp now
    using U delete_allowed add_allowed
    by (intro keeps_sbind [OF keeps_transaction [OF assms(1)]] keeps_simple) auto
  show "keeps S I W U (sbind (wait_recursive env i) (\<lambda>(recursiveProof, _).
      sbind (time_now env) (\<lambda>now.
      sbind (transaction env [\<lambda>_. CallDeleteProofs (ProofBatch p1) (ProofBatchFinal p2),
          \<lambda>t. CallAddProof t (aggregated_proof env pr p1 p2 i recursiveProof now)]) (\<lambda>_.
      ret (aggregated_proof env pr p1 p2 i recursiveProof now)))))"
  proof (rule keeps_sbind [OF keeps_wait_recursive [OF assms(1) conjI [OF assms(2) i]]])
    fix x :: "string \<times> hash"
    show "keeps S I W U (case x of (recursiveProof, _) \<Rightarrow>
      sbind (time_now env) (\<lambda>now.
      sbind (transaction env [\<lambda>_. CallDeleteProofs (ProofBatch p1) (ProofBatchFinal p2),
          \<lambda>t. CallAddProof t (aggregated_proof env pr p1 p2 i recursiveProof now)]) (\<lambda>_.
      ret (aggregated_proof env pr p1 p2 i recursiveProof now))))"
      by (cases x) (simp add: keeps_sbind [OF keeps_time_now [OF assms(1)] store])
  qed
qed

lemma keeps_finish_proof:
  assumes "others_allowed env" "S \<Longrightarrow> sane_prover env" "U p"
  shows "keeps S I W any (finish_proof env pr p)"
  unfolding finish_proof_def
proof (rule keeps_sbind [OF keeps_tryBuildFinalProof [OF assms(1,2)]])
  fix x :: "state_proof option \<times> bool result"
  obtain po r where x: "x = (po, r)" by (cases x)
  assume "case x of (po', r) \<Rightarrow> (\<forall>q. Some p \<noteq> None \<longrightarrow> po' = Some q \<longrightarrow> U q) \<and> (Some p \<noteq> None \<longrightarrow> po' \<noteq> None) \<and> r \<noteq> Panic"
  then obtain q where q: "po = Some q" "U q" by (auto simp: x)
  then show "keeps S I W any (case x of (po, r) \<Rightarrow>
     (case po of
        None \<Rightarrow> crash
      | Some proof \<Rightarrow>
          if r = Ok True then ret True
          else sbind (db_write env (\<lambda>t. CallUpdateProof t (proof\<lparr>GeneratingSince := None\<rparr>))) (\<lambda>_. ret True)))"
    using assms(1) by (auto simp: x intro!: keeps_simple keeps_sbind [OF keeps_db_write] update_allowed usable_lock)
qed (use assms(3) in auto)

lemma keeps_tryAggregateProofs:
  assumes "others_allowed env" "S \<Longrightarrow> sane_prover env"
  shows "keeps S I W any (tryAggregateProofs env pr)"
  unfolding tryAggregateProofs_def
proof (rule keeps_attempt_sbind [OF keeps_getAndLockProofsToAggregate [OF assms(1)]])
  fix x :: "state_proof \<times> state_proof" assume x: "joinable x"
  then show "keeps S I W any (case Ok x of
      Err e \<Rightarrow> if e = EStorage ErrNotFound then ret False else fail e
    | Panic \<Rightarrow> crash
    | Ok (proof1, proof2) \<Rightarrow>
        sbind (on_error (join_proofs env pr proof1 proof2) (unlockProofsToAggregate env proof1 proof2)) (\<lambda>proof.
        finish_proof env pr proof))"
    using assms
    by (auto split: prod.split intro!: keeps_sbind [OF keeps_on_error [OF keeps_join_proofs keeps_unlockProofsToAggregate]]
        keeps_finish_proof)
qed (auto intro: keeps_simple)

end

end
