(* ===== verification/Agg_Aggregate_Runs.thy ===== *)
theory Agg_Aggregate_Runs
  imports Agg_Aggregate
begin

text \<open>
  What an undisturbed call of \<open>tryAggregateProofs\<close> does to the keys and the locks of the proofs, whether
  it succeeds, finds nothing or fails; and of the end it shares with the generation of proofs.
\<close>

section \<open>Undisturbed runs\<close>

text \<open>The tables without the proofs whose range lies in the one of key \<open>k\<close>.\<close>

definition drop_range :: "u64 \<times> u64 \<Rightarrow> tables \<Rightarrow> tables" where
  "drop_range k = delete_proofs (\<lambda>p. ProofBatch p \<ge> fst k \<and> ProofBatchFinal p \<le> snd k)"

definition outside :: "u64 \<times> u64 \<Rightarrow> (u64 \<times> u64) set \<Rightarrow> (u64 \<times> u64) set" where
  "outside k K = {j \<in> K. \<not> (fst k \<le> fst j \<and> snd j \<le> snd k)}"

lemma drop_range_keys: "proof_keys (drop_range k t) = outside k (proof_keys t)"
  "locks (drop_range k t) = outside k (locks t)"
  by (auto simp: drop_range_def delete_proofs_def proof_keys_def locks_def outside_def proof_key_def)

lemma outside_insert_self: "outside k (insert k (outside k K)) = outside k K"
  by (auto simp: outside_def)

text \<open>A call with a proof \<open>p\<close> of the caller's.\<close>

definition offered :: "agg_env \<Rightarrow> tables \<Rightarrow> final_proof_msg list \<Rightarrow> state_proof \<Rightarrow> state_proof option \<times> bool result \<Rightarrow> aggregator \<Rightarrow> bool" where
  "offered env t q p x s \<longleftrightarrow>
     (\<exists>p'. fst x = Some p' \<and> proof_key p' = proof_key p \<and>
       (if snd x = Ok True then
          agg_tables s = t \<and> (\<exists>m. agg_sent s = q @ [m] \<and> msg_recursiveProof m = p') \<and>
          (\<exists>v. latest_known env v \<and> eligible_at t v (proof_key p))
        else agg_sent s = q \<and>
          (agg_tables s = t \<or>
           (\<exists>v. latest_known env v \<and> ProofBatchFinal p < v + 1 \<and> agg_tables s = drop_range (proof_key p) t))))"

lemma at_validateEligibleFinalProof:
  assumes "quiet env" 
  shows "triple (at_state t q) (validateEligibleFinalProof env p v)
     (\<lambda>r s. case r of
        Ok True \<Rightarrow> at_state t q s \<and> eligible_at t v (proof_key p)
      | Panic \<Rightarrow> True
      | _ \<Rightarrow> agg_sent s = q \<and> r \<noteq> Err EContext \<and>
         (agg_tables s = t \<or> ProofBatchFinal p < v + 1 \<and> agg_tables s = drop_range (proof_key p) t))"
    (is "triple _ _ ?Q")
proof -
  have check: "triple (at_state t q) (db_read env (CheckProofContainsCompleteSequences p)) ?Q"
    if "ProofBatch p = v + 1 \<or> ProofBatch p < v + 1 \<and> ProofBatchFinal p \<ge> v + 1"
    using that
    by (intro at_db_read [OF assms])
       (auto simp: CheckProofContainsCompleteSequences_def needs_def eligible_at_def proof_key_def at_state_def
         split: bool.splits)
  have del: "triple (at_state t q)
      (sbind (db_write env (\<lambda>_. CallDeleteProofs (ProofBatch p) (ProofBatchFinal p))) (\<lambda>_. ret False)) ?Q"
    if "ProofBatchFinal p < v + 1"
  proof (rule triple_sbind)
    show "triple (at_state t q) (db_write env (\<lambda>_. CallDeleteProofs (ProofBatch p) (ProofBatchFinal p)))
        (seq_post (\<lambda>_. at_state (drop_range (proof_key p) t) q) ?Q)"
      by (rule at_db_write [OF assms])
         (auto simp: outcome_simps DeleteGeneratedProofs_def drop_range_def proof_key_def at_state_def)
    show "triple (at_state (drop_range (proof_key p) t) q) (ret False) ?Q"
      using that by (intro triple_ret) (simp add: at_state_def)
  qed
  have "triple (at_state t q) (ret False) ?Q"
    by (intro triple_ret) (simp add: at_state_def)
  then show ?thesis
    using check del by (auto simp: validateEligibleFinalProof_def Let_def not_less)
qed

lemma at_tryBuildFinalProof_Some:
  assumes "quiet env"
  shows "triple (at_state t q) (tryBuildFinalProof env pr (Some p)) (\<lambda>r s. \<forall>x. r = Ok x \<longrightarrow> offered env t q p x s)"
    (is "triple _ _ ?Q")
proof -
  have no: "offered env t q p (Some p, r) s" if "at_state t q s" "r \<noteq> Ok True" for r s
    using that by (simp add: offered_def at_state_def)
  have sent: "triple (at_state t q) (sbind (build_and_send env pr False p) (\<lambda>(p, r). ret (Some p, r))) ?Q"
    if v: "latest_known env v" "eligible_at t v (proof_key p)" for v
    unfolding triple_def
  proof (intro allI impI)
    fix s r s' x
    assume s: "at_state t q s" and run: "sbind (build_and_send env pr False p) (\<lambda>(p, r). ret (Some p, r)) s = Some (r, s')"
      and r: "r = Ok x"
    obtain p' b where b: "build_and_send env pr False p s = Some (Ok (p', b), s')" "x = (Some p', b)"
      using run r by (auto simp: sbind_def ret_def split: option.splits prod.splits outcome.splits)
    have "sent_or_released False t q p (p', b) s'"
      using tripleD [OF at_build_and_send [OF assms(1)] s b(1)] by simp
    with b(2) v show "offered env t q p x s'"
      by (auto simp: offered_def sent_or_released_def split: outcome.splits bool.splits)
  qed
  let ?val = "\<lambda>v. sbind (attempt (validateEligibleFinalProof env p v)) (\<lambda>r.
      case r of
        Err e \<Rightarrow> ret (Some p, Err e)
      | Panic \<Rightarrow> crash
      | Ok eligible \<Rightarrow>
          if \<not> eligible then ret (Some p, Ok False)
          else sbind (build_and_send env pr False p) (\<lambda>(p, r). ret (Some p, r)))"
  define V where "V v r s = (case r of
        Ok True \<Rightarrow> at_state t q s \<and> eligible_at t v (proof_key p)
      | Panic \<Rightarrow> True
      | _ \<Rightarrow> agg_sent s = q \<and> r \<noteq> Err EContext \<and>
         (agg_tables s = t \<or> ProofBatchFinal p < v + 1 \<and> agg_tables s = drop_range (proof_key p) t))"
    for v and r :: "bool result" and s
  have val: "triple (at_state t q) (?val v) ?Q" if v: "latest_known env v" for v
  proof (rule triple_sbind)
    show "triple (at_state t q) (attempt (validateEligibleFinalProof env p v)) (seq_post (V v) ?Q)"
      by (rule triple_attempt, rule triple_post [OF at_validateEligibleFinalProof [OF assms]])
         (auto simp: V_def split: outcome.splits)
    fix r :: "bool result"
    have stay: "offered env t q p (Some p, b) s" if "V v r s" "r \<noteq> Ok True" "r \<noteq> Panic" "b \<noteq> Ok True" for b s
      using that v by (auto simp: V_def offered_def split: outcome.splits bool.splits)
    show "triple (V v r) (case r of
        Err e \<Rightarrow> ret (Some p, Err e)
      | Panic \<Rightarrow> crash
      | Ok eligible \<Rightarrow>
          if \<not> eligible then ret (Some p, Ok False)
          else sbind (build_and_send env pr False p) (\<lambda>(p, r). ret (Some p, r))) ?Q"
    proof (cases "r = Ok True")
      case True
      show ?thesis
      proof (cases "eligible_at t v (proof_key p)")
        case el: True
        show ?thesis
          unfolding True outcome.case not_True_eq_False if_False
          by (rule triple_pre [OF sent [OF v el]]) (simp add: V_def)
      qed (simp add: True V_def triple_def)
    next
      case False
      then show ?thesis using stay by (cases r) (auto simp: triple_def ret_def crash_def)
    qed
  qed
  show ?thesis
    unfolding tryBuildFinalProof_def option.case
  proof (rule triple_sbind [where P' = "\<lambda>_. at_state t q"])
    show "triple (at_state t q) (canVerifyProof env) (seq_post (\<lambda>_. at_state t q) ?Q)"
      using reads_canVerifyProof [OF assms(1), of t q] unfolding reads_def
      by (rule triple_post) (auto simp: seq_post_def split: outcome.split)
    show "triple (at_state t q) (if \<not> can then ret (Some p, Ok False)
      else sbind (attempt (latest_verified env)) (\<lambda>v. case v of
          Err e \<Rightarrow> ret (Some p, Err e) | Panic \<Rightarrow> crash | Ok v \<Rightarrow> ?val v)) ?Q" for can
    proof (cases can)
      case True
      have "triple (at_state t q) (sbind (attempt (latest_verified env)) (\<lambda>v. case v of
          Err e \<Rightarrow> ret (Some p, Err e) | Panic \<Rightarrow> crash | Ok v \<Rightarrow> ?val v)) ?Q"
      proof (rule triple_sbind)
        show "triple (at_state t q) (attempt (latest_verified env))
          (seq_post (\<lambda>r s. at_state t q s \<and> (\<forall>v. r = Ok v \<longrightarrow> latest_known env v)) ?Q)"
          using reads_attempt [OF reads_latest_verified [OF assms(1)], of t q] unfolding reads_def
          by (rule triple_post) (auto simp: seq_post_def latest_known_def split: outcome.split)
        fix r :: "u64 result"
        show "triple (\<lambda>s. at_state t q s \<and> (\<forall>v. r = Ok v \<longrightarrow> latest_known env v))
          (case r of Err e \<Rightarrow> ret (Some p, Err e) | Panic \<Rightarrow> crash | Ok v \<Rightarrow> ?val v) ?Q"
        proof (cases r)
          case (Ok v)
          show ?thesis
          proof (cases "latest_known env v")
            case True
            show ?thesis unfolding Ok outcome.case by (rule triple_pre [OF val [OF True]]) simp
          qed (simp add: Ok triple_def)
        qed (use no in \<open>auto simp: triple_def ret_def crash_def\<close>)
      qed
      then show ?thesis using True by simp
    qed (use no in \<open>auto simp: triple_def ret_def\<close>)
  qed
qed

text \<open>The end of a handler on tables \<open>t\<close> in which the new proof \<open>p\<close> is locked.\<close>

definition finished :: "agg_env \<Rightarrow> tables \<Rightarrow> final_proof_msg list \<Rightarrow> state_proof \<Rightarrow> bool result \<Rightarrow> aggregator \<Rightarrow> bool" where
  "finished env t q p r s \<longleftrightarrow> r = Panic \<or> r = Ok True \<and>
     (agg_tables s = t \<and> (\<exists>m. agg_sent s = q @ [m] \<and> proof_key (msg_recursiveProof m) = proof_key p) \<and>
        (\<exists>v. latest_known env v \<and> eligible_at t v (proof_key p)) \<or>
      agg_sent s = q \<and> proof_keys (agg_tables s) = proof_keys t \<and> locks (agg_tables s) = locks t - {proof_key p} \<or>
      agg_sent s = q \<and> (\<exists>v. latest_known env v \<and> ProofBatchFinal p < v + 1) \<and>
        proof_keys (agg_tables s) = outside (proof_key p) (proof_keys t) \<and>
        locks (agg_tables s) = outside (proof_key p) (locks t))"

text \<open>Steps that return a value or panic, but no error.\<close>

definition errorless :: "'a step \<Rightarrow> bool" where
  "errorless m \<longleftrightarrow> triple (\<lambda>_. True) m (\<lambda>r _. \<forall>e. r \<noteq> Err e)"

lemma errorless_sbind: "errorless m \<Longrightarrow> (\<And>x. errorless (f x)) \<Longrightarrow> errorless (sbind m f)"
  unfolding errorless_def by (rule triple_sbind [where P' = "\<lambda>_ _. True"])
    (auto elim!: triple_post simp: seq_post_def split: outcome.split)

lemma errorless_simple [simp]:
  "errorless (ret x)" "errorless crash" "errorless (attempt m)" "errorless (getter f)" "errorless (modify g)"
  "errorless (interact env)" "errorless (time_now env)"
proof -
  show "errorless (attempt m)"
    by (auto simp: errorless_def triple_def attempt_def split: option.splits prod.splits outcome.splits)
  show "errorless (interact env)" by (simp add: errorless_def triple_def interact_def)
  then show "errorless (time_now env)"
    unfolding time_now_def ask_def by (rule errorless_sbind) (simp add: errorless_def triple_def lift_def)
qed (simp_all add: errorless_def triple_def ret_def crash_def getter_def modify_def)

lemma errorless_tryBuildFinalProof: "errorless (tryBuildFinalProof env pr po)"
proof -
  have "errorless (buildFinalProof env p)" for p
    unfolding buildFinalProof_def Let_def
    by (auto split: option.split outcome.split intro!: errorless_sbind)
  then have "errorless (build_and_send env pr here p)" for here p
    unfolding build_and_send_def Let_def
    by (auto split: prod.split outcome.split intro!: errorless_sbind)
  then show ?thesis
    unfolding tryBuildFinalProof_def canVerifyProof_def
    by (auto split: prod.split option.split outcome.split intro!: errorless_sbind)
qed

lemma offered_unlock:
  assumes "quiet env" "proof_key p \<in> proof_keys t" "bigint (ProofBatch p)" "bigint (ProofBatchFinal p)"
    "ProofBatch p \<le> ProofBatchFinal p" "offered env t q p (Some p', r) s" "r \<noteq> Ok True"
    "db_write env (\<lambda>t. CallUpdateProof t (p'\<lparr>GeneratingSince := None\<rparr>)) s = Some (b, s')"
  shows "b = Ok () \<and> finished env t q p (Ok True) s'"
proof -
  let ?p = "p'\<lparr>GeneratingSince := None\<rparr>"
  have key: "proof_key ?p = proof_key p" using assms(6) by (simp add: offered_def)
  then have big: "bigint (ProofBatch ?p)" "bigint (ProofBatchFinal ?p)"
    using assms(3,4) by (simp_all add: proof_key_def)
  have at: "at_state (agg_tables s) q s" using assms(6,7) by (simp add: offered_def at_state_def)
  have "triple (at_state (agg_tables s) q) (db_write env (\<lambda>t. CallUpdateProof t ?p))
      (\<lambda>b s'. b = Ok () \<and> agg_sent s' = q \<and> (\<exists>n. UpdateGeneratedProof n ?p (agg_tables s) = Ok (agg_tables s')))"
    using update_Ok_iff big
    by (intro at_db_write [OF assms(1)]) (auto simp: at_state_def UpdateGeneratedProof_def outcome_simps)
  from tripleD [OF this at assms(8)] obtain n where b: "b = Ok ()" "agg_sent s' = q"
    "UpdateGeneratedProof n ?p (agg_tables s) = Ok (agg_tables s')" by blast
  have keys: "proof_keys (agg_tables s') = proof_keys (agg_tables s)"
    "locks (agg_tables s') = locks (agg_tables s) - {proof_key p} \<or> proof_key p \<notin> proof_keys (agg_tables s) \<and> locks (agg_tables s') = locks (agg_tables s)"
    using proof_keys_update [OF b(3)] locks_update [OF b(3)] key by auto
  have out: "proof_key p \<notin> outside (proof_key p) K" for K
    using assms(5) by (auto simp: outside_def proof_key_def)
  consider "agg_tables s = t" |
    v where "latest_known env v" "ProofBatchFinal p < v + 1" "agg_tables s = drop_range (proof_key p) t"
    using assms(6,7) by (auto simp: offered_def)
  then show ?thesis
  proof cases
    case 1
    then show ?thesis using b keys assms(2) by (auto simp: finished_def)
  next
    case 2
    then have "proof_keys (agg_tables s') = outside (proof_key p) (proof_keys t)"
      "locks (agg_tables s') = outside (proof_key p) (locks t)"
      using keys out by (auto simp: drop_range_keys)
    then show ?thesis using b 2 by (auto simp: finished_def)
  qed
qed

lemma at_finish_proof:
  assumes "quiet env" "proof_key p \<in> proof_keys t" "bigint (ProofBatch p)" "bigint (ProofBatchFinal p)"
    "ProofBatch p \<le> ProofBatchFinal p"
  shows "triple (at_state t q) (finish_proof env pr p) (finished env t q p)"
  unfolding triple_def
proof (intro allI impI)
  fix s r s'
  assume s: "at_state t q s" and run: "finish_proof env pr p s = Some (r, s')"
  obtain x s1 where x: "tryBuildFinalProof env pr (Some p) s = Some (x, s1)"
    using run by (auto simp: finish_proof_def sbind_def split: option.splits)
  show "finished env t q p r s'"
  proof (cases x)
    case (Ok y)
    then have off: "offered env t q p y s1" using tripleD [OF at_tryBuildFinalProof_Some [OF assms(1)] s x] by simp
    then obtain p' b where y: "y = (Some p', b)" by (cases y) (auto simp: offered_def)
    show ?thesis
    proof (cases "b = Ok True")
      case True
      then show ?thesis
        using run x Ok y off by (auto simp: finish_proof_def sbind_def ret_def finished_def offered_def)
    next
      case False
      obtain c where c: "db_write env (\<lambda>t. CallUpdateProof t (p'\<lparr>GeneratingSince := None\<rparr>)) s1 = Some (c, s')"
        and "r = (case c of Ok _ \<Rightarrow> Ok True | Err e \<Rightarrow> Err e | Panic \<Rightarrow> Panic)"
        using run x Ok y False
        by (auto simp: finish_proof_def sbind_def ret_def split: option.splits prod.splits outcome.splits)
      then show ?thesis using offered_unlock [OF assms off [unfolded y] False c] by simp
    qed
  next
    case (Err e)
    then show ?thesis
      using tripleD [OF errorless_tryBuildFinalProof [unfolded errorless_def] _ x] by simp
  next
    case Panic
    then show ?thesis using run x by (auto simp: finish_proof_def sbind_def finished_def)
  qed
qed

lemma obind_run_nil: "obind m (run_calls [] ts) = m"
  by (cases m) auto

lemma run_two:
  assumes "length ts = length [c1, c2]"
  obtains n1 n2 where "run_calls [c1, c2] ts t = obind (exec_call (c1 n1) t) (exec_call (c2 n2))"
proof -
  obtain n1 n2 where "ts = [n1, n2]"
    using assms by (auto simp: length_Suc_conv numeral_2_eq_2)
  then have "run_calls [c1, c2] ts t = obind (exec_call (c1 n1) t) (exec_call (c2 n2))"
    by (cases "exec_call (c1 n1) t") (auto simp: obind_run_nil)
  then show ?thesis by (rule that)
qed

text \<open>Two updates of present rows, both locking or both releasing.\<close>

lemma run_two_updates:
  assumes "length ts = length [\<lambda>n. CallUpdateProof n p1, \<lambda>n. CallUpdateProof n p2]"
    "run_calls [\<lambda>n. CallUpdateProof n p1, \<lambda>n. CallUpdateProof n p2] ts t = Ok t'"
    "proof_key p1 \<in> proof_keys t" "proof_key p2 \<in> proof_keys t" "unlocked p1 = unlocked p2"
  shows "proof_keys t' = proof_keys t"
    "locks t' = (if unlocked p1 then locks t - {proof_key p1, proof_key p2}
                 else insert (proof_key p1) (insert (proof_key p2) (locks t)))"
proof -
  obtain n1 n2 where "run_calls [\<lambda>n. CallUpdateProof n p1, \<lambda>n. CallUpdateProof n p2] ts t =
      obind (exec_call (CallUpdateProof n1 p1) t) (exec_call (CallUpdateProof n2 p2))"
    by (rule run_two [OF assms(1)])
  then have "obind (UpdateGeneratedProof n1 p1 t) (exec_call (CallUpdateProof n2 p2)) = Ok t'"
    using assms(2) by simp
  then obtain t1 where t1: "UpdateGeneratedProof n1 p1 t = Ok t1" "UpdateGeneratedProof n2 p2 t1 = Ok t'"
    by (auto simp: outcome_simps)
  show "proof_keys t' = proof_keys t"
    using proof_keys_update [OF t1(1)] proof_keys_update [OF t1(2)] by simp
  show "locks t' = (if unlocked p1 then locks t - {proof_key p1, proof_key p2}
                 else insert (proof_key p1) (insert (proof_key p2) (locks t)))"
    using locks_update [OF t1(1)] locks_update [OF t1(2)] proof_keys_update [OF t1(1)] assms(3-5) by auto
qed

lemma update_returns: "UpdateGeneratedProof n p t \<noteq> Panic"
  by (simp add: UpdateGeneratedProof_def outcome_simps)

text \<open>The two proofs \<open>p1\<close>, \<open>p2\<close> of \<open>t\<close> are locked in \<open>t1\<close>, which is like \<open>t\<close> otherwise.\<close>

definition pair_locked :: "tables \<Rightarrow> state_proof \<times> state_proof \<Rightarrow> tables \<Rightarrow> bool" where
  "pair_locked t x t1 \<longleftrightarrow>
     (\<exists>q1 q2. can_aggregate t q1 q2 \<and> proof_key (fst x) = proof_key q1 \<and> proof_key (snd x) = proof_key q2) \<and>
     proof_keys t1 = proof_keys t \<and>
     locks t1 = insert (proof_key (fst x)) (insert (proof_key (snd x)) (locks t))"

lemma at_getAndLockProofsToAggregate:
  assumes "quiet env"
  shows "triple (at_state t q) (getAndLockProofsToAggregate env)
     (\<lambda>r s. case r of
        Ok x \<Rightarrow> agg_sent s = q \<and> pair_locked t x (agg_tables s)
      | _ \<Rightarrow> at_state t q s)" (is "triple _ _ ?Q")
proof -
  let ?f = "\<lambda>(p1, p2). sbind (time_now env) (\<lambda>now.
     let p1 = p1\<lparr>GeneratingSince := Some now\<rparr>; p2 = p2\<lparr>GeneratingSince := Some now\<rparr> in
     sbind (transaction env [\<lambda>t. CallUpdateProof t p1, \<lambda>t. CallUpdateProof t p2]) (\<lambda>_. ret (p1, p2)))"
  have lock: "triple (at_state t q) (?f (p1, p2)) ?Q" if agg: "can_aggregate t p1 p2" for p1 p2
    unfolding prod.case Let_def
  proof (rule triple_sbind)
    show "triple (at_state t q) (time_now env) (seq_post (\<lambda>_. at_state t q) ?Q)"
      by (rule at_time_now [OF assms]) simp
    fix now :: int
    let ?p1 = "p1\<lparr>GeneratingSince := Some now\<rparr>" and ?p2 = "p2\<lparr>GeneratingSince := Some now\<rparr>"
    have keys: "proof_key ?p1 \<in> proof_keys t" "proof_key ?p2 \<in> proof_keys t"
      using agg by (auto simp: can_aggregate_iff proof_keys_def)
    show "triple (at_state t q) (sbind (transaction env [\<lambda>t. CallUpdateProof t ?p1, \<lambda>t. CallUpdateProof t ?p2])
        (\<lambda>_. ret (?p1, ?p2))) ?Q"
    proof (rule triple_sbind)
      show "triple (at_state t q) (transaction env [\<lambda>t. CallUpdateProof t ?p1, \<lambda>t. CallUpdateProof t ?p2])
          (seq_post (\<lambda>_ s. agg_sent s = q \<and> pair_locked t (?p1, ?p2) (agg_tables s)) ?Q)"
      proof (rule at_transaction [OF assms])
        fix ts :: "int list" and t' s
        assume ts: "length ts = length [\<lambda>t. CallUpdateProof t ?p1, \<lambda>t. CallUpdateProof t ?p2]"
          and run: "run_calls [\<lambda>t. CallUpdateProof t ?p1, \<lambda>t. CallUpdateProof t ?p2] ts t = Ok t'"
          and s: "at_state t' q s"
        have "proof_keys t' = proof_keys t" "locks t' = insert (proof_key ?p1) (insert (proof_key ?p2) (locks t))"
          using run_two_updates [OF ts run keys] by simp_all
        then show "seq_post (\<lambda>_ s. agg_sent s = q \<and> pair_locked t (?p1, ?p2) (agg_tables s)) ?Q (Ok ()) s"
          using s agg by (auto simp: at_state_def pair_locked_def)
      qed auto
      show "triple (\<lambda>s. agg_sent s = q \<and> pair_locked t (?p1, ?p2) (agg_tables s)) (ret (?p1, ?p2)) ?Q"
        by (rule triple_ret) simp
    qed
  qed
  show ?thesis
    unfolding getAndLockProofsToAggregate_def
  proof (rule triple_sbind)
    show "triple (at_state t q) (db_read env GetProofsToAggregate)
        (seq_post (\<lambda>x s. at_state t q s \<and> can_aggregate t (fst x) (snd x)) ?Q)"
      by (rule at_db_read [OF assms])
         (auto simp: seq_post_def outcome_simps dest: GetProofsToAggregate_can_aggregate split: outcome.split prod.split)
    fix x :: "state_proof \<times> state_proof"
    show "triple (\<lambda>s. at_state t q s \<and> can_aggregate t (fst x) (snd x)) (?f x) ?Q"
    proof (cases "can_aggregate t (fst x) (snd x)")
      case True
      obtain p1 p2 where x: "x = (p1, p2)" by (cases x)
      show ?thesis unfolding x by (rule triple_pre [OF lock]) (use True x in auto)
    qed (simp add: triple_def)
  qed
qed

lemma at_unlockProofsToAggregate:
  assumes "quiet env" "tables_wf t" "pair_locked t (p1, p2) t1"
  shows "triple (at_state t1 q) (unlockProofsToAggregate env p1 p2)
     (\<lambda>r s. agg_sent s = q \<and> proof_keys (agg_tables s) = proof_keys t \<and> locks (agg_tables s) = locks t)"
proof -
  obtain q1 q2 where agg: "can_aggregate t q1 q2" and key: "proof_key p1 = proof_key q1" "proof_key p2 = proof_key q2"
    and t1: "proof_keys t1 = proof_keys t" "locks t1 = insert (proof_key p1) (insert (proof_key p2) (locks t))"
    using assms(3) by (auto simp: pair_locked_def)
  let ?p1 = "p1\<lparr>GeneratingSince := None\<rparr>" and ?p2 = "p2\<lparr>GeneratingSince := None\<rparr>"
  have big: "bigint (ProofBatch q1)" "bigint (ProofBatchFinal q1)" "bigint (ProofBatch q2)" "bigint (ProofBatchFinal q2)"
    and free: "proof_key q1 \<notin> locks t" "proof_key q2 \<notin> locks t"
    and keys: "proof_key ?p1 \<in> proof_keys t1" "proof_key ?p2 \<in> proof_keys t1"
    using agg unlocked_not_in_locks [OF assms(2)] key t1 by (auto simp: can_aggregate_iff aggregable_def)
  have upd: "UpdateGeneratedProof n ?p1 t \<noteq> Err e" "UpdateGeneratedProof n ?p2 t \<noteq> Err e" for n t e
    using big key by (auto simp: UpdateGeneratedProof_def outcome_simps proof_key_def)
  show ?thesis
    unfolding unlockProofsToAggregate_def
  proof (rule at_transaction [OF assms(1)])
    fix ts :: "int list" and s
    assume ts: "length ts = length [\<lambda>t. CallUpdateProof t ?p1, \<lambda>t. CallUpdateProof t ?p2]"
    obtain n1 n2 where run: "run_calls [\<lambda>n. CallUpdateProof n ?p1, \<lambda>n. CallUpdateProof n ?p2] ts t1 =
        obind (exec_call (CallUpdateProof n1 ?p1) t1) (exec_call (CallUpdateProof n2 ?p2))"
      by (rule run_two [OF ts])
    have no: "obind (exec_call (CallUpdateProof n1 ?p1) t1) (exec_call (CallUpdateProof n2 ?p2)) \<noteq> Err e"
      "obind (exec_call (CallUpdateProof n1 ?p1) t1) (exec_call (CallUpdateProof n2 ?p2)) \<noteq> Panic" for e
      using upd update_returns by (auto simp: outcome_simps)
    show "agg_sent s = q \<and> proof_keys (agg_tables s) = proof_keys t \<and> locks (agg_tables s) = locks t"
      if "run_calls [\<lambda>t. CallUpdateProof t ?p1, \<lambda>t. CallUpdateProof t ?p2] ts t1 = Ok t'" "at_state t' q s" for t'
      using run_two_updates [OF ts that(1) keys] that(2) t1 free key by (auto simp: at_state_def)
    show "agg_sent s = q \<and> proof_keys (agg_tables s) = proof_keys t \<and> locks (agg_tables s) = locks t"
      if "run_calls [\<lambda>t. CallUpdateProof t ?p1, \<lambda>t. CallUpdateProof t ?p2] ts t1 = Err e" for e
      using that no unfolding run by blast
    show "agg_sent s = q \<and> proof_keys (agg_tables s) = proof_keys t \<and> locks (agg_tables s) = locks t"
      if "run_calls [\<lambda>t. CallUpdateProof t ?p1, \<lambda>t. CallUpdateProof t ?p2] ts t1 = Panic"
      using that no unfolding run by blast
  qed
qed

text \<open>The proofs of the range \<open>k\<close> are replaced by one of key \<open>k\<close>, which is locked.\<close>

definition joined :: "tables \<Rightarrow> u64 \<times> u64 \<Rightarrow> tables \<Rightarrow> bool" where
  "joined t k t2 \<longleftrightarrow>
     proof_keys t2 = insert k (outside k (proof_keys t)) \<and> locks t2 = insert k (outside k (locks t))"

definition join_key :: "state_proof \<times> state_proof \<Rightarrow> u64 \<times> u64" where
  "join_key x = (ProofBatch (fst x), ProofBatchFinal (snd x))"

lemma can_aggregate_order:
  assumes "proofs_ok t" "can_aggregate t q1 q2"
  shows "ProofBatch q1 \<le> ProofBatchFinal q1" "ProofBatchFinal q1 < ProofBatch q2" "ProofBatch q2 \<le> ProofBatchFinal q2"
proof -
  have "int (unat (ProofBatchFinal q1)) = int (unat (ProofBatch q2)) - 1"
    using assms(2) by (simp add: can_aggregate_iff aggregable_def)
  then have "unat (ProofBatchFinal q1) < unat (ProofBatch q2)" by linarith
  then show "ProofBatchFinal q1 < ProofBatch q2" by (simp add: word_less_nat_alt)
  show "ProofBatch q1 \<le> ProofBatchFinal q1" "ProofBatch q2 \<le> ProofBatchFinal q2"
    using assms by (auto simp: proofs_ok_def can_aggregate_iff)
qed

lemma at_join_proofs:
  assumes "quiet env" "proofs_ok t" "pair_locked t (p1, p2) t1"
  shows "triple (at_state t1 q) (join_proofs env pr p1 p2)
     (\<lambda>r s. agg_sent s = q \<and>
       (case r of Ok p \<Rightarrow> joined t (join_key (p1, p2)) (agg_tables s) \<and> proof_key p = join_key (p1, p2)
        | _ \<Rightarrow> agg_tables s = t1))" (is "triple _ _ ?Q")
proof -
  let ?k = "join_key (p1, p2)"
  obtain q1 q2 where agg: "can_aggregate t q1 q2" and key: "proof_key p1 = proof_key q1" "proof_key p2 = proof_key q2"
    and t1: "proof_keys t1 = proof_keys t" "locks t1 = insert (proof_key p1) (insert (proof_key p2) (locks t))"
    using assms(3) by (auto simp: pair_locked_def)
  have inside: "outside ?k (locks t1) = outside ?k (locks t)"
    using can_aggregate_order [OF assms(2) agg] key t1(2)
    by (auto simp: outside_def join_key_def proof_key_def)
  have Err: "?Q (Err e) s" if "at_state t1 q s" for e s
    using that by (simp add: at_state_def)
  have store: "triple (at_state t1 q) (sbind (time_now env) (\<lambda>now.
     let proof = aggregated_proof env pr p1 p2 i rp now in
     sbind (transaction env
       [\<lambda>_. CallDeleteProofs (ProofBatch p1) (ProofBatchFinal p2), \<lambda>t. CallAddProof t proof]) (\<lambda>_.
     ret proof))) ?Q" for i rp
    unfolding Let_def
  proof (rule triple_sbind)
    show "triple (at_state t1 q) (time_now env) (seq_post (\<lambda>_. at_state t1 q) ?Q)"
      by (rule at_time_now [OF assms(1)]) simp
    fix now :: int
    let ?p = "aggregated_proof env pr p1 p2 i rp now"
    let ?cs = "[\<lambda>_. CallDeleteProofs (ProofBatch p1) (ProofBatchFinal p2), \<lambda>t. CallAddProof t ?p]"
    have pk: "proof_key ?p = ?k" "\<not> unlocked ?p"
      by (simp_all add: aggregated_proof_def proof_key_def join_key_def unlocked_def)
    show "triple (at_state t1 q) (sbind (transaction env ?cs) (\<lambda>_. ret ?p)) ?Q"
    proof (rule triple_sbind)
      show "triple (at_state t1 q) (transaction env ?cs)
          (seq_post (\<lambda>_ s. agg_sent s = q \<and> joined t ?k (agg_tables s)) ?Q)"
      proof (rule at_transaction [OF assms(1)])
        fix ts :: "int list" and t' s
        assume ts: "length ts = length ?cs" and run: "run_calls ?cs ts t1 = Ok t'" and s: "at_state t' q s"
        obtain n1 n2 where "run_calls ?cs ts t1 =
            obind (exec_call (CallDeleteProofs (ProofBatch p1) (ProofBatchFinal p2)) t1) (exec_call (CallAddProof n2 ?p))"
          by (rule run_two [OF ts])
        then have "obind (exec_call (CallDeleteProofs (ProofBatch p1) (ProofBatchFinal p2)) t1)
            (exec_call (CallAddProof n2 ?p)) = Ok t'"
          using run by simp
        then have "AddGeneratedProof n2 ?p (drop_range ?k t1) = Ok t'"
          by (auto simp: outcome_simps DeleteGeneratedProofs_def drop_range_def join_key_def)
        then have "proof_table t' = proof_table (drop_range ?k t1) @ [?p\<lparr>CreatedAt := n2, UpdatedAt := n2\<rparr>]"
          by (auto simp: AddGeneratedProof_def outcome_simps)
        then have "proof_keys t' = insert ?k (proof_keys (drop_range ?k t1))"
          "locks t' = insert ?k (locks (drop_range ?k t1))"
          using pk by (intro set_eqI; auto simp: proof_keys_iff locks_iff)+
        then have "joined t ?k t'" by (simp add: joined_def drop_range_keys inside t1(1))
        then show "seq_post (\<lambda>_ s. agg_sent s = q \<and> joined t ?k (agg_tables s)) ?Q (Ok ()) s"
          using s by (simp add: at_state_def)
      qed (auto simp: at_state_def)
      show "triple (\<lambda>s. agg_sent s = q \<and> joined t ?k (agg_tables s)) (ret ?p) ?Q"
        using pk by (intro triple_ret) simp
    qed
  qed
  show ?thesis
    unfolding join_proofs_def
  proof (rule triple_sbind [where P' = "\<lambda>_. at_state t1 q"])
    show "triple (at_state t1 q) (ask env (\<lambda>n. map_err EProver
        (AggregatedProof (env_prover env n) (ProofText p1) (ProofText p2)))) (seq_post (\<lambda>_. at_state t1 q) ?Q)"
      by (rule at_ask [OF assms(1)]) (auto simp: seq_post_def at_state_def split: outcome.split)
    fix i
    show "triple (at_state t1 q) (sbind (wait_recursive env i) (\<lambda>(recursiveProof, _).
       sbind (time_now env) (\<lambda>now.
       let proof = aggregated_proof env pr p1 p2 i recursiveProof now in
       sbind (transaction env
         [\<lambda>_. CallDeleteProofs (ProofBatch p1) (ProofBatchFinal p2), \<lambda>t. CallAddProof t proof]) (\<lambda>_.
       ret proof)))) ?Q"
    proof (rule triple_sbind [where P' = "\<lambda>_. at_state t1 q"])
      show "triple (at_state t1 q) (wait_recursive env i) (seq_post (\<lambda>_. at_state t1 q) ?Q)"
        by (rule at_wait_recursive [OF assms(1)]) (auto simp: seq_post_def at_state_def split: outcome.split)
    qed (simp add: store split: prod.split)
  qed
qed

text \<open>What a call of \<open>tryAggregateProofs\<close> has done to \<open>t\<close> and \<open>q\<close>.\<close>

definition aggregation_effect ::
    "agg_env \<Rightarrow> tables \<Rightarrow> final_proof_msg list \<Rightarrow> bool result \<Rightarrow> aggregator \<Rightarrow> bool" where
  "aggregation_effect env t q r s \<longleftrightarrow>
     (if r = Ok True then
        \<exists>p1 p2. can_aggregate t p1 p2 \<and>
          (let k = join_key (p1, p2); K = outside k (proof_keys t); L = outside k (locks t);
               K' = proof_keys (agg_tables s); L' = locks (agg_tables s) in
             K' = insert k K \<and> L' = insert k L \<and> (\<exists>m. agg_sent s = q @ [m] \<and> proof_key (msg_recursiveProof m) = k) \<or>
             K' = insert k K \<and> L' = L \<and> agg_sent s = q \<or>
             K' = K \<and> L' = L \<and> agg_sent s = q \<and> (\<exists>v. latest_known env v \<and> snd k < v + 1))
      else agg_sent s = q \<and> proof_keys (agg_tables s) = proof_keys t \<and> locks (agg_tables s) = locks t)"

lemma aggregation_effect_of_finish:
  assumes "proofs_ok t" "can_aggregate t q1 q2" "join_key (p1, p2) = join_key (q1, q2)"
    "joined t (join_key (p1, p2)) t2" "proof_key p = join_key (p1, p2)" "finished env t2 q p r s" "r \<noteq> Panic"
  shows "aggregation_effect env t q r s"
proof -
  let ?k = "join_key (p1, p2)"
  have out: "?k \<notin> outside ?k A" "outside ?k (insert ?k (outside ?k A)) = outside ?k A" for A
    by (auto simp: outside_def)
  then have minus: "insert ?k (outside ?k A) - {?k} = outside ?k A" for A
    by (simp add: insert_Diff_if)
  have t2: "proof_keys t2 = insert ?k (outside ?k (proof_keys t))" "locks t2 = insert ?k (outside ?k (locks t))"
    using assms(4) by (simp_all add: joined_def)
  have hi: "ProofBatchFinal p = snd ?k" using assms(5) by (metis proof_key_def snd_conv)
  have r: "r = Ok True" using assms(6,7) by (auto simp: finished_def)
  have "\<exists>x1 x2. can_aggregate t x1 x2 \<and> join_key (x1, x2) = ?k"
    using assms(2,3) by metis
  moreover have "proof_keys (agg_tables s) = insert ?k (outside ?k (proof_keys t)) \<and>
      locks (agg_tables s) = insert ?k (outside ?k (locks t)) \<and>
      (\<exists>m. agg_sent s = q @ [m] \<and> proof_key (msg_recursiveProof m) = ?k) \<or>
    proof_keys (agg_tables s) = insert ?k (outside ?k (proof_keys t)) \<and>
      locks (agg_tables s) = outside ?k (locks t) \<and> agg_sent s = q \<or>
    proof_keys (agg_tables s) = outside ?k (proof_keys t) \<and> locks (agg_tables s) = outside ?k (locks t) \<and>
      agg_sent s = q \<and> (\<exists>v. latest_known env v \<and> snd ?k < v + 1)"
    using assms(6,7) unfolding finished_def assms(5) hi
    by (elim disjE conjE) (simp_all add: t2 out minus)
  ultimately show ?thesis
    unfolding aggregation_effect_def Let_def r by (simp, metis)
qed

lemma at_tryAggregateProofs:
  assumes "quiet env" "tables_wf t" "proofs_ok t"
  shows "triple (at_state t q) (tryAggregateProofs env pr)
     (\<lambda>r s. r \<noteq> Panic \<longrightarrow> aggregation_effect env t q r s)" (is "triple _ _ ?Q")
proof -
  have no: "?Q r s" if "agg_sent s = q" "proof_keys (agg_tables s) = proof_keys t" "locks (agg_tables s) = locks t"
    "r \<noteq> Ok True" for r s
    using that by (simp add: aggregation_effect_def)
  have body: "triple (\<lambda>s. agg_sent s = q \<and> pair_locked t (p1, p2) (agg_tables s))
     (sbind (on_error (join_proofs env pr p1 p2) (unlockProofsToAggregate env p1 p2)) (finish_proof env pr)) ?Q" for p1 p2
    unfolding triple_def
  proof (intro allI impI)
    fix s r s'
    assume s: "agg_sent s = q \<and> pair_locked t (p1, p2) (agg_tables s)"
      and run: "sbind (on_error (join_proofs env pr p1 p2) (unlockProofsToAggregate env p1 p2)) (finish_proof env pr) s = Some (r, s')"
      and nP: "r \<noteq> Panic"
    have at: "at_state (agg_tables s) q s" using s by (simp add: at_state_def)
    obtain q1 q2 where agg: "can_aggregate t q1 q2" "join_key (p1, p2) = join_key (q1, q2)"
      using s by (auto simp: pair_locked_def join_key_def proof_key_def)
    obtain j s1 where j: "join_proofs env pr p1 p2 s = Some (j, s1)"
      using run by (auto simp: sbind_def on_error_def attempt_def split: option.splits)
    note joinQ = tripleD [OF at_join_proofs [OF assms(1,3)] at j, OF s [THEN conjunct2]]
    show "aggregation_effect env t q r s'"
    proof (cases j)
      case (Ok p)
      have fin: "finish_proof env pr p s1 = Some (r, s')"
        using run j Ok by (auto simp: sbind_def on_error_def attempt_def ret_def)
      have J: "agg_sent s1 = q" "joined t (join_key (p1, p2)) (agg_tables s1)" "proof_key p = join_key (p1, p2)"
        using joinQ Ok by simp_all
      have p: "proof_key p \<in> proof_keys (agg_tables s1)" "bigint (ProofBatch p)" "bigint (ProofBatchFinal p)"
        "ProofBatch p \<le> ProofBatchFinal p"
      proof -
        have "bigint (ProofBatch q1)" "bigint (ProofBatchFinal q2)"
          using agg(1) unlocked_not_in_locks [OF assms(2)] by (auto simp: can_aggregate_iff aggregable_def)
        then show "bigint (ProofBatch p)" "bigint (ProofBatchFinal p)" "ProofBatch p \<le> ProofBatchFinal p"
          using J(3) agg(2) can_aggregate_order [OF assms(3) agg(1)] by (auto simp: join_key_def proof_key_def)
        show "proof_key p \<in> proof_keys (agg_tables s1)" using J by (simp add: joined_def)
      qed
      have "finished env (agg_tables s1) q p r s'"
        by (rule tripleD [OF at_finish_proof [OF assms(1) p] _ fin]) (simp add: at_state_def J(1))
      then show ?thesis
        by (rule aggregation_effect_of_finish [OF assms(3) agg J(2,3) _ nP])
    next
      case (Err e)
      obtain u s2 where u: "unlockProofsToAggregate env p1 p2 s1 = Some (u, s2)"
        using run j Err by (auto simp: sbind_def on_error_def attempt_def split: option.splits)
      have "at_state (agg_tables s) q s1" using joinQ Err by (simp add: at_state_def)
      from tripleD [OF at_unlockProofsToAggregate [OF assms(1,2) s [THEN conjunct2]] this u]
      show ?thesis
        using run j Err u nP no [of s2 r]
        by (auto simp: sbind_def on_error_def attempt_def fail_def split: outcome.splits)
    next
      case Panic
      then show ?thesis using run j nP by (auto simp: sbind_def on_error_def attempt_def)
    qed
  qed
  define G where "G r s = (case r of Ok x \<Rightarrow> agg_sent s = q \<and> pair_locked t x (agg_tables s) | _ \<Rightarrow> at_state t q s)"
    for r :: "(state_proof \<times> state_proof) result" and s
  show ?thesis
    unfolding tryAggregateProofs_def
  proof (rule triple_sbind)
    show "triple (at_state t q) (attempt (getAndLockProofsToAggregate env)) (seq_post G ?Q)"
      by (rule triple_attempt, rule triple_post [OF at_getAndLockProofsToAggregate [OF assms(1)]])
         (auto simp: G_def split: outcome.splits)
    fix r :: "(state_proof \<times> state_proof) result"
    show "triple (G r) (case r of
        Err e \<Rightarrow> if e = EStorage ErrNotFound then ret False else fail e
      | Panic \<Rightarrow> crash
      | Ok (p1, p2) \<Rightarrow>
          sbind (on_error (join_proofs env pr p1 p2) (unlockProofsToAggregate env p1 p2)) (\<lambda>proof. finish_proof env pr proof)) ?Q"
    proof (cases r)
      case (Ok x)
      then show ?thesis
        unfolding Ok by (cases x) (auto simp: G_def intro!: triple_pre [OF body])
    qed (auto simp: G_def at_state_def triple_def ret_def fail_def crash_def aggregation_effect_def)
  qed
qed

end
