(* ===== verification/Agg_Generate.thy ===== *)
theory Agg_Generate
  imports Agg_Aggregate_Runs
begin

text \<open>
  \<open>tryGenerateBatchProof\<close> of \<open>aggregator/aggregator.go\<close> and \<open>aggregator/profitabilitychecker.go\<close>: the
  first batch after the last verified one that no proof covers is locked by a proof row without a
  proof, its input is built, a prover proves it, and the proof is offered for the final proof or
  unlocked.
\<close>

section \<open>\<open>profitabilitychecker.go\<close>\<close>

datatype profitability_checker = TxProfitabilityCheckerBase int | TxProfitabilityCheckerAcceptAll

definition ProfitabilityBase :: string where "ProfitabilityBase = ''base''"
definition ProfitabilityAcceptAll :: string where "ProfitabilityAcceptAll = ''acceptall''"

definition NewTxProfitabilityCheckerBase :: "int \<Rightarrow> profitability_checker" where
  "NewTxProfitabilityCheckerBase minReward = TxProfitabilityCheckerBase minReward"

definition NewTxProfitabilityCheckerAcceptAll :: profitability_checker where
  "NewTxProfitabilityCheckerAcceptAll = TxProfitabilityCheckerAcceptAll"

fun IsProfitable :: "profitability_checker \<Rightarrow> int \<Rightarrow> bool" where
  "IsProfitable (TxProfitabilityCheckerBase minReward) polCollateral = (polCollateral \<ge> minReward)"
| "IsProfitable TxProfitabilityCheckerAcceptAll polCollateral = True"

text \<open>The checker that \<open>New\<close> makes of the configuration; for an unknown type it stays \<open>nil\<close>.\<close>

definition profitabilityChecker :: "agg_config \<Rightarrow> profitability_checker option" where
  "profitabilityChecker cfg =
     (if TxProfitabilityCheckerType cfg = ProfitabilityBase then
        Some (NewTxProfitabilityCheckerBase (TxProfitabilityMinReward cfg))
      else if TxProfitabilityCheckerType cfg = ProfitabilityAcceptAll then Some NewTxProfitabilityCheckerAcceptAll
      else None)"

section \<open>Choosing the batch\<close>

lemma db_read_exists_bigint:
  "db_read env (CheckProofExistsForBatch b) s = Some (Ok x, s') \<Longrightarrow> unat b < 2 ^ 63"
  by (auto simp: db_read_def sbind_def interact_def getter_def lift_def fail_def outcome_simps
      CheckProofExistsForBatch_def bigint_def split: if_splits)

text \<open>
  The loop over the batch numbers. It ends at \<open>2^63\<close> at the latest, which the database refuses.
\<close>

function find_batch :: "agg_env \<Rightarrow> u64 \<Rightarrow> aggregator \<Rightarrow> (u64 result \<times> aggregator) option" where
  "find_batch env b s =
     (case db_read env (CheckProofExistsForBatch (b + 1)) s of
        None \<Rightarrow> None
      | Some (Err e, s') \<Rightarrow> Some (Err e, s')
      | Some (Panic, s') \<Rightarrow> Some (Panic, s')
      | Some (Ok proofExists, s') \<Rightarrow> if proofExists then find_batch env (b + 1) s' else Some (Ok (b + 1), s'))"
  by pat_completeness auto
termination
proof (relation "measure (\<lambda>(env, b, s). if b = - 1 then 2 ^ 64 else 2 ^ 64 - 1 - unat b)")
  fix env b s x r s' y
  assume "db_read env (CheckProofExistsForBatch (b + 1)) s = Some x" "(r, s') = x" "r = Ok y"
  then have lt: "unat (b + 1) < 2 ^ 63"
    by (intro db_read_exists_bigint) auto
  have top: "unat (- 1 :: u64) = 2 ^ 64 - 1" by (simp add: unsigned_minus_1_eq_mask mask_eq_exp_minus_1)
  have "b + 1 \<noteq> - 1"
  proof
    assume "b + 1 = - 1"
    with lt have "unat (- 1 :: u64) < 2 ^ 63" by simp
    then show False unfolding top by simp
  qed
  moreover have "b \<noteq> - 1 \<Longrightarrow> unat (b + 1) = unat b + 1"
    by (metis Suc_eq_plus1 add.commute eq_neg_iff_add_eq_0 unatSuc)
  ultimately show "((env, b + 1, s'), (env, b, s)) \<in> measure (\<lambda>(env, b, s). if b = - 1 then 2 ^ 64 else 2 ^ 64 - 1 - unat b)"
    using lt by auto
qed simp

declare find_batch.simps [simp del]

definition getAndLockBatchToProve ::
    "agg_env \<Rightarrow> prover \<Rightarrow> (state_batch \<times> byte list \<times> state_proof) option step" where
  "getAndLockBatchToProve env pr =
     sbind (latest_verified env) (\<lambda>lastVerifiedBatchNumber.
     sbind (find_batch env lastVerifiedBatchNumber) (\<lambda>batchNumberToVerify.
     sbind (attempt (ask env (\<lambda>n. l1_result (env_sequence env n batchNumberToVerify)))) (\<lambda>r.
     case r of
       Err e \<Rightarrow> fail (if e = EL1 L1NotFound then EStorage ErrNotFound else e)
     | Panic \<Rightarrow> crash
     | Ok None \<Rightarrow> fail (EStorage ErrNotFound)
     | Ok (Some sequence) \<Rightarrow>
         sbind (db_read env (GetBatch batchNumberToVerify)) (\<lambda>dbBatch.
         if Witness dbBatch = [] then fail (EStorage ErrNotFound)
         else
           sbind (db_write env (\<lambda>_. CallAddSequence
             \<lparr>FromBatchNumber = seq_From sequence, ToBatchNumber = seq_To sequence\<rparr>)) (\<lambda>_.
           case profitabilityChecker (env_cfg env) of
             None \<Rightarrow> crash
           | Some pc \<Rightarrow>
           if \<not> IsProfitable pc 0 then ret None
           else
             sbind (time_now env) (\<lambda>now.
             let proof = \<lparr>ProofBatch = BatchNumber (Batch dbBatch), ProofBatchFinal = BatchNumber (Batch dbBatch),
                          ProofText = '''', InputProver = '''', ProofID = None, Prover = Some (prover_name pr),
                          ProverID = Some (prover_id pr), GeneratingSince = Some now, CreatedAt = 0, UpdatedAt = 0\<rparr> in
             sbind (db_write env (\<lambda>t. CallAddProof t proof)) (\<lambda>_.
             ret (Some (Batch dbBatch, Witness dbBatch, proof)))))))))"

section \<open>The input of the prover\<close>

text \<open>A leaf that is missing in the map Go reads it from is the zero value; its time is year 1.\<close>

definition zero_leaf :: l1_leaf where
  "zero_leaf = \<lparr>leaf_GlobalExitRoot = 0, leaf_PreviousBlockHash = 0, leaf_Timestamp = - 62135596800\<rparr>"

definition leaf_hash :: "libraries \<Rightarrow> l1_leaf \<Rightarrow> hash" where
  "leaf_hash lib leaf =
     HashLeafData (lib_keccak lib) (leaf_GlobalExitRoot leaf) (leaf_PreviousBlockHash leaf)
       (word_of_int (leaf_Timestamp leaf))"

text \<open>The loop over the blocks; \<open>l1InfoTreeData\<close> is the map built so far, by index.\<close>

fun block_data ::
    "agg_env \<Rightarrow> l1_info_tree \<Rightarrow> hash \<Rightarrow> hash list \<Rightarrow> l2_block_raw list \<Rightarrow> (u32 \<times> l1_data) list \<Rightarrow>
     (u32 \<times> l1_data) list step" where
  "block_data env tree root aLeaves [] l1InfoTreeData = ret l1InfoTreeData"
| "block_data env tree root aLeaves (b # bs) l1InfoTreeData =
     (let i = IndexL1InfoTree (block_header b) in
      if map_of l1InfoTreeData i = None \<and> i \<noteq> 0 then
        sbind (ask env (\<lambda>n. l1_result (env_leaf env n i))) (\<lambda>leaf.
        let leaf = (case leaf of None \<Rightarrow> zero_leaf | Some l \<Rightarrow> l) in
        sbind (lift (map_err ETree (ComputeMerkleProof (lib_keccak (env_lib env)) tree i aLeaves))) (\<lambda>(smtProof, calculated).
        if root \<noteq> calculated then fail ERootMismatch
        else
          block_data env tree root aLeaves bs
            ((i, \<lparr>l1_GlobalExitRoot = hash_bytes (leaf_GlobalExitRoot leaf),
                  l1_BlockhashL1 = hash_bytes (leaf_PreviousBlockHash leaf),
                  l1_MinTimestamp = word_of_int (leaf_Timestamp leaf),
                  l1_SmtProof = map hash_bytes smtProof\<rparr>) # l1InfoTreeData)))
      else block_data env tree root aLeaves bs l1InfoTreeData)"

text \<open>The data of the L1 info tree, the block hash of a forced batch and the root: the two cases.\<close>

definition l1_part :: "agg_env \<Rightarrow> state_batch \<Rightarrow> l2_block_raw list \<Rightarrow> bool \<Rightarrow> ((u32 \<times> l1_data) list \<times> hash \<times> byte list) step" where
  "l1_part env batchToVerify blocks isForcedBatch =
     (if \<not> isForcedBatch then
        sbind (lift (map_err ETree (NewL1InfoTree (lib_keccak (env_lib env)) 32 []))) (\<lambda>tree.
        sbind (attempt (ask env (\<lambda>n. l1_result (env_leaves env n (L1InfoRoot batchToVerify))))) (\<lambda>r.
        case r of
          Panic \<Rightarrow> crash
        | Err e \<Rightarrow>
            if e \<noteq> EL1 L1NotFound then fail e
            else
              sbind (block_data env tree (L1InfoRoot batchToVerify) [] blocks []) (\<lambda>l1InfoTreeData.
              ret (l1InfoTreeData, 0, hash_bytes (L1InfoRoot batchToVerify)))
        | Ok leaves \<Rightarrow>
            sbind (block_data env tree (L1InfoRoot batchToVerify) (map (leaf_hash (env_lib env)) leaves) blocks [])
              (\<lambda>l1InfoTreeData. ret (l1InfoTreeData, 0, hash_bytes (L1InfoRoot batchToVerify)))))
      else if BatchNumber batchToVerify = 1 then
        sbind (ask env (\<lambda>n. l1_result (env_virtual env n (BatchNumber batchToVerify)))) (\<lambda>virtualBatch.
        sbind (ask env (\<lambda>n. l1_result (env_block_parent env n (vb_BlockNumber virtualBatch)))) (\<lambda>parentHash.
        ret ([], parentHash, hash_bytes (GlobalExitRoot batchToVerify))))
      else ret ([], 0, hash_bytes (L1InfoRoot batchToVerify)))"

definition buildInputProver :: "agg_env \<Rightarrow> state_batch \<Rightarrow> byte list \<Rightarrow> stateless_public_inputs step" where
  "buildInputProver env batchToVerify witness =
     (let isForcedBatch = (BatchNumber batchToVerify = 1 \<or> ForcedBatchNum batchToVerify \<noteq> None) in
      sbind (if isForcedBatch then ret \<lparr>Blocks = []\<rparr>
             else lift (map_err EState
               (DecodeBatchV2 (lib_rlp (env_lib env)) (lib_newTx (env_lib env)) (BatchL2Data batchToVerify)))) (\<lambda>batchRawData.
      sbind (l1_part env batchToVerify (Blocks batchRawData) isForcedBatch) (\<lambda>(l1InfoTreeData, forcedBlockhashL1, l1InfoRoot).
      sbind (db_read env (GetBatch (BatchNumber batchToVerify - 1))) (\<lambda>oldDBBatch.
      ret \<lparr>pi_Witness = witness,
           pi_OldAccInputHash = hash_bytes (AccInputHash (Batch oldDBBatch)),
           pi_OldBatchNum = BatchNumber batchToVerify - 1,
           pi_ChainId = ChainID batchToVerify,
           pi_ForkId = ForkID batchToVerify,
           pi_BatchL2Data = BatchL2Data batchToVerify,
           pi_L1InfoRoot = l1InfoRoot,
           pi_TimestampLimit = word_of_int (Timestamp batchToVerify),
           pi_SequencerAddr = lib_checksum_text (env_lib env) (Coinbase batchToVerify),
           pi_AggregatorAddr = SenderAddress (env_cfg env),
           pi_L1InfoTreeData = l1InfoTreeData,
           pi_ForcedBlockhashL1 = hash_bytes forcedBlockhashL1\<rparr>))))"

section \<open>Generating\<close>

text \<open>
  What the deferred deletion covers. A state root that is not the batch's stops the prover's
  channel for good: the code logs and sleeps in a loop without an exit.
\<close>

definition prove_batch :: "agg_env \<Rightarrow> state_batch \<Rightarrow> byte list \<Rightarrow> state_proof \<Rightarrow> state_proof step" where
  "prove_batch env batchToProve witness proof =
     sbind (buildInputProver env batchToProve witness) (\<lambda>inputProver.
     sbind (ask env (\<lambda>n. map_err EProver (BatchProof (env_prover env n) inputProver))) (\<lambda>genProofID.
     sbind (wait_recursive env genProofID) (\<lambda>(resGetProof, stateRoot).
     if BatchProofSanityCheckEnabled (env_cfg env) \<and> stateRoot \<noteq> 0 \<and> stateRoot \<noteq> StateRoot batchToProve then hang
     else ret (proof\<lparr>ProofID := Some genProofID, ProofText := resGetProof\<rparr>))))"

definition tryGenerateBatchProof :: "agg_env \<Rightarrow> prover \<Rightarrow> bool step" where
  "tryGenerateBatchProof env pr =
     sbind (attempt (getAndLockBatchToProve env pr)) (\<lambda>r.
     case r of
       Err e \<Rightarrow> if e = EStorage ErrNotFound \<or> e = EL1 L1NotFound then ret False else fail e
     | Panic \<Rightarrow> crash
     | Ok None \<Rightarrow> crash
     | Ok (Some (batchToProve, witness, proof)) \<Rightarrow>
         sbind (on_error (prove_batch env batchToProve witness proof)
           (db_write env (\<lambda>_. CallDeleteProofs (ProofBatch proof) (ProofBatchFinal proof)))) (\<lambda>proof.
         finish_proof env pr proof))"

end
