(* ===== verification/Agg_Generate_Runs.thy ===== *)
theory Agg_Generate_Runs
  imports Agg_Generate
begin

text \<open>
  What is proved of \<open>tryGenerateBatchProof\<close>: the Merkle proofs it sends to a prover, the invariants it
  keeps, and what an undisturbed call does to the keys and the locks of the proofs.
\<close>

section \<open>The L1 data of the input\<close>

lemma sbind_OkD:
  "sbind m f s = Some (Ok y, s'') \<Longrightarrow> \<exists>x s'. m s = Some (Ok x, s') \<and> f x s' = Some (Ok y, s'')"
  by (auto simp: sbind_def split: option.splits prod.splits outcome.splits)

lemma ask_OkD: "ask env f s = Some (Ok x, s') \<Longrightarrow> \<exists>n. f n = Ok x"
  by (auto simp: ask_def sbind_def interact_def lift_def)

lemma lift_Ok_iff: "lift r s = Some (Ok x, s') \<longleftrightarrow> r = Ok x \<and> s' = s"
  by (auto simp: lift_def)

lemma ret_Ok_iff: "ret x s = Some (Ok y, s') \<longleftrightarrow> y = x \<and> s' = s"
  by (auto simp: ret_def)

lemma fail_not_Ok: "fail e s \<noteq> Some (Ok x, s')" "crash s \<noteq> Some (Ok x, s')"
  by (simp_all add: fail_def crash_def)

text \<open>An entry of the map verifies against the root.\<close>

definition entry_verifies :: "(byte list \<Rightarrow> byte list) \<Rightarrow> hash \<Rightarrow> hash list \<Rightarrow> u32 \<Rightarrow> l1_data \<Rightarrow> bool" where
  "entry_verifies keccak root leaves i d \<longleftrightarrow>
     (\<exists>sibs. l1_SmtProof d = map hash_bytes sibs \<and> length sibs = 32 \<and>
        climb keccak (unat i) (if unat i < length leaves then leaves ! unat i else 0) sibs = root)"

lemma block_data_Ok:
  assumes tree: "NewL1InfoTree (lib_keccak (env_lib env)) 32 [] = Ok tree" and leaves: "length leaves < 2 ^ 32 - 1"
    and run: "block_data env tree root leaves bs acc s = Some (Ok D, s')"
    and acc: "\<forall>(i, d) \<in> set acc. entry_verifies (lib_keccak (env_lib env)) root leaves i d" "distinct (map fst acc)"
  shows "(\<forall>(i, d) \<in> set D. entry_verifies (lib_keccak (env_lib env)) root leaves i d) \<and> distinct (map fst D) \<and>
    fst ` set D = fst ` set acc \<union> {i \<in> (\<lambda>b. IndexL1InfoTree (block_header b)) ` set bs. i \<noteq> 0}"
  using run acc
proof (induction bs arbitrary: acc s)
  case Nil
  then show ?case by (simp add: ret_Ok_iff)
next
  case (Cons b bs)
  let ?K = "lib_keccak (env_lib env)" and ?i = "IndexL1InfoTree (block_header b)"
  show ?case
  proof (cases "map_of acc ?i = None \<and> ?i \<noteq> 0")
    case True
    then obtain leaf :: l1_leaf and s1 x s2 where run: "lift (map_err ETree (ComputeMerkleProof ?K tree ?i leaves)) s1 = Some (Ok x, s2)"
      and rest: "(case x of (smtProof, calculated) \<Rightarrow>
        if root \<noteq> calculated then fail ERootMismatch
        else block_data env tree root leaves bs
            ((?i, \<lparr>l1_GlobalExitRoot = hash_bytes (leaf_GlobalExitRoot leaf),
                  l1_BlockhashL1 = hash_bytes (leaf_PreviousBlockHash leaf),
                  l1_MinTimestamp = word_of_int (leaf_Timestamp leaf),
                  l1_SmtProof = map hash_bytes smtProof\<rparr>) # acc)) s2 = Some (Ok D, s')"
      using Cons.prems(1) by (auto simp: Let_def dest!: sbind_OkD)
    obtain sibs c where x: "x = (sibs, c)" by (cases x)
    then have comp: "ComputeMerkleProof ?K tree ?i leaves = Ok (sibs, c)"
      using run by (simp add: lift_Ok_iff outcome_simps)
    have c: "c = root" and rest: "block_data env tree root leaves bs
            ((?i, \<lparr>l1_GlobalExitRoot = hash_bytes (leaf_GlobalExitRoot leaf),
                  l1_BlockhashL1 = hash_bytes (leaf_PreviousBlockHash leaf),
                  l1_MinTimestamp = word_of_int (leaf_Timestamp leaf),
                  l1_SmtProof = map hash_bytes sibs\<rparr>) # acc) s2 = Some (Ok D, s')"
      using rest by (auto simp: x fail_not_Ok split: if_splits)
    have fits: "length leaves \<le> 2 ^ unat (32 :: 8 word)" "unat ?i < 2 ^ unat (32 :: 8 word)"
    proof -
      have "unat ?i < 2 ^ LENGTH(32)" by (rule unsigned_less)
      then show "unat ?i < 2 ^ unat (32 :: 8 word)" by simp
    qed (use leaves in simp)
    have "\<exists>sibs r. ComputeMerkleProof ?K tree ?i leaves = Ok (sibs, r) \<and>
        BuildL1InfoRoot ?K tree leaves = Ok r \<and> length sibs = unat (32 :: 8 word) \<and>
        climb ?K (unat ?i) (if unat ?i < length leaves then leaves ! unat ?i else 0) sibs = r"
      by (rule compute_proof_climbs [OF tree _ fits(1) leaves fits(2)]) simp
    then have v: "length sibs = 32"
      "climb ?K (unat ?i) (if unat ?i < length leaves then leaves ! unat ?i else 0) sibs = root"
      using comp c by auto
    let ?d = "\<lparr>l1_GlobalExitRoot = hash_bytes (leaf_GlobalExitRoot leaf),
                  l1_BlockhashL1 = hash_bytes (leaf_PreviousBlockHash leaf),
                  l1_MinTimestamp = word_of_int (leaf_Timestamp leaf),
                  l1_SmtProof = map hash_bytes sibs\<rparr>"
    have e: "entry_verifies ?K root leaves ?i ?d"
      unfolding entry_verifies_def by (rule exI [of _ sibs]) (use v in simp)
    have new: "?i \<notin> fst ` set acc" using True by (auto simp: map_of_eq_None_iff)
    have "(\<forall>(i, d) \<in> set D. entry_verifies ?K root leaves i d) \<and> distinct (map fst D) \<and>
      fst ` set D = fst ` set ((?i, ?d) # acc) \<union> {i \<in> (\<lambda>b. IndexL1InfoTree (block_header b)) ` set bs. i \<noteq> 0}"
      using e new Cons.prems(2,3) by (intro Cons.IH [OF rest]) auto
    then show ?thesis using True by auto
  next
    case False
    then have "block_data env tree root leaves bs acc s = Some (Ok D, s')"
      using Cons.prems(1) by (simp add: Let_def split: if_splits)
    from Cons.IH [OF this Cons.prems(2,3)] False show ?thesis
      by (auto simp: map_of_eq_None_iff)
  qed
qed


text \<open>No answer of L1 has more leaves than the tree has room for.\<close>

definition leaves_fit :: "agg_env \<Rightarrow> bool" where
  "leaves_fit env \<longleftrightarrow> (\<forall>n h L. env_leaves env n h = Inr L \<longrightarrow> length L < 2 ^ 32 - 1)"

lemma l1_part_Ok:
  assumes "l1_part env b blocks False s = Some (Ok (D, f, r), s')"
    "leaves_fit env"
  shows "f = 0 \<and> r = hash_bytes (L1InfoRoot b) \<and>
    (\<exists>leaves. (leaves = [] \<or> (\<exists>n. env_leaves env n (L1InfoRoot b) = Inr leaves)) \<and>
      (\<forall>(i, d) \<in> set D. entry_verifies (lib_keccak (env_lib env)) (L1InfoRoot b) (map (leaf_hash (env_lib env)) leaves) i d)) \<and>
    distinct (map fst D) \<and> fst ` set D = {i \<in> (\<lambda>b. IndexL1InfoTree (block_header b)) ` set blocks. i \<noteq> 0}"
proof -
  obtain tree r1 s1 s2 where tree: "NewL1InfoTree (lib_keccak (env_lib env)) 32 [] = Ok tree"
    and r1: "attempt (ask env (\<lambda>n. l1_result (env_leaves env n (L1InfoRoot b)))) s1 = Some (Ok r1, s2)"
    and rest: "(case r1 of
          Panic \<Rightarrow> crash
        | Err e \<Rightarrow>
            if e \<noteq> EL1 L1NotFound then fail e
            else
              sbind (block_data env tree (L1InfoRoot b) [] blocks []) (\<lambda>l1InfoTreeData.
              ret (l1InfoTreeData, 0, hash_bytes (L1InfoRoot b)))
        | Ok leaves \<Rightarrow>
            sbind (block_data env tree (L1InfoRoot b) (map (leaf_hash (env_lib env)) leaves) blocks [])
              (\<lambda>l1InfoTreeData. ret (l1InfoTreeData, 0, hash_bytes (L1InfoRoot b)))) s2 = Some (Ok (D, f, r), s')"
    using assms(1) by (auto simp: l1_part_def lift_Ok_iff outcome_simps dest!: sbind_OkD)
  define leaves where "leaves = (case r1 of Ok L \<Rightarrow> L | _ \<Rightarrow> [])"
  have known: "leaves = [] \<or> (\<exists>n. env_leaves env n (L1InfoRoot b) = Inr leaves)"
  proof (cases r1)
    case (Ok L)
    then obtain n where "l1_result (env_leaves env n (L1InfoRoot b)) = Ok L"
      using r1 by (auto simp: attempt_def split: option.splits prod.splits outcome.splits dest!: ask_OkD)
    then show ?thesis
      using Ok by (cases "env_leaves env n (L1InfoRoot b)") (auto simp: leaves_def)
  qed (simp_all add: leaves_def)
  then have len: "length (map (leaf_hash (env_lib env)) leaves) < 2 ^ 32 - 1"
    using assms(2) by (auto simp: leaves_fit_def)
  have "\<exists>s3. block_data env tree (L1InfoRoot b) (map (leaf_hash (env_lib env)) leaves) blocks [] s2 = Some (Ok D, s3) \<and>
      f = 0 \<and> r = hash_bytes (L1InfoRoot b)"
    using rest by (auto simp: leaves_def fail_not_Ok ret_Ok_iff split: outcome.splits if_splits dest!: sbind_OkD)
  then obtain s3 where run: "block_data env tree (L1InfoRoot b) (map (leaf_hash (env_lib env)) leaves) blocks [] s2 = Some (Ok D, s3)"
    and fr: "f = 0" "r = hash_bytes (L1InfoRoot b)" by blast
  have "(\<forall>(i, d) \<in> set D. entry_verifies (lib_keccak (env_lib env)) (L1InfoRoot b) (map (leaf_hash (env_lib env)) leaves) i d) \<and>
      distinct (map fst D) \<and>
      fst ` set D = fst ` set ([] :: (u32 \<times> l1_data) list) \<union> {i \<in> (\<lambda>b. IndexL1InfoTree (block_header b)) ` set blocks. i \<noteq> 0}"
    by (rule block_data_Ok [OF tree len run]) simp_all
  then show ?thesis using known fr by auto
qed

lemma buildInputProver_Ok:
  assumes "buildInputProver env b w s = Some (Ok inp, s')" "BatchNumber b \<noteq> 1" "ForcedBatchNum b = None"
  shows "\<exists>raw s1 s2 f.
    DecodeBatchV2 (lib_rlp (env_lib env)) (lib_newTx (env_lib env)) (BatchL2Data b) = Ok raw \<and>
    l1_part env b (Blocks raw) False s1 = Some (Ok (pi_L1InfoTreeData inp, f, pi_L1InfoRoot inp), s2)"
proof -
  have forced: "(BatchNumber b = 1 \<or> ForcedBatchNum b \<noteq> None) = False" using assms(2,3) by simp
  note run = assms(1) [unfolded buildInputProver_def Let_def forced if_False]
  obtain raw s1 where raw: "lift (map_err EState
      (DecodeBatchV2 (lib_rlp (env_lib env)) (lib_newTx (env_lib env)) (BatchL2Data b))) s = Some (Ok raw, s1)"
    and rest: "sbind (l1_part env b (Blocks raw) False) (\<lambda>(l1InfoTreeData, forcedBlockhashL1, l1InfoRoot).
      sbind (db_read env (GetBatch (BatchNumber b - 1))) (\<lambda>oldDBBatch.
      ret \<lparr>pi_Witness = w,
           pi_OldAccInputHash = hash_bytes (AccInputHash (Batch oldDBBatch)),
           pi_OldBatchNum = BatchNumber b - 1,
           pi_ChainId = ChainID b,
           pi_ForkId = ForkID b,
           pi_BatchL2Data = BatchL2Data b,
           pi_L1InfoRoot = l1InfoRoot,
           pi_TimestampLimit = word_of_int (Timestamp b),
           pi_SequencerAddr = lib_checksum_text (env_lib env) (Coinbase b),
           pi_AggregatorAddr = SenderAddress (env_cfg env),
           pi_L1InfoTreeData = l1InfoTreeData,
           pi_ForcedBlockhashL1 = hash_bytes forcedBlockhashL1\<rparr>)) s1 = Some (Ok inp, s')"
    using sbind_OkD [OF run] by blast
  obtain D f r s2 where part: "l1_part env b (Blocks raw) False s1 = Some (Ok (D, f, r), s2)"
    and rest: "sbind (db_read env (GetBatch (BatchNumber b - 1))) (\<lambda>oldDBBatch.
      ret \<lparr>pi_Witness = w,
           pi_OldAccInputHash = hash_bytes (AccInputHash (Batch oldDBBatch)),
           pi_OldBatchNum = BatchNumber b - 1,
           pi_ChainId = ChainID b,
           pi_ForkId = ForkID b,
           pi_BatchL2Data = BatchL2Data b,
           pi_L1InfoRoot = r,
           pi_TimestampLimit = word_of_int (Timestamp b),
           pi_SequencerAddr = lib_checksum_text (env_lib env) (Coinbase b),
           pi_AggregatorAddr = SenderAddress (env_cfg env),
           pi_L1InfoTreeData = D,
           pi_ForcedBlockhashL1 = hash_bytes f\<rparr>) s2 = Some (Ok inp, s')"
    using sbind_OkD [OF rest] by auto
  have "pi_L1InfoTreeData inp = D \<and> pi_L1InfoRoot inp = r"
    using sbind_OkD [OF rest] by (auto simp: ret_Ok_iff)
  moreover have "DecodeBatchV2 (lib_rlp (env_lib env)) (lib_newTx (env_lib env)) (BatchL2Data b) = Ok raw"
    using raw by (simp add: lift_Ok_iff outcome_simps)
  ultimately show ?thesis using part by blast
qed

text \<open>
  C4. The Merkle proofs sent to a prover verify. When \<open>buildInputProver\<close> succeeds for a batch that is
  not forced, the L1 info data it sends has one entry for each index other than 0 that a block of the
  decoded batch names, and hashing the leaf of that index (the empty leaf past the last one) up
  along the 32 siblings of the entry gives the L1 info root of the batch.
\<close>

theorem input_l1_data_verifies:
  assumes "buildInputProver env b w s = Some (Ok inp, s')" "BatchNumber b \<noteq> 1" "ForcedBatchNum b = None"
    "leaves_fit env"
  shows "pi_L1InfoRoot inp = hash_bytes (L1InfoRoot b) \<and>
    (\<exists>raw leaves. DecodeBatchV2 (lib_rlp (env_lib env)) (lib_newTx (env_lib env)) (BatchL2Data b) = Ok raw \<and>
      (leaves = [] \<or> (\<exists>n. env_leaves env n (L1InfoRoot b) = Inr leaves)) \<and>
      fst ` set (pi_L1InfoTreeData inp) = {i \<in> (\<lambda>b. IndexL1InfoTree (block_header b)) ` set (Blocks raw). i \<noteq> 0} \<and>
      distinct (map fst (pi_L1InfoTreeData inp)) \<and>
      (\<forall>(i, d) \<in> set (pi_L1InfoTreeData inp).
        \<exists>sibs. l1_SmtProof d = map hash_bytes sibs \<and> length sibs = 32 \<and>
          climb (lib_keccak (env_lib env)) (unat i)
            (if unat i < length leaves then leaf_hash (env_lib env) (leaves ! unat i) else 0) sibs = L1InfoRoot b))"
proof -
  obtain raw s1 s2 f where raw: "DecodeBatchV2 (lib_rlp (env_lib env)) (lib_newTx (env_lib env)) (BatchL2Data b) = Ok raw"
    and part: "l1_part env b (Blocks raw) False s1 = Some (Ok (pi_L1InfoTreeData inp, f, pi_L1InfoRoot inp), s2)"
    using buildInputProver_Ok [OF assms(1-3)] by auto
  let ?L = "\<lambda>leaves. map (leaf_hash (env_lib env)) leaves"
  from l1_part_Ok [OF part assms(4)] obtain leaves where
    known: "leaves = [] \<or> (\<exists>n. env_leaves env n (L1InfoRoot b) = Inr leaves)"
    and ver: "\<forall>(i, d) \<in> set (pi_L1InfoTreeData inp). entry_verifies (lib_keccak (env_lib env)) (L1InfoRoot b) (?L leaves) i d"
    and rest: "pi_L1InfoRoot inp = hash_bytes (L1InfoRoot b)" "distinct (map fst (pi_L1InfoTreeData inp))"
    "fst ` set (pi_L1InfoTreeData inp) = {i \<in> (\<lambda>b. IndexL1InfoTree (block_header b)) ` set (Blocks raw). i \<noteq> 0}"
    by (elim conjE exE) (rule that)
  have leaf: "(if unat i < length (?L leaves) then ?L leaves ! unat i else 0) =
      (if unat i < length leaves then leaf_hash (env_lib env) (leaves ! unat i) else 0)" for i :: u32
    by simp
  have "\<forall>(i, d) \<in> set (pi_L1InfoTreeData inp).
        \<exists>sibs. l1_SmtProof d = map hash_bytes sibs \<and> length sibs = 32 \<and>
          climb (lib_keccak (env_lib env)) (unat i)
            (if unat i < length leaves then leaf_hash (env_lib env) (leaves ! unat i) else 0) sibs = L1InfoRoot b"
    using ver unfolding entry_verifies_def leaf .
  with raw known rest show ?thesis by blast
qed

section \<open>Invariants\<close>

lemma find_batch_step:
  "find_batch env b = sbind (db_read env (CheckProofExistsForBatch (b + 1)))
     (\<lambda>proofExists. if proofExists then find_batch env (b + 1) else ret (b + 1))"
  by (rule ext) (simp add: find_batch.simps [of env b] sbind_def ret_def split: option.split prod.split outcome.split)

text \<open>The rule of the loop: \<open>P\<close> is kept by each check, and \<open>C\<close> relates a number to the check's answer.\<close>

lemma find_batch_rule:
  assumes "\<And>b. triple P (db_read env (CheckProofExistsForBatch b)) (\<lambda>r s. P s \<and> r \<noteq> Panic \<and> (\<forall>x. r = Ok x \<longrightarrow> C b x))"
    "P s" "find_batch env b s = Some (r, s')"
  shows "P s' \<and> r \<noteq> Panic \<and> (\<forall>n. r = Ok n \<longrightarrow> C n False \<and> (\<exists>k. n = b + 1 + of_nat k \<and> (\<forall>i < k. C (b + 1 + of_nat i) True)))"
  using assms
proof (induction env b s rule: find_batch.induct [case_names step])
  case (step env b s)
  let ?m = "db_read env (CheckProofExistsForBatch (b + 1))"
  obtain x s1 where m: "?m s = Some (x, s1)"
    using step.prems(3) by (auto simp: find_batch.simps [of env b] split: option.splits)
  from tripleD [OF step.prems(1,2) m] have x: "P s1" "x \<noteq> Panic" "\<And>y. x = Ok y \<Longrightarrow> C (b + 1) y" by auto
  show ?case
  proof (cases x)
    case (Ok y)
    show ?thesis
    proof (cases y)
      case True
      then have run: "find_batch env (b + 1) s1 = Some (r, s')"
        using step.prems(3) m Ok by (simp add: find_batch.simps [of env b])
      have IH: "P s' \<and> r \<noteq> Panic \<and> (\<forall>n. r = Ok n \<longrightarrow> C n False \<and>
          (\<exists>k. n = b + 1 + 1 + of_nat k \<and> (\<forall>i < k. C (b + 1 + 1 + of_nat i) True)))"
        by (rule step.IH [OF m refl Ok True step.prems(1) x(1) run])
      have shift: "\<exists>k. n = b + 1 + of_nat k \<and> (\<forall>i < k. C (b + 1 + of_nat i) True)"
        if k: "n = b + 1 + 1 + of_nat k" "\<forall>i < k. C (b + 1 + 1 + of_nat i) True" for n k
      proof (intro exI conjI allI impI)
        show "n = b + 1 + of_nat (Suc k)" using k(1) by (simp add: ac_simps)
        show "C (b + 1 + of_nat i) True" if "i < Suc k" for i
          using that k(2) x(3) [OF Ok] True by (cases i) (auto simp: ac_simps)
      qed
      show ?thesis using IH shift by blast
    next
      case False
      then show ?thesis
        using step.prems(3) m Ok x by (auto simp: find_batch.simps [of env b] intro: exI [of _ 0])
    qed
  qed (use step.prems(3) m x in \<open>auto simp: find_batch.simps [of env b]\<close>)
qed

context proof_invariant begin

lemma keeps_find_batch:
  assumes "others_allowed env"
  shows "keeps S I W any (find_batch env b)"
proof -
  have "keeps True I W any (db_read env (CheckProofExistsForBatch b))" for b
    unfolding db_read_def
    by (rule keeps_sbind [where C = any]) 
      (auto simp: keeps_def triple_def interact_def sbind_def getter_def lift_def fail_def
        CheckProofExistsForBatch_def outcome_simps exec_calls_keeps assms [unfolded others_allowed_def])
  then have "triple (\<lambda>s. I (agg_tables s) \<and> W (agg_sent s)) (db_read env (CheckProofExistsForBatch b))
      (\<lambda>r s. (I (agg_tables s) \<and> W (agg_sent s)) \<and> r \<noteq> Panic \<and> (\<forall>x. r = Ok x \<longrightarrow> True))" for b
    unfolding keeps_def by (rule triple_post) simp
  from find_batch_rule [OF this] show ?thesis
    unfolding keeps_def triple_def by blast
qed

text \<open>A handler that may panic: \<open>S\<close> is not claimed of it.\<close>

definition may_crash :: bool where "may_crash \<longleftrightarrow> \<not> S"

lemma crash_any: "may_crash \<Longrightarrow> S \<Longrightarrow> P"
  unfolding may_crash_def by (rule notE)

lemma keeps_crash: "may_crash \<Longrightarrow> keeps S I W C crash"
  unfolding may_crash_def by (rule keeps_simple)

lemma keeps_getAndLockBatchToProve:
  assumes "others_allowed env" "may_crash"
  shows "keeps S I W (\<lambda>x. \<forall>b w p. x = Some (b, w, p) \<longrightarrow> ProofBatch p = ProofBatchFinal p) (getAndLockBatchToProve env pr)"
proof -
  let ?C = "\<lambda>x. \<forall>b w p. x = Some (b, w, p) \<longrightarrow> ProofBatch p = ProofBatchFinal p"
  have lock: "keeps S I W ?C (sbind (db_write env (\<lambda>t. CallAddProof t
       \<lparr>ProofBatch = n, ProofBatchFinal = n, ProofText = x, InputProver = y, ProofID = None,
        Prover = u, ProverID = v, GeneratingSince = Some now, CreatedAt = 0, UpdatedAt = 0\<rparr>))
       (\<lambda>_. ret (Some (b, w, \<lparr>ProofBatch = n, ProofBatchFinal = n, ProofText = x, InputProver = y, ProofID = None,
        Prover = u, ProverID = v, GeneratingSince = Some now, CreatedAt = 0, UpdatedAt = 0\<rparr>))))" for n u v now b w x y
    by (intro keeps_sbind [OF keeps_db_write [OF assms(1)]] keeps_simple add_allowed) (auto simp: unlocked_def)
  have seq: "keeps S I W ?C (sbind (db_write env (\<lambda>_. CallAddSequence sq)) f)"
    if "keeps S I W ?C (f ())" for sq f
    using that by (auto intro: keeps_sbind [OF keeps_db_write [OF assms(1)]] sequence_allowed)
  show ?thesis
    unfolding getAndLockBatchToProve_def
    apply (rule keeps_sbind [OF keeps_latest_verified [OF assms(1)]])
    apply (rule keeps_sbind [OF keeps_find_batch [OF assms(1)]])
    apply (rule keeps_attempt_sbind [OF keeps_ask [OF assms(1), where C = any]])
    subgoal by simp
    subgoal for l n n' by (cases "env_sequence env n' n") auto
    subgoal for l n sq
      apply (cases sq)
      subgoal by (simp add: keeps_simple)
      subgoal
        apply simp
        apply (rule keeps_sbind [OF keeps_db_read [OF assms(1), where C = any]])
          apply simp
         apply (simp add: GetBatch_def outcome_simps split: option.split)
        apply (use assms(2) in \<open>auto simp: Let_def split: option.split intro!: keeps_simple(1,2) keeps_crash seq keeps_sbind [OF keeps_time_now [OF assms(1)]] lock\<close>)
        done
      done
    subgoal by (simp add: keeps_simple)
    done
qed

lemma keeps_try_lift: "may_crash \<Longrightarrow> keeps S I W any (lift r)"
  by (rule keeps_lift) (rule TrueI, erule crash_any)

lemma keeps_try_ask: "may_crash \<Longrightarrow> others_allowed env \<Longrightarrow> keeps S I W any (ask env f)"
  by (rule keeps_ask) (assumption, rule TrueI, erule crash_any)

lemma keeps_block_data: "may_crash \<Longrightarrow> others_allowed env \<Longrightarrow> keeps S I W any (block_data env tree root leaves bs acc)"
  by (induction bs arbitrary: acc)
     (auto simp: Let_def split: prod.split intro!: keeps_simple(1,2) keeps_sbind [OF keeps_try_ask] keeps_sbind [OF keeps_try_lift])

lemma keeps_l1_part:
  assumes "may_crash" "others_allowed env"
  shows "keeps S I W any (l1_part env b bs f)"
  using assms unfolding l1_part_def
  by (auto split: outcome.split intro!: keeps_simple(1,2) keeps_crash keeps_sbind [OF keeps_try_ask]
      keeps_attempt_sbind [OF keeps_try_ask] keeps_sbind [OF keeps_try_lift] keeps_sbind [OF keeps_block_data])

lemma keeps_buildInputProver:
  assumes "may_crash" "others_allowed env"
  shows "keeps S I W any (buildInputProver env b w)"
proof -
  have read: "keeps S I W any (db_read env (GetBatch n))" for n
    by (rule keeps_db_read [OF assms(2)]) (rule TrueI, erule crash_any [OF assms(1)])
  show ?thesis
    using assms unfolding buildInputProver_def Let_def
    by (auto split: prod.split
        intro!: keeps_simple(1,2) keeps_sbind [where C = any] keeps_l1_part keeps_try_lift read)
qed

lemma keeps_prove_batch:
  assumes "may_crash" "others_allowed env" "ProofBatch p = ProofBatchFinal p"
  shows "keeps S I W (\<lambda>p'. U p') (prove_batch env b w p)"
proof -
  have wait: "keeps S I W any (wait_recursive env i)" for i
    by (rule keeps_wait_recursive [OF assms(2)]) (erule crash_any [OF assms(1)])
  show ?thesis
    using assms unfolding prove_batch_def
    by (auto split: prod.split intro!: keeps_simple(1,2,4) keeps_sbind [OF keeps_buildInputProver]
        keeps_sbind [OF keeps_try_ask] keeps_sbind [OF wait] usable_single)
qed

lemma keeps_tryGenerateBatchProof:
  assumes "may_crash" "others_allowed env"
  shows "keeps S I W any (tryGenerateBatchProof env pr)"
  unfolding tryGenerateBatchProof_def
proof (rule keeps_attempt_sbind [OF keeps_getAndLockBatchToProve [OF assms(2,1)]])
  fix x :: "(state_batch \<times> byte list \<times> state_proof) option"
  assume x: "\<forall>b w p. x = Some (b, w, p) \<longrightarrow> ProofBatch p = ProofBatchFinal p"
  have del: "keeps S I W any (db_write env (\<lambda>_. CallDeleteProofs a b))" for a b
    by (rule keeps_db_write [OF assms(2) delete_allowed])
  show "keeps S I W any (case Ok x of
       Err e \<Rightarrow> if e = EStorage ErrNotFound \<or> e = EL1 L1NotFound then ret False else fail e
     | Panic \<Rightarrow> crash
     | Ok None \<Rightarrow> crash
     | Ok (Some (batchToProve, witness, proof)) \<Rightarrow>
         sbind (on_error (prove_batch env batchToProve witness proof)
           (db_write env (\<lambda>_. CallDeleteProofs (ProofBatch proof) (ProofBatchFinal proof)))) (\<lambda>proof.
         finish_proof env pr proof))"
    using x assms
    by (cases x)
       (auto split: prod.split elim: crash_any
         intro!: keeps_crash keeps_sbind [OF keeps_on_error [OF keeps_prove_batch del]] keeps_finish_proof)
qed (simp add: keeps_simple)

end

section \<open>Undisturbed runs\<close>

lemma reads_then:
  assumes "reads t q C m" "\<And>x. C x \<Longrightarrow> triple (at_state t q) (f x) Q"
    "\<And>e s. at_state t q s \<Longrightarrow> Q (Err e) s" "\<And>s. at_state t q s \<Longrightarrow> Q Panic s"
  shows "triple (at_state t q) (sbind m f) Q"
proof (rule triple_sbind [where P' = "\<lambda>x s. at_state t q s \<and> C x"])
  show "triple (at_state t q) m (seq_post (\<lambda>x s. at_state t q s \<and> C x) Q)"
    using assms(1) unfolding reads_def
    by (rule triple_post) (use assms(3,4) in \<open>auto simp: seq_post_def split: outcome.split\<close>)
  show "triple (\<lambda>s. at_state t q s \<and> C x) (f x) Q" for x
    using assms(2) [of x] by (auto simp: triple_def)
qed

definition covered :: "tables \<Rightarrow> u64 \<Rightarrow> bool" where
  "covered t n \<longleftrightarrow> (\<exists>p \<in> set (proof_table t). ProofBatch p \<le> n \<and> n \<le> ProofBatchFinal p)"

text \<open>The first batch after \<open>v\<close> that no proof covers.\<close>

definition first_uncovered :: "tables \<Rightarrow> u64 \<Rightarrow> u64 \<Rightarrow> bool" where
  "first_uncovered t v n \<longleftrightarrow>
     \<not> covered t n \<and> (\<exists>k. n = v + 1 + of_nat k \<and> (\<forall>i < k. covered t (v + 1 + of_nat i)))"

lemma reads_find_batch:
  assumes "quiet env"
  shows "reads t q (first_uncovered t v) (find_batch env v)"
proof -
  have read: "triple (at_state t q) (db_read env (CheckProofExistsForBatch b))
      (\<lambda>r s. at_state t q s \<and> r \<noteq> Panic \<and> (\<forall>x. r = Ok x \<longrightarrow> x = covered t b))" for b
    by (rule at_db_read [OF assms]) (auto simp: CheckProofExistsForBatch_def outcome_simps covered_def)
  have err: "r \<noteq> Err EContext" if "find_batch env v s = Some (r, s')" for v r s s'
    using that
  proof (induction env v s rule: find_batch.induct [case_names step])
    case (step env b s)
    obtain x s1 where m: "db_read env (CheckProofExistsForBatch (b + 1)) s = Some (x, s1)"
      using step.prems by (auto simp: find_batch.simps [of env b] split: option.splits)
    then have "x \<noteq> Err EContext"
      by (auto simp: db_read_def sbind_def interact_def getter_def lift_def fail_def outcome_simps split: if_splits)
    then show ?case
      using step.prems step.IH [OF m refl] m
      by (auto simp: find_batch.simps [of env b] split: outcome.splits if_splits)
  qed
  show ?thesis
    unfolding reads_def triple_def
    using find_batch_rule [OF read] err by (fastforce simp: first_uncovered_def)
qed

text \<open>The tables and messages in which a batch has just been locked, and those as far as proofs go the same.\<close>

definition same_proofs :: "tables \<Rightarrow> final_proof_msg list \<Rightarrow> aggregator \<Rightarrow> bool" where
  "same_proofs t q s \<longleftrightarrow>
     proof_keys (agg_tables s) = proof_keys t \<and> locks (agg_tables s) = locks t \<and> agg_sent s = q"

definition batch_locked :: "agg_env \<Rightarrow> tables \<Rightarrow> final_proof_msg list \<Rightarrow> state_batch \<times> byte list \<times> state_proof \<Rightarrow> aggregator \<Rightarrow> bool" where
  "batch_locked env t q x s \<longleftrightarrow>
     (case x of (b, w, p) \<Rightarrow>
        (\<exists>v d. latest_known env v \<and> first_uncovered t v (BatchNumber b) \<and>
           GetBatch (BatchNumber b) t = Ok d \<and> b = Batch d \<and> w = Witness d \<and> w \<noteq> []) \<and>
        proof_key p = (BatchNumber b, BatchNumber b) \<and> bigint (BatchNumber b) \<and>
        proof_keys (agg_tables s) = insert (proof_key p) (proof_keys t) \<and>
        locks (agg_tables s) = insert (proof_key p) (locks t) \<and> agg_sent s = q)"

lemma same_proofs_at: "at_state t q s \<Longrightarrow> same_proofs t q s"
  by (simp add: same_proofs_def at_state_def)

lemma GetBatch_number: "tables_wf t \<Longrightarrow> GetBatch n t = Ok d \<Longrightarrow> BatchNumber (Batch d) = n \<and> bigint n"
  by (auto simp: GetBatch_def outcome_simps tables_wf_def split: option.splits)

lemma keys_AddGeneratedProof:
  assumes "AddGeneratedProof now p t = Ok t'"
  shows "proof_keys t' = insert (proof_key p) (proof_keys t)"
    "locks t' = (if unlocked p then locks t else insert (proof_key p) (locks t))"
proof -
  have t': "proof_table t' = proof_table t @ [p\<lparr>CreatedAt := now, UpdatedAt := now\<rparr>]"
    using assms by (auto simp: AddGeneratedProof_def outcome_simps)
  show "proof_keys t' = insert (proof_key p) (proof_keys t)" by (simp add: proof_keys_def t')
  show "locks t' = (if unlocked p then locks t else insert (proof_key p) (locks t))"
    by (auto simp: locks_iff t')
qed

lemma at_getAndLockBatchToProve:
  assumes "quiet env" "tables_wf t"
  shows "triple (at_state t q) (getAndLockBatchToProve env pr)
     (\<lambda>r s. case r of Ok (Some x) \<Rightarrow> batch_locked env t q x s | Ok None \<Rightarrow> True | Panic \<Rightarrow> True | Err e \<Rightarrow> same_proofs t q s)"
    (is "triple _ _ ?Q")
proof -
  have add: "triple (at_state t1 q) (sbind (db_write env (\<lambda>now. CallAddProof now p)) (\<lambda>_. ret (Some (Batch d, Witness d, p)))) ?Q"
    if "latest_known env v" "first_uncovered t v n" "GetBatch n t = Ok d" "Witness d \<noteq> []"
      "proof_table t1 = proof_table t" "ProofBatch p = n" "ProofBatchFinal p = n" "\<not> unlocked p" for v n d t1 p
  proof (rule triple_sbind)
    have keys: "proof_keys t1 = proof_keys t" "locks t1 = locks t"
      using that(5) by (simp_all add: proof_keys_def locks_def)
    show "triple (at_state t1 q) (db_write env (\<lambda>now. CallAddProof now p)) (seq_post (\<lambda>_ s.
        proof_keys (agg_tables s) = insert (proof_key p) (proof_keys t) \<and>
        locks (agg_tables s) = insert (proof_key p) (locks t) \<and> agg_sent s = q) ?Q)"
    proof (rule at_db_write [OF assms(1)])
      fix now t' and s :: aggregator assume "exec_call (CallAddProof now p) t1 = Ok t'" "at_state t' q s"
      then show "seq_post (\<lambda>_ s. proof_keys (agg_tables s) = insert (proof_key p) (proof_keys t) \<and>
          locks (agg_tables s) = insert (proof_key p) (locks t) \<and> agg_sent s = q) ?Q (Ok ()) s"
        using that(8) keys keys_AddGeneratedProof [of now p t1 t'] by (simp add: at_state_def)
    qed (simp_all add: same_proofs_def at_state_def keys)
    show "triple (\<lambda>s. proof_keys (agg_tables s) = insert (proof_key p) (proof_keys t) \<and>
        locks (agg_tables s) = insert (proof_key p) (locks t) \<and> agg_sent s = q) (ret (Some (Batch d, Witness d, p))) ?Q"
      using that GetBatch_number [OF assms(2) that(3)]
      by (intro triple_ret) (auto simp: batch_locked_def proof_key_def)
  qed
  have lock: "triple (at_state t1 q) (sbind (time_now env) (\<lambda>now.
      let proof = \<lparr>ProofBatch = BatchNumber (Batch d), ProofBatchFinal = BatchNumber (Batch d),
                   ProofText = x, InputProver = y, ProofID = None, Prover = Some (prover_name pr),
                   ProverID = Some (prover_id pr), GeneratingSince = Some now, CreatedAt = 0, UpdatedAt = 0\<rparr> in
      sbind (db_write env (\<lambda>t. CallAddProof t proof)) (\<lambda>_. ret (Some (Batch d, Witness d, proof))))) ?Q"
    if "latest_known env v" "first_uncovered t v n" "GetBatch n t = Ok d" "Witness d \<noteq> []" "proof_table t1 = proof_table t"
    for v n d t1 x y
    unfolding Let_def
  proof -
    have err: "same_proofs t q s" if "at_state t1 q s" for s
      using that \<open>proof_table t1 = proof_table t\<close> by (simp add: same_proofs_def at_state_def proof_keys_def locks_def)
    show "triple (at_state t1 q) (sbind (time_now env) (\<lambda>now.
      sbind (db_write env (\<lambda>t. CallAddProof t \<lparr>ProofBatch = BatchNumber (Batch d), ProofBatchFinal = BatchNumber (Batch d),
                   ProofText = x, InputProver = y, ProofID = None, Prover = Some (prover_name pr),
                   ProverID = Some (prover_id pr), GeneratingSince = Some now, CreatedAt = 0, UpdatedAt = 0\<rparr>))
      (\<lambda>_. ret (Some (Batch d, Witness d, \<lparr>ProofBatch = BatchNumber (Batch d), ProofBatchFinal = BatchNumber (Batch d),
                   ProofText = x, InputProver = y, ProofID = None, Prover = Some (prover_name pr),
                   ProverID = Some (prover_id pr), GeneratingSince = Some now, CreatedAt = 0, UpdatedAt = 0\<rparr>))))) ?Q"
      by (rule reads_then [OF reads_time_now [OF assms(1)]])
         (use that GetBatch_number [OF assms(2) that(3)] err in \<open>auto intro!: add simp: unlocked_def\<close>)
  qed
  show ?thesis
    unfolding getAndLockBatchToProve_def
  proof (rule reads_then [OF reads_latest_verified [OF assms(1)]], goal_cases)
    case (1 v)
    then have v: "latest_known env v" by (simp add: latest_known_def)
    show ?case
    proof (rule reads_then [OF reads_find_batch [OF assms(1)]], goal_cases)
      case (1 n)
      note n = this
      show ?case
      proof (rule reads_then [OF reads_attempt [OF reads_ask [OF assms(1), where C = any]]], goal_cases)
        case (2 n') then show ?case by (cases "env_sequence env n' n") auto
      next
        case (3 r)
        show ?case
        proof (cases r)
          case (Ok sq)
          show ?thesis
          proof (cases sq)
            case (Some sequence)
            show ?thesis
              unfolding Ok Some outcome.case option.case
            proof (rule reads_then [OF reads_db_read [OF assms(1), where C = "\<lambda>d. GetBatch n t = Ok d"]], goal_cases)
              case (2 d)
              note d = this
              have seq: "triple (at_state t q) (sbind (db_write env (\<lambda>_. CallAddSequence sq')) f) ?Q"
                if f: "\<And>t1. proof_table t1 = proof_table t \<Longrightarrow> triple (at_state t1 q) (f ()) ?Q" for sq' f
              proof (rule triple_sbind)
                show "triple (at_state t q) (db_write env (\<lambda>_. CallAddSequence sq'))
                    (seq_post (\<lambda>_ s. \<exists>t1. proof_table t1 = proof_table t \<and> at_state t1 q s) ?Q)"
                proof (rule at_db_write [OF assms(1)], goal_cases)
                  case (1 now t' s)
                  then have "proof_table t' = proof_table t" by (auto simp: AddSequence_def outcome_simps)
                  with 1 show ?case by auto
                qed (simp_all add: same_proofs_at)
                show "triple (\<lambda>s. \<exists>t1. proof_table t1 = proof_table t \<and> at_state t1 q s) (f x) ?Q" for x
                  using f by (fastforce simp: triple_def)
              qed
              have missing: "triple (at_state t q) (fail e) ?Q" and none: "triple (at_state t1 q) (ret None) ?Q"
                and crashed: "triple (at_state t1 q) crash ?Q" for t1 e
                by (auto simp: same_proofs_at triple_def fail_def ret_def crash_def)
              show ?case
                using lock [OF v n d] missing none crashed by (auto intro!: seq split: option.split)
            qed (auto simp: same_proofs_at)
          qed (simp add: Ok triple_def fail_def same_proofs_at)
        qed (auto simp: triple_def fail_def crash_def same_proofs_at)
      qed (auto simp: same_proofs_at)
    qed (auto simp: same_proofs_at)
  qed (auto simp: same_proofs_at)
qed

definition has_witness :: "tables \<Rightarrow> u64 \<Rightarrow> bool" where
  "has_witness t n \<longleftrightarrow> (\<exists>d. GetBatch n t = Ok d \<and> Witness d \<noteq> [])"

text \<open>What a call of \<open>tryGenerateBatchProof\<close> has done to \<open>t\<close> and \<open>q\<close>.\<close>

definition generation_effect ::
    "agg_env \<Rightarrow> tables \<Rightarrow> final_proof_msg list \<Rightarrow> bool result \<Rightarrow> aggregator \<Rightarrow> bool" where
  "generation_effect env t q r s \<longleftrightarrow>
     (let K = proof_keys t; L = locks t; K' = proof_keys (agg_tables s); L' = locks (agg_tables s) in
      if r = Ok True then
        \<exists>v n. latest_known env v \<and> first_uncovered t v n \<and> has_witness t n \<and>
          (K' = insert (n, n) K \<and> L' = insert (n, n) L \<and>
             (\<exists>m. agg_sent s = q @ [m] \<and> proof_key (msg_recursiveProof m) = (n, n)) \<or>
           K' = insert (n, n) K \<and> L' = L \<and> agg_sent s = q \<or>
           K' = K \<and> L' = L \<and> agg_sent s = q \<and> (\<exists>v'. latest_known env v' \<and> n < v' + 1))
      else K' = K \<and> L' = L \<and> agg_sent s = q)"

text \<open>Steps that only read, whatever they return.\<close>

definition still :: "tables \<Rightarrow> final_proof_msg list \<Rightarrow> 'a step \<Rightarrow> bool" where
  "still t q m \<longleftrightarrow> triple (at_state t q) m (\<lambda>_. at_state t q)"

lemma still_sbind: "still t q m \<Longrightarrow> (\<And>x. still t q (f x)) \<Longrightarrow> still t q (sbind m f)"
  unfolding still_def by (rule triple_sbind [where P' = "\<lambda>_. at_state t q"])
    (auto elim!: triple_post simp: seq_post_def split: outcome.split)

lemma still_simple: "still t q (ret x)" "still t q (fail e)" "still t q crash" "still t q hang" "still t q (lift r)"
  by (simp_all add: still_def triple_def ret_def fail_def crash_def hang_def lift_def)

lemma still_attempt: "still t q m \<Longrightarrow> still t q (attempt m)"
  unfolding still_def by (rule triple_attempt) (erule triple_post, auto split: outcome.split)

lemma still_quiet:
  assumes "quiet env"
  shows "still t q (ask env f)" "still t q (db_read env g)" "still t q (wait_recursive env i)"
  using at_ask [OF assms] at_db_read [OF assms] at_wait_recursive [OF assms] by (simp_all add: still_def)

lemma still_buildInputProver:
  assumes "quiet env"
  shows "still t q (buildInputProver env b w)"
proof -
  have block: "still t q (block_data env tree root leaves bs acc)" for tree root leaves bs acc
    by (induction bs arbitrary: acc)
       (auto simp: Let_def split: prod.split intro!: still_simple still_sbind still_quiet [OF assms])
  show ?thesis
    unfolding buildInputProver_def l1_part_def Let_def
    by (auto split: outcome.split prod.split
        intro!: still_simple still_sbind still_attempt still_quiet [OF assms] block)
qed

lemma at_prove_batch:
  assumes "quiet env"
  shows "triple (at_state t q) (prove_batch env b w p)
     (\<lambda>r s. at_state t q s \<and> (\<forall>p'. r = Ok p' \<longrightarrow> proof_key p' = proof_key p))"
proof -
  have "still t q (prove_batch env b w p)"
    unfolding prove_batch_def
    by (auto split: prod.split intro!: still_simple still_sbind still_buildInputProver still_quiet assms)
  moreover have "proof_key p' = proof_key p" if "prove_batch env b w p s = Some (Ok p', s')" for p' s s'
    using that
    by (auto simp: prove_batch_def ret_Ok_iff proof_key_def hang_def split: if_splits dest!: sbind_OkD)
  ultimately show ?thesis by (auto simp: still_def triple_def)
qed

lemma at_tryGenerateBatchProof:
  assumes "quiet env" "tables_wf t" "proofs_ok t"
  shows "triple (at_state t q) (tryGenerateBatchProof env pr) (\<lambda>r s. r \<noteq> Panic \<longrightarrow> generation_effect env t q r s)"
    (is "triple _ _ ?Q")
proof -
  have body: "triple (batch_locked env t q (b, w, p))
     (sbind (on_error (prove_batch env b w p) (db_write env (\<lambda>_. CallDeleteProofs (ProofBatch p) (ProofBatchFinal p))))
       (finish_proof env pr)) ?Q" for b w p
    unfolding triple_def
  proof (intro allI impI)
    fix s r s'
    let ?n = "BatchNumber b"
    let ?k = "(?n, ?n)"
    assume lockd: "batch_locked env t q (b, w, p) s" and nP: "r \<noteq> Panic"
      and run: "sbind (on_error (prove_batch env b w p) (db_write env (\<lambda>_. CallDeleteProofs (ProofBatch p) (ProofBatchFinal p))))
        (finish_proof env pr) s = Some (r, s')"
    then obtain v where v: "latest_known env v" "first_uncovered t v ?n" "has_witness t ?n"
      and key: "proof_key p = ?k" "bigint ?n"
      and K: "proof_keys (agg_tables s) = insert ?k (proof_keys t)" "locks (agg_tables s) = insert ?k (locks t)" "agg_sent s = q"
      by (auto simp: batch_locked_def has_witness_def)
    have new: "?k \<notin> proof_keys t" "outside ?k (proof_keys t) = proof_keys t" "outside ?k (locks t) = locks t" "?k \<notin> locks t"
    proof -
      have "\<not> (?n \<le> ProofBatch x \<and> ProofBatchFinal x \<le> ?n)" if x: "x \<in> set (proof_table t)" for x
      proof
        assume r: "?n \<le> ProofBatch x \<and> ProofBatchFinal x \<le> ?n"
        have "ProofBatch x \<le> ProofBatchFinal x" using assms(3) x by (simp add: proofs_ok_def)
        then have "covered t ?n" using r x by (auto simp: covered_def intro!: bexI [of _ x])
        then show False using v(2) by (simp add: first_uncovered_def)
      qed
      note no = this
      show "?k \<notin> proof_keys t" using no by (force simp: proof_keys_def proof_key_def)
      show "?k \<notin> locks t" using no by (force simp: locks_def proof_key_def)
      show "outside ?k (proof_keys t) = proof_keys t" "outside ?k (locks t) = locks t"
        using no by (auto simp: outside_def proof_keys_def locks_def proof_key_def)
    qed
    have out: "outside ?k (insert ?k X) = outside ?k X" for X by (auto simp: outside_def)
    obtain j s1 where j: "prove_batch env b w p s = Some (j, s1)"
      using run by (auto simp: sbind_def on_error_def attempt_def split: option.splits)
    have at: "at_state (agg_tables s) q s" using K by (simp add: at_state_def)
    note J = tripleD [OF at_prove_batch [OF assms(1)] at j]
    show "generation_effect env t q r s'"
    proof (cases j)
      case (Ok p')
      have fin: "finish_proof env pr p' s1 = Some (r, s')"
        using run j Ok by (auto simp: sbind_def on_error_def attempt_def ret_def)
      have p': "proof_key p' = ?k" using J Ok key by simp
      then have P: "ProofBatch p' = ?n" "ProofBatchFinal p' = ?n" by (simp_all add: proof_key_def)
      have "finished env (agg_tables s) q p' r s'"
        by (rule tripleD [OF at_finish_proof [OF assms(1)] _ fin]) (use p' P key K J in auto)
      then show ?thesis
        using v new nP K unfolding finished_def generation_effect_def Let_def p' P
        by (auto simp: out)
    next
      case (Err e)
      then obtain d s2 where d: "db_write env (\<lambda>_. CallDeleteProofs (ProofBatch p) (ProofBatchFinal p)) s1 = Some (d, s2)"
        and r: "r = Err e" "s' = s2"
        using run j nP
        by (auto simp: sbind_def on_error_def attempt_def fail_def split: option.splits outcome.splits)
      have p: "ProofBatch p = ?n" "ProofBatchFinal p = ?n" using key by (simp_all add: proof_key_def)
      have "at_state (drop_range ?k (agg_tables s)) q s2"
      proof (rule tripleD [OF at_db_write [OF assms(1), where Q = "\<lambda>r s'. at_state (drop_range ?k (agg_tables s)) q s'"] _ d])
        show "at_state (agg_tables s) q s1" using J by simp
      qed (use p key(2) in \<open>auto simp: DeleteGeneratedProofs_def needs_def drop_range_def\<close>)
      then show ?thesis
        using r K new by (simp add: generation_effect_def Let_def at_state_def drop_range_keys out)
    next
      case Panic
      then show ?thesis using run j nP by (auto simp: sbind_def on_error_def attempt_def)
    qed
  qed
  show ?thesis
    unfolding tryGenerateBatchProof_def
  proof (rule triple_sbind)
    let ?G = "\<lambda>r s. case r of Ok (Some x) \<Rightarrow> batch_locked env t q x s | Ok None \<Rightarrow> True | Panic \<Rightarrow> True | Err e \<Rightarrow> same_proofs t q s"
    show "triple (at_state t q) (attempt (getAndLockBatchToProve env pr)) (seq_post ?G ?Q)"
      by (rule triple_attempt, rule triple_post [OF at_getAndLockBatchToProve [OF assms(1,2)]])
         (auto split: outcome.splits option.splits)
    fix r :: "(state_batch \<times> byte list \<times> state_proof) option result"
    have errs: "triple (same_proofs t q) (if e = EStorage ErrNotFound \<or> e = EL1 L1NotFound then ret False else fail e) ?Q" for e
      by (auto simp: triple_def ret_def fail_def same_proofs_def generation_effect_def Let_def)
    show "triple (?G r) (case r of
       Err e \<Rightarrow> if e = EStorage ErrNotFound \<or> e = EL1 L1NotFound then ret False else fail e
     | Panic \<Rightarrow> crash
     | Ok None \<Rightarrow> crash
     | Ok (Some (batchToProve, witness, proof)) \<Rightarrow>
         sbind (on_error (prove_batch env batchToProve witness proof)
           (db_write env (\<lambda>_. CallDeleteProofs (ProofBatch proof) (ProofBatchFinal proof)))) (\<lambda>proof.
         finish_proof env pr proof)) ?Q"
      using body errs
      by (auto split: outcome.split option.split prod.split simp: triple_crash)
  qed
qed

end
