(* ===== verification/Agg_Stream.thy ===== *)
theory Agg_Stream
  imports Agg_Generate_Runs
begin

text \<open>
  The data stream in \<open>aggregator/aggregator.go\<close>: the entries of a batch are collected, at its end the
  batch is completed with what L1 says of it and stored, and workers fetch its witness; a
  reorganisation of L1 deletes batches and halts the stream.
\<close>

section \<open>Waiting for L1\<close>

text \<open>
  The loops that ask until there is an answer: \<open>f n\<close> is what interaction \<open>n\<close> answers, \<open>None\<close> for not yet.
  They need not end.
\<close>

definition after_interact :: "agg_env \<Rightarrow> aggregator \<Rightarrow> aggregator" where
  "after_interact env s =
     s\<lparr>agg_tick := agg_tick s + 1, agg_tables := exec_calls (env_others env (agg_tick s)) (agg_tables s)\<rparr>"

partial_function (option) poll_until ::
    "agg_env \<Rightarrow> (nat \<Rightarrow> 'a result option) \<Rightarrow> aggregator \<Rightarrow> ('a result \<times> aggregator) option" where
  "poll_until env f s =
     (case f (agg_tick s) of
        Some r \<Rightarrow> Some (r, after_interact env s)
      | None \<Rightarrow> poll_until env f (after_interact env s))"

definition virtual_answer :: "agg_env \<Rightarrow> u64 \<Rightarrow> nat \<Rightarrow> virtual_batch result option" where
  "virtual_answer env b n =
     (case env_virtual env n b of
        Inl L1NotFound \<Rightarrow> None
      | Inl e \<Rightarrow> Some (Err (EL1 e))
      | Inr v \<Rightarrow> Some (Ok v))"

definition sequence_answer :: "agg_env \<Rightarrow> u64 \<Rightarrow> nat \<Rightarrow> l1_sequence result option" where
  "sequence_answer env b n =
     (case env_sequence env n b of
        Inl e \<Rightarrow> Some (Err (EL1 e))
      | Inr None \<Rightarrow> None
      | Inr (Some sq) \<Rightarrow> Some (Ok sq))"

section \<open>\<open>handleReceivedDataStream\<close>\<close>

definition empty_block :: l2_block_raw where
  "empty_block = \<lparr>BlockNumber = 0, block_header = \<lparr>DeltaTimestamp = 0, IndexL1InfoTree = 0\<rparr>, block_txs = []\<rparr>"

definition set_batch :: "(state_batch \<Rightarrow> state_batch) \<Rightarrow> unit step" where
  "set_batch f = modify (\<lambda>s. s\<lparr>agg_currentStreamBatch := f (agg_currentStreamBatch s)\<rparr>)"

text \<open>The open block, if there is one, goes to the blocks of the batch; it also stays open.\<close>

definition push_block :: "unit step" where
  "push_block = modify (\<lambda>s.
     if BlockNumber (agg_currentStreamL2Block s) \<noteq> 0 then
       s\<lparr>agg_currentStreamBatchRaw :=
         \<lparr>Blocks = Blocks (agg_currentStreamBatchRaw s) @ [agg_currentStreamL2Block s]\<rparr>\<rparr>
     else s)"

definition on_batch_start :: "agg_env \<Rightarrow> byte list \<Rightarrow> unit step" where
  "on_batch_start env data =
     (case lib_BatchStart (env_lib env) data of
        None \<Rightarrow> fail EUnmarshal
      | Some batch \<Rightarrow> set_batch (\<lambda>b. b\<lparr>BatchNumber := bs_Number batch, ChainID := bs_ChainId batch,
          ForkID := bs_ForkId batch, Type := bs_Type batch\<rparr>))"

definition from_L1 :: "state_batch \<Rightarrow> bool" where
  "from_L1 b \<longleftrightarrow> Type b = BATCH_TYPE_INVALID \<or> Type b = BATCH_TYPE_INJECTED"

text \<open>The batch is completed with its data, its L1 info root, its time and its accumulated hash.\<close>

definition complete_batch :: "agg_env \<Rightarrow> unit step" where
  "complete_batch env =
     sbind (getter agg_currentStreamBatch) (\<lambda>cur.
     sbind (poll_until env (virtual_answer env (BatchNumber cur))) (\<lambda>virtualBatch.
     sbind (getter agg_currentStreamBatchRaw) (\<lambda>raw.
     sbind (if from_L1 cur then ret []
            else lift (map_err EState (EncodeBatchV2 (lib_rlp_enc (env_lib env)) (Some raw)))) (\<lambda>batchl2Data.
     sbind (set_batch (\<lambda>b. b\<lparr>BatchL2Data :=
       if UseL1BatchData (env_cfg env) \<or> from_L1 cur then vb_BatchL2Data virtualBatch else batchl2Data\<rparr>)) (\<lambda>_.
     sbind (poll_until env (sequence_answer env (BatchNumber cur))) (\<lambda>sequence.
     sbind (set_batch (\<lambda>b. b\<lparr>L1InfoRoot := seq_L1InfoRoot sequence, Timestamp := seq_Timestamp sequence\<rparr>)) (\<lambda>_.
     sbind (db_read env (GetBatch (BatchNumber cur - 1))) (\<lambda>oldDBBatch.
     sbind (if BatchNumber cur = 1 then
              sbind (ask env (\<lambda>n. l1_result (env_block_parent env n (vb_BlockNumber virtualBatch)))) (\<lambda>parentHash.
              sbind (set_batch (\<lambda>b. b\<lparr>L1InfoRoot := GlobalExitRoot b\<rparr>)) (\<lambda>_. ret parentHash))
            else ret 0) (\<lambda>forcedBlockhashL1.
     sbind (getter agg_currentStreamBatch) (\<lambda>b.
     sbind (lift (map_err (\<lambda>_. EHash) (CalculateAccInputHash (lib_keccak (env_lib env))
       (AccInputHash (Batch oldDBBatch)) (BatchL2Data b) (L1InfoRoot b) (word_of_int (Timestamp b)) (Coinbase b)
       forcedBlockhashL1))) (\<lambda>accInputHash.
     set_batch (\<lambda>b. b\<lparr>AccInputHash := accInputHash\<rparr>))))))))))))"

text \<open>
  The completed batch is stored with the witness it had, or else handed to a worker that fetches
  one; the channel has no buffer, so without workers the handler waits for ever.
\<close>

definition put_batch :: "agg_env \<Rightarrow> db_batch \<Rightarrow> unit step" where
  "put_batch env dbBatch =
     sbind (db_write env (\<lambda>_. CallAddBatch dbBatch)) (\<lambda>_.
     if Witness dbBatch \<noteq> [] then ret ()
     else if MaxWitnessRetrievalWorkers (env_cfg env) \<le> 0 then hang
     else sbind (interact env) (\<lambda>_.
       modify (\<lambda>s. s\<lparr>agg_witnessRetrieval := agg_witnessRetrieval s @ [dbBatch]\<rparr>)))"

definition store_batch :: "agg_env \<Rightarrow> unit step" where
  "store_batch env =
     sbind (getter agg_currentStreamBatch) (\<lambda>cur.
     sbind (getter agg_currentBatchStreamData) (\<lambda>data.
     sbind (attempt (db_read env (GetBatch (BatchNumber cur)))) (\<lambda>wDBBatch.
     case wDBBatch of
       Ok w \<Rightarrow> put_batch env \<lparr>Batch = cur, Datastream = data, Witness = Witness w\<rparr>
     | Err e \<Rightarrow>
         if e \<noteq> EStorage ErrNotFound then fail e
         else put_batch env \<lparr>Batch = cur, Datastream = data, Witness = []\<rparr>
     | Panic \<Rightarrow> crash)))"

definition reset_stream :: "unit step" where
  "reset_stream = modify (\<lambda>s. s\<lparr>agg_currentBatchStreamData := [],
     agg_currentStreamBatchRaw := \<lparr>Blocks = []\<rparr>, agg_currentStreamL2Block := empty_block\<rparr>)"

definition on_batch_end :: "agg_env \<Rightarrow> byte list \<Rightarrow> unit step" where
  "on_batch_end env data =
     (case lib_BatchEnd (env_lib env) data of
        None \<Rightarrow> fail EUnmarshal
      | Some batch \<Rightarrow>
          sbind (set_batch (\<lambda>b. b\<lparr>LocalExitRoot := bytes_to_hash (be_LocalExitRoot batch),
            StateRoot := bytes_to_hash (be_StateRoot batch)\<rparr>)) (\<lambda>_.
          sbind push_block (\<lambda>_.
          sbind (getter agg_currentStreamBatch) (\<lambda>cur.
          sbind (if BatchNumber cur \<noteq> 0 then sbind (complete_batch env) (\<lambda>_. store_batch env) else ret ()) (\<lambda>_.
          reset_stream)))))"

definition on_l2_block :: "agg_env \<Rightarrow> byte list \<Rightarrow> unit step" where
  "on_l2_block env data =
     sbind push_block (\<lambda>_.
     case lib_L2Block (env_lib env) data of
       None \<Rightarrow> fail EUnmarshal
     | Some l2Block \<Rightarrow>
         let header = \<lparr>DeltaTimestamp = blk_DeltaTimestamp l2Block, IndexL1InfoTree = blk_L1InfotreeIndex l2Block\<rparr> in
         sbind (modify (\<lambda>s. s\<lparr>agg_currentStreamL2Block :=
           \<lparr>BlockNumber = blk_Number l2Block, block_header = header, block_txs = []\<rparr>\<rparr>)) (\<lambda>_.
         set_batch (\<lambda>b. b\<lparr>L1InfoTreeIndex := blk_L1InfotreeIndex l2Block,
           Coinbase := bytes_to_address (blk_Coinbase l2Block),
           GlobalExitRoot := bytes_to_hash (blk_GlobalExitRoot l2Block)\<rparr>)))"

definition DecodeTx :: "libraries \<Rightarrow> string \<Rightarrow> transaction result" where
  "DecodeTx lib encodedTx =
     (case decode_hex encodedTx of
        (b, Some e) \<Rightarrow> Err (EHexDecode e)
      | (b, None) \<Rightarrow> (case lib_UnmarshalBinary lib b of None \<Rightarrow> Err EDecodeTx | Some tx \<Rightarrow> Ok tx))"

definition on_transaction :: "agg_env \<Rightarrow> byte list \<Rightarrow> unit step" where
  "on_transaction env data =
     (case lib_Transaction (env_lib env) data of
        None \<Rightarrow> fail EUnmarshal
      | Some l2Tx \<Rightarrow>
          sbind (lift (DecodeTx (env_lib env) (encode_to_string (dtx_Encoded l2Tx)))) (\<lambda>tx.
          let l2TxRaw = \<lparr>EfficiencyPercentage = ucast (dtx_EffectiveGasPricePercentage l2Tx),
                         TxAlreadyEncoded = False, raw_tx = Some tx, raw_data = []\<rparr> in
          modify (\<lambda>s. s\<lparr>agg_currentStreamL2Block := (agg_currentStreamL2Block s)
            \<lparr>block_txs := block_txs (agg_currentStreamL2Block s) @ [l2TxRaw]\<rparr>\<rparr>)))"

definition handleReceivedDataStream :: "agg_env \<Rightarrow> file_entry \<Rightarrow> unit step" where
  "handleReceivedDataStream env entry =
     sbind (getter agg_halted) (\<lambda>halted.
     if halted \<or> entry_Type entry = EtBookmark then ret ()
     else
       sbind (modify (\<lambda>s. s\<lparr>agg_currentBatchStreamData :=
         agg_currentBatchStreamData s @ lib_Encode (env_lib env) entry\<rparr>)) (\<lambda>_.
       case entry_Type entry of
         ENTRY_TYPE_BATCH_START \<Rightarrow> on_batch_start env (entry_Data entry)
       | ENTRY_TYPE_BATCH_END \<Rightarrow> on_batch_end env (entry_Data entry)
       | ENTRY_TYPE_L2_BLOCK \<Rightarrow> on_l2_block env (entry_Data entry)
       | ENTRY_TYPE_TRANSACTION \<Rightarrow> on_transaction env (entry_Data entry)
       | _ \<Rightarrow> ret ()))"

text \<open>The stream client hands over the entries one after the other, until one is refused.\<close>

fun handle_entries :: "agg_env \<Rightarrow> file_entry list \<Rightarrow> unit step" where
  "handle_entries env [] = ret ()"
| "handle_entries env (e # es) = sbind (handleReceivedDataStream env e) (\<lambda>_. handle_entries env es)"

section \<open>Witnesses\<close>

text \<open>\<open>strings.TrimLeft\<close> takes a set of characters, so it also takes away leading zeros.\<close>

definition trim_left :: "string \<Rightarrow> string \<Rightarrow> string" where
  "trim_left s cutset = dropWhile (\<lambda>c. c \<in> set cutset) s"

definition witness_bytes :: "string \<Rightarrow> byte list" where
  "witness_bytes witness =
     (let witnessString = trim_left witness ''0x'';
          witnessString = (if length witnessString mod 2 \<noteq> 0 then CHR ''0'' # witnessString else witnessString)
      in hex2bytes witnessString)"

definition getWitness :: "agg_env \<Rightarrow> u64 \<Rightarrow> byte list step" where
  "getWitness env batchNumber =
     (let witnessType = (if UseFullWitness (env_cfg env) then ''full'' else ''trimmed'') in
      ask env (\<lambda>n.
        case env_witness env n batchNumber witnessType of
          WitnessCallFails \<Rightarrow> Err EWitness
        | WitnessError message \<Rightarrow> Err (if message = ''busy'' then EWitnessBusy else EWitness)
        | WitnessResult None \<Rightarrow> Err EUnmarshal
        | WitnessResult (Some witness) \<Rightarrow> Ok (witness_bytes witness)))"

text \<open>One batch of a worker: it asks and stores until both have worked.\<close>

partial_function (option) retrieveWitness :: "agg_env \<Rightarrow> db_batch \<Rightarrow> aggregator \<Rightarrow> (unit result \<times> aggregator) option" where
  "retrieveWitness env dbBatch s =
     (case sbind (getWitness env (BatchNumber (Batch dbBatch)))
         (\<lambda>w. db_write env (\<lambda>_. CallAddBatch (dbBatch\<lparr>Witness := w\<rparr>))) s of
        None \<Rightarrow> None
      | Some (Err e, s') \<Rightarrow> retrieveWitness env dbBatch s'
      | Some (r, s') \<Rightarrow> Some (r, s'))"

section \<open>Reorganisations\<close>

text \<open>
  \<open>handleReorg\<close> up to the loop at its end, which only logs and never returns.
\<close>

definition handleReorg :: "agg_env \<Rightarrow> unit step" where
  "handleReorg env =
     sbind (attempt (sbind (ask env (\<lambda>n. l1_result (env_last_virtual env n)))
       (\<lambda>lastVBatchNumber. db_write env (\<lambda>_. CallDeleteNewer lastVBatchNumber)))) (\<lambda>_.
     modify (\<lambda>s. s\<lparr>agg_halted := True\<rparr>))"

end
