(* ===== verification/Agg_Stream_Runs.thy ===== *)
theory Agg_Stream_Runs
  imports Agg_Stream
begin

text \<open>
  What is proved of the data stream: when its loops return, the invariants its handlers keep, what
  the text of a witness becomes, and the blocks that the entries of a batch are turned into.
\<close>

section \<open>The loops\<close>

lemma poll_rule_raw:
  assumes "poll_until env f s = Some y"
  shows "P s \<longrightarrow> (\<forall>s. P s \<longrightarrow> P (after_interact env s)) \<longrightarrow>
    P (snd y) \<and> (\<exists>n \<ge> agg_tick s. f n = Some (fst y) \<and> (\<forall>k. agg_tick s \<le> k \<longrightarrow> k < n \<longrightarrow> f k = None))"
proof (rule poll_until.raw_induct [OF _ assms, where P = "\<lambda>env f s y. P s \<longrightarrow> (\<forall>s. P s \<longrightarrow> P (after_interact env s)) \<longrightarrow>
    P (snd y) \<and> (\<exists>n \<ge> agg_tick s. f n = Some (fst y) \<and> (\<forall>k. agg_tick s \<le> k \<longrightarrow> k < n \<longrightarrow> f k = None))"], intro impI)
  fix poll :: "agg_env \<Rightarrow> (nat \<Rightarrow> 'a result option) \<Rightarrow> aggregator \<Rightarrow> ('a result \<times> aggregator) option"
    and env f s y
  assume IH: "\<And>env f s y. poll env f s = Some y \<Longrightarrow> P s \<longrightarrow> (\<forall>s. P s \<longrightarrow> P (after_interact env s)) \<longrightarrow>
    P (snd y) \<and> (\<exists>n \<ge> agg_tick s. f n = Some (fst y) \<and> (\<forall>k. agg_tick s \<le> k \<longrightarrow> k < n \<longrightarrow> f k = None))"
    and run: "(case f (agg_tick s) of None \<Rightarrow> poll env f (after_interact env s) | Some r \<Rightarrow> Some (r, after_interact env s)) = Some y"
    and P: "P s" "\<forall>s. P s \<longrightarrow> P (after_interact env s)"
  show "P (snd y) \<and> (\<exists>n \<ge> agg_tick s. f n = Some (fst y) \<and> (\<forall>k. agg_tick s \<le> k \<longrightarrow> k < n \<longrightarrow> f k = None))"
  proof (cases "f (agg_tick s)")
    case None
    then have "poll env f (after_interact env s) = Some y" using run by simp
    from IH [OF this] P obtain n where n: "P (snd y)" "n \<ge> Suc (agg_tick s)" "f n = Some (fst y)"
      "\<And>k. Suc (agg_tick s) \<le> k \<Longrightarrow> k < n \<Longrightarrow> f k = None"
      by (auto simp: after_interact_def)
    have "f k = None" if "agg_tick s \<le> k" "k < n" for k
      using n(4) [of k] None that by (cases "k = agg_tick s") auto
    then show ?thesis using n by (intro conjI exI [of _ n]) auto
  next
    case (Some r)
    then have "y = (r, after_interact env s)" using run by simp
    then show ?thesis using P Some by auto
  qed
qed

lemma poll_rule:
  assumes "poll_until env f s = Some y" "P s" "\<And>s. P s \<Longrightarrow> P (after_interact env s)"
  shows "P (snd y) \<and> (\<exists>n \<ge> agg_tick s. f n = Some (fst y) \<and> (\<forall>k. agg_tick s \<le> k \<longrightarrow> k < n \<longrightarrow> f k = None))"
  using poll_rule_raw [OF assms(1), of P] assms(2,3) by blast

lemma poll_ends:
  assumes "f n = Some r" "agg_tick s \<le> n"
  shows "poll_until env f s \<noteq> None"
  using assms
proof (induction "n - agg_tick s" arbitrary: s)
  case 0
  then show ?case by (subst poll_until.simps) (simp split: option.split)
next
  case (Suc k)
  have "poll_until env f (after_interact env s) \<noteq> None"
    by (rule Suc.hyps(1)) (use Suc in \<open>simp_all add: after_interact_def\<close>)
  then show ?case by (subst poll_until.simps) (simp split: option.split)
qed

lemma poll_returns_iff: "poll_until env f s \<noteq> None \<longleftrightarrow> (\<exists>n \<ge> agg_tick s. f n \<noteq> None)"
proof
  assume "poll_until env f s \<noteq> None"
  then obtain y where "poll_until env f s = Some y" by blast
  from poll_rule [OF this, of "\<lambda>_. True"] show "\<exists>n \<ge> agg_tick s. f n \<noteq> None" by auto
next
  assume "\<exists>n \<ge> agg_tick s. f n \<noteq> None"
  then show "poll_until env f s \<noteq> None" using poll_ends by blast
qed

lemma retrieveWitness_rule_raw:
  assumes "retrieveWitness env b s = Some y"
  shows "P s \<longrightarrow> triple P (sbind (getWitness env (BatchNumber (Batch b)))
      (\<lambda>w. db_write env (\<lambda>_. CallAddBatch (b\<lparr>Witness := w\<rparr>)))) Q \<longrightarrow> (\<forall>e s. Q (Err e) s \<longrightarrow> P s) \<longrightarrow>
    Q (fst y) (snd y) \<and> (\<forall>e. fst y \<noteq> Err e)"
proof (rule retrieveWitness.raw_induct [OF _ assms, where P = "\<lambda>env b s y.
    P s \<longrightarrow> triple P (sbind (getWitness env (BatchNumber (Batch b)))
      (\<lambda>w. db_write env (\<lambda>_. CallAddBatch (b\<lparr>Witness := w\<rparr>)))) Q \<longrightarrow> (\<forall>e s. Q (Err e) s \<longrightarrow> P s) \<longrightarrow>
    Q (fst y) (snd y) \<and> (\<forall>e. fst y \<noteq> Err e)"], intro impI)
  fix rec :: "agg_env \<Rightarrow> db_batch \<Rightarrow> aggregator \<Rightarrow> (unit result \<times> aggregator) option" and env b s y
  let ?m = "sbind (getWitness env (BatchNumber (Batch b))) (\<lambda>w. db_write env (\<lambda>_. CallAddBatch (b\<lparr>Witness := w\<rparr>)))"
  assume IH: "\<And>env b s y. rec env b s = Some y \<Longrightarrow> P s \<longrightarrow> triple P (sbind (getWitness env (BatchNumber (Batch b)))
      (\<lambda>w. db_write env (\<lambda>_. CallAddBatch (b\<lparr>Witness := w\<rparr>)))) Q \<longrightarrow> (\<forall>e s. Q (Err e) s \<longrightarrow> P s) \<longrightarrow>
      Q (fst y) (snd y) \<and> (\<forall>e. fst y \<noteq> Err e)"
    and run: "(case ?m s of None \<Rightarrow> None | Some (Err e, s') \<Rightarrow> rec env b s' | Some (r, s') \<Rightarrow> Some (r, s')) = Some y"
    and P: "P s" "triple P ?m Q" "\<forall>e s. Q (Err e) s \<longrightarrow> P s"
  obtain r s1 where r: "?m s = Some (r, s1)" using run by (auto split: option.splits)
  have q: "Q r s1" by (rule tripleD [OF P(2,1) r])
  show "Q (fst y) (snd y) \<and> (\<forall>e. fst y \<noteq> Err e)"
  proof (cases r)
    case (Err e)
    then have "P s1" "rec env b s1 = Some y" using q P(3) run r by auto
    with IH [OF this(2)] P show ?thesis by blast
  qed (use run r q in auto)
qed

lemma retrieveWitness_rule:
  assumes "triple P (sbind (getWitness env (BatchNumber (Batch b))) (\<lambda>w. db_write env (\<lambda>_. CallAddBatch (b\<lparr>Witness := w\<rparr>)))) Q"
    "\<And>e s. Q (Err e) s \<Longrightarrow> P s"
  shows "triple P (retrieveWitness env b) (\<lambda>r s. Q r s \<and> (\<forall>e. r \<noteq> Err e))"
  using retrieveWitness_rule_raw [of env b _ _ P Q] assms by (fastforce simp: triple_def [of P "retrieveWitness env b"])

section \<open>Invariants\<close>

context proof_invariant begin

lemma keeps_poll:
  assumes "others_allowed env" "\<And>n. f n \<noteq> Some Panic"
  shows "keeps S I W any (poll_until env f)"
proof -
  have step: "I (agg_tables (after_interact env s)) \<and> W (agg_sent (after_interact env s))"
    if "I (agg_tables s) \<and> W (agg_sent s)" for s
    using that assms(1) by (auto simp: after_interact_def others_allowed_def exec_calls_keeps)
  show ?thesis
    unfolding keeps_def triple_def
  proof (intro allI impI)
    fix s r s' assume s: "I (agg_tables s) \<and> W (agg_sent s)" and run: "poll_until env f s = Some (r, s')"
    from poll_rule [OF run, of "\<lambda>s. I (agg_tables s) \<and> W (agg_sent s)", OF s step] obtain n where
      "I (agg_tables s') \<and> W (agg_sent s')" "f n = Some r" by auto
    then show "I (agg_tables s') \<and> W (agg_sent s') \<and> (\<forall>x. r = Ok x \<longrightarrow> True) \<and> (S \<longrightarrow> r \<noteq> Panic)"
      using assms(2) by metis
  qed
qed

lemma answers_return: "virtual_answer env b n \<noteq> Some Panic" "sequence_answer env b n \<noteq> Some Panic"
  by (auto simp: virtual_answer_def sequence_answer_def split: sum.split l1_error.split option.split)

lemma l1_result_returns: "l1_result r \<noteq> Panic"
  by (cases r) auto

lemma keeps_set_batch: "keeps S I W any (set_batch f)"
  unfolding set_batch_def by (rule keeps_modify) auto

lemma keeps_push_block: "keeps S I W any push_block"
  unfolding push_block_def by (rule keeps_modify) auto

lemma keeps_complete_batch:
  assumes "others_allowed env" "may_crash"
  shows "keeps S I W any (complete_batch env)"
proof -
  have read: "keeps S I W any (db_read env (GetBatch n))" for n
    by (rule keeps_db_read [OF assms(1)]) auto
  show ?thesis
    unfolding complete_batch_def
    using assms
    by (auto split: option.split intro!: keeps_simple(1,2) keeps_sbind [OF keeps_getter] read
        keeps_sbind [OF keeps_poll [OF assms(1) answers_return(1)]] keeps_sbind [OF keeps_poll [OF assms(1) answers_return(2)]]
        keeps_sbind [OF keeps_set_batch] keeps_try_lift keeps_try_ask keeps_set_batch keeps_sbind [where C = any])
qed

lemma keeps_put_batch:
  assumes "others_allowed env"
  shows "keeps S I W any (put_batch env b)"
  unfolding put_batch_def
  by (auto intro!: keeps_simple(1,4) keeps_modify keeps_sbind [OF keeps_db_write [OF assms]] batch_allowed
      keeps_sbind [OF keeps_interact [OF assms]])

lemma keeps_store_batch:
  assumes "others_allowed env"
  shows "keeps S I W any (store_batch env)"
  unfolding store_batch_def
  by (auto intro!: keeps_simple(2) keeps_put_batch [OF assms] keeps_sbind [OF keeps_getter]
      keeps_attempt_sbind [OF keeps_db_read [OF assms, where C = any]])

lemma keeps_handleReceivedDataStream:
  assumes "others_allowed env" "may_crash"
  shows "keeps S I W any (handleReceivedDataStream env e)"
proof -
  have "keeps S I W any (on_batch_start env d)" "keeps S I W any (on_l2_block env d)"
    "keeps S I W any (on_transaction env d)" "keeps S I W any (on_batch_end env d)" for d
    using assms
    unfolding on_batch_start_def on_l2_block_def on_transaction_def on_batch_end_def reset_stream_def Let_def
    by (auto split: option.split intro!: keeps_simple(1,2) keeps_set_batch keeps_modify keeps_sbind [OF keeps_push_block]
        keeps_sbind [OF keeps_modify] keeps_sbind [OF keeps_set_batch] keeps_try_lift
        keeps_sbind [OF keeps_getter] keeps_sbind [where C = any] keeps_store_batch keeps_complete_batch)
  then show ?thesis
    unfolding handleReceivedDataStream_def
    by (auto split: entry_type.split intro!: keeps_simple(1) keeps_sbind [OF keeps_getter] keeps_sbind [OF keeps_modify])
qed

lemma keeps_handleReorg:
  assumes "others_allowed env"
  shows "keeps S I W any (handleReorg env)"
  unfolding handleReorg_def
  by (auto intro!: keeps_attempt_sbind [where C = any] keeps_modify batch_allowed l1_result_returns
      keeps_sbind [OF keeps_ask [OF assms, where C = any]] keeps_db_write [OF assms])

lemma keeps_getWitness:
  assumes "others_allowed env"
  shows "keeps S I W any (getWitness env n)"
  unfolding getWitness_def Let_def
  by (rule keeps_ask [OF assms]) (auto split: witness_reply.split option.split)

lemma keeps_retrieveWitness:
  assumes "others_allowed env"
  shows "keeps S I W any (retrieveWitness env b)"
proof -
  let ?m = "sbind (getWitness env (BatchNumber (Batch b))) (\<lambda>w. db_write env (\<lambda>_. CallAddBatch (b\<lparr>Witness := w\<rparr>)))"
  have m: "keeps S I W any ?m"
    using assms by (intro keeps_sbind [OF keeps_getWitness] keeps_db_write batch_allowed)
  show ?thesis
    unfolding keeps_def
    by (rule triple_post [OF retrieveWitness_rule [OF m [unfolded keeps_def]]]) auto
qed

end

section \<open>Witnesses\<close>

lemma hex_char_trimmed: "hex_char n = CHR ''0'' \<or> hex_char n = CHR ''x'' \<longleftrightarrow> n mod 16 = 0"
proof
  assume "hex_char n = CHR ''0'' \<or> hex_char n = CHR ''x''"
  then have "hex_digit_val (hex_char n) \<in> {hex_digit_val (CHR ''0''), hex_digit_val (CHR ''x'')}"
    by auto
  moreover have "hex_digit_val (CHR ''0'') = Some 0" by (simp add: hex_digit_val_def)
  ultimately show "n mod 16 = 0" by simp
next
  assume "n mod 16 = 0"
  then have "hex_char n = hex_char 0" by (simp add: hex_char_def)
  then show "hex_char n = CHR ''0'' \<or> hex_char n = CHR ''x''" by simp
qed

lemma hex_char_kept: "n mod 16 \<noteq> 0 \<Longrightarrow> hex_char n \<noteq> CHR ''0'' \<and> hex_char n \<noteq> CHR ''x''"
  using hex_char_trimmed [of n] by (metis (no_types))

lemma decode_hex_plain [simp]: "decode_hex (encode_to_string bs) = (bs, None)"
proof -
  have "trim_prefix_0x (encode_to_string bs) = encode_to_string bs"
    by (cases bs) (auto simp: trim_prefix_0x_def)
  then show ?thesis by (simp add: decode_hex_def Let_def)
qed

lemma pad_trimmed:
  "(let t = trim_left (encode_to_string bs) ''0x'' in if length t mod 2 \<noteq> 0 then CHR ''0'' # t else t) =
   encode_to_string (dropWhile (\<lambda>b. b = 0) bs)"
proof (induction bs)
  case (Cons b bs)
  have b: "unat b div 16 < 16"
    using unsigned_less [of b, where ?'a = nat] by simp
  have split: "unat b = unat b div 16 * 16 + unat b mod 16" by simp
  show ?case
  proof (cases "unat b div 16 = 0")
    case False
    then have "unat b \<noteq> 0" by auto
    then have "b \<noteq> 0" by auto
    with False b show ?thesis using hex_char_kept [of "unat b div 16"] by (simp add: trim_left_def)
  next
    case hi: True
    show ?thesis
    proof (cases "unat b mod 16 = 0")
      case True
      then have "unat b = 0" using hi split by simp
      then have "b = 0" by (simp add: word_unat_eq_iff)
      with Cons.IH show ?thesis by (simp add: trim_left_def Let_def)
    next
      case False
      then have "unat b \<noteq> 0" by auto
      then have "b \<noteq> 0" by auto
      with False hi show ?thesis using hex_char_kept [of "unat b"] by (simp add: trim_left_def)
    qed
  qed
qed (simp add: trim_left_def)

lemma witness_bytes_trimmed: "witness_bytes (''0x'' @ encode_to_string bs) = dropWhile (\<lambda>b. b = 0) bs"
proof -
  have "trim_left (''0x'' @ encode_to_string bs) ''0x'' = trim_left (encode_to_string bs) ''0x''"
    by (simp add: trim_left_def)
  then show ?thesis
    using pad_trimmed [of bs] by (simp add: witness_bytes_def Let_def)
qed

section \<open>From entries to blocks\<close>

text \<open>What the entries of a batch say, and the blocks they are meant to make: a reference definition.\<close>

datatype stream_item = ItemBlock ds_l2_block | ItemTx byte transaction

fun item_of :: "libraries \<Rightarrow> file_entry \<Rightarrow> stream_item option" where
  "item_of lib e =
     (case entry_Type e of
        ENTRY_TYPE_L2_BLOCK \<Rightarrow> map_option ItemBlock (lib_L2Block lib (entry_Data e))
      | ENTRY_TYPE_TRANSACTION \<Rightarrow>
          Option.bind (lib_Transaction lib (entry_Data e)) (\<lambda>t.
          map_option (ItemTx (ucast (dtx_EffectiveGasPricePercentage t))) (lib_UnmarshalBinary lib (dtx_Encoded t)))
      | _ \<Rightarrow> None)"

fun item_tx :: "stream_item \<Rightarrow> l2_tx_raw" where
  "item_tx (ItemTx e tx) = \<lparr>EfficiencyPercentage = e, TxAlreadyEncoded = False, raw_tx = Some tx, raw_data = []\<rparr>"
| "item_tx (ItemBlock b) = undefined"

fun is_block :: "stream_item \<Rightarrow> bool" where
  "is_block (ItemBlock b) = True"
| "is_block (ItemTx e tx) = False"

definition open_block :: "ds_l2_block \<Rightarrow> l2_block_raw" where
  "open_block b = \<lparr>BlockNumber = blk_Number b,
     block_header = \<lparr>DeltaTimestamp = blk_DeltaTimestamp b, IndexL1InfoTree = blk_L1InfotreeIndex b\<rparr>, block_txs = []\<rparr>"

function blocks_of :: "stream_item list \<Rightarrow> l2_block_raw list" where
  "blocks_of [] = []"
| "blocks_of (ItemBlock b # is) =
     (open_block b)\<lparr>block_txs := map item_tx (takeWhile (\<lambda>i. \<not> is_block i) is)\<rparr> #
     blocks_of (dropWhile (\<lambda>i. \<not> is_block i) is)"
| "blocks_of (ItemTx e tx # is) = blocks_of is"
  by pat_completeness auto
termination
  by (relation "measure length") (auto simp: le_imp_less_Suc length_dropWhile_le)

text \<open>The items of a list of entries, when all of them can be read.\<close>

fun items_of :: "libraries \<Rightarrow> file_entry list \<Rightarrow> stream_item list option" where
  "items_of lib [] = Some []"
| "items_of lib (e # es) =
     (case (item_of lib e, items_of lib es) of (Some i, Some is) \<Rightarrow> Some (i # is) | _ \<Rightarrow> None)"

definition numbered :: "stream_item \<Rightarrow> bool" where
  "numbered i \<longleftrightarrow> (\<forall>b. i = ItemBlock b \<longrightarrow> blk_Number b \<noteq> 0)"

definition stream_frame :: "aggregator \<Rightarrow> aggregator \<Rightarrow> bool" where
  "stream_frame s s' \<longleftrightarrow>
     agg_tables s' = agg_tables s \<and> agg_tick s' = agg_tick s \<and> agg_halted s' = agg_halted s \<and>
     agg_witnessRetrieval s' = agg_witnessRetrieval s \<and> agg_sent s' = agg_sent s \<and>
     (let b = agg_currentStreamBatch s; b' = agg_currentStreamBatch s' in
        BatchNumber b' = BatchNumber b \<and> Type b' = Type b \<and> ForkID b' = ForkID b \<and> ChainID b' = ChainID b \<and>
        ForcedBatchNum b' = ForcedBatchNum b)"

lemma stream_frame_trans: "stream_frame s s1 \<Longrightarrow> stream_frame s1 s2 \<Longrightarrow> stream_frame s s2"
  by (simp add: stream_frame_def Let_def)

lemmas step_defs = sbind_def ret_def fail_def lift_def getter_def modify_def

lemma entry_block:
  assumes "item_of (env_lib env) e = Some (ItemBlock b)" "\<not> agg_halted s"
  shows "\<exists>s'. handleReceivedDataStream env e s = Some (Ok (), s') \<and> stream_frame s s' \<and>
    agg_currentBatchStreamData s' = agg_currentBatchStreamData s @ lib_Encode (env_lib env) e \<and>
    agg_currentStreamL2Block s' = open_block b \<and>
    Blocks (agg_currentStreamBatchRaw s') = Blocks (agg_currentStreamBatchRaw s) @
      (if BlockNumber (agg_currentStreamL2Block s) \<noteq> 0 then [agg_currentStreamL2Block s] else [])"
proof -
  have e: "entry_Type e = ENTRY_TYPE_L2_BLOCK" "lib_L2Block (env_lib env) (entry_Data e) = Some b"
    using assms(1) by (auto split: entry_type.splits Option.bind_splits)
  show ?thesis
    using e assms(2)
    by (auto simp: handleReceivedDataStream_def on_l2_block_def push_block_def set_batch_def step_defs Let_def
        open_block_def stream_frame_def)
qed

lemma entry_tx:
  assumes "item_of (env_lib env) e = Some (ItemTx p tx)" "\<not> agg_halted s"
  shows "\<exists>s'. handleReceivedDataStream env e s = Some (Ok (), s') \<and> stream_frame s s' \<and>
    agg_currentBatchStreamData s' = agg_currentBatchStreamData s @ lib_Encode (env_lib env) e \<and>
    agg_currentStreamL2Block s' = (agg_currentStreamL2Block s)
      \<lparr>block_txs := block_txs (agg_currentStreamL2Block s) @ [item_tx (ItemTx p tx)]\<rparr> \<and>
    agg_currentStreamBatchRaw s' = agg_currentStreamBatchRaw s"
proof -
  obtain t where e: "entry_Type e = ENTRY_TYPE_TRANSACTION" "lib_Transaction (env_lib env) (entry_Data e) = Some t"
    "lib_UnmarshalBinary (env_lib env) (dtx_Encoded t) = Some tx" "p = ucast (dtx_EffectiveGasPricePercentage t)"
    using assms(1) by (auto split: entry_type.splits Option.bind_splits)
  have "DecodeTx (env_lib env) (encode_to_string (dtx_Encoded t)) = Ok tx"
    using e by (simp add: DecodeTx_def)
  then show ?thesis
    using e assms(2)
    by (auto simp: handleReceivedDataStream_def on_transaction_def step_defs Let_def stream_frame_def)
qed

text \<open>The blocks an unfinished batch has so far, the open one included.\<close>

definition blocks_so_far :: "aggregator \<Rightarrow> l2_block_raw list" where
  "blocks_so_far s = Blocks (agg_currentStreamBatchRaw s) @
     (if BlockNumber (agg_currentStreamL2Block s) \<noteq> 0 then [agg_currentStreamL2Block s] else [])"

lemma entries_after_block:
  assumes "items_of (env_lib env) es = Some is" "\<not> agg_halted s" "\<forall>i \<in> set is. numbered i"
    "BlockNumber (agg_currentStreamL2Block s) \<noteq> 0"
  shows "\<exists>s'. handle_entries env es s = Some (Ok (), s') \<and> stream_frame s s' \<and>
    agg_currentBatchStreamData s' = agg_currentBatchStreamData s @ concat (map (lib_Encode (env_lib env)) es) \<and>
    BlockNumber (agg_currentStreamL2Block s') \<noteq> 0 \<and>
    blocks_so_far s' = Blocks (agg_currentStreamBatchRaw s) @
      (agg_currentStreamL2Block s)\<lparr>block_txs := block_txs (agg_currentStreamL2Block s) @
        map item_tx (takeWhile (\<lambda>i. \<not> is_block i) is)\<rparr> #
      blocks_of (dropWhile (\<lambda>i. \<not> is_block i) is)"
  using assms
proof (induction es arbitrary: s "is")
  case Nil
  then show ?case by (auto simp: ret_def stream_frame_def blocks_so_far_def)
next
  case (Cons e es)
  obtain i js where i: "item_of (env_lib env) e = Some i" "items_of (env_lib env) es = Some js" "is = i # js"
    using Cons.prems(1) by (auto simp del: item_of.simps split: option.splits)
  have js: "\<forall>i \<in> set js. numbered i" using Cons.prems(3) i by auto
  show ?case
  proof (cases i)
    case (ItemBlock b)
    obtain s1 where s1: "handleReceivedDataStream env e s = Some (Ok (), s1)" "stream_frame s s1"
      "agg_currentBatchStreamData s1 = agg_currentBatchStreamData s @ lib_Encode (env_lib env) e"
      "agg_currentStreamL2Block s1 = open_block b"
      "Blocks (agg_currentStreamBatchRaw s1) = Blocks (agg_currentStreamBatchRaw s) @ [agg_currentStreamL2Block s]"
      using entry_block [of env e b s] i ItemBlock Cons.prems(2,4) by auto
    have b: "BlockNumber (agg_currentStreamL2Block s1) \<noteq> 0"
      using Cons.prems(3) i ItemBlock s1(4) by (simp add: open_block_def numbered_def)
    have "\<not> agg_halted s1" using s1(2) Cons.prems(2) by (simp add: stream_frame_def)
    from Cons.IH [OF i(2) this js b] obtain s' where s': "handle_entries env es s1 = Some (Ok (), s')" "stream_frame s1 s'"
      "agg_currentBatchStreamData s' = agg_currentBatchStreamData s1 @ concat (map (lib_Encode (env_lib env)) es)"
      "BlockNumber (agg_currentStreamL2Block s') \<noteq> 0"
      "blocks_so_far s' = Blocks (agg_currentStreamBatchRaw s1) @
      (agg_currentStreamL2Block s1)\<lparr>block_txs := block_txs (agg_currentStreamL2Block s1) @
        map item_tx (takeWhile (\<lambda>i. \<not> is_block i) js)\<rparr> #
      blocks_of (dropWhile (\<lambda>i. \<not> is_block i) js)" by blast
    then show ?thesis
      using s1 i ItemBlock stream_frame_trans [OF s1(2) s'(2)]
      by (intro exI [of _ s']) (simp add: sbind_def open_block_def)
  next
    case (ItemTx p tx)
    obtain s1 where s1: "handleReceivedDataStream env e s = Some (Ok (), s1)" "stream_frame s s1"
      "agg_currentBatchStreamData s1 = agg_currentBatchStreamData s @ lib_Encode (env_lib env) e"
      "agg_currentStreamL2Block s1 = (agg_currentStreamL2Block s)
        \<lparr>block_txs := block_txs (agg_currentStreamL2Block s) @ [item_tx (ItemTx p tx)]\<rparr>"
      "agg_currentStreamBatchRaw s1 = agg_currentStreamBatchRaw s"
      using entry_tx [of env e p tx s] i ItemTx Cons.prems(2) by blast
    have b: "BlockNumber (agg_currentStreamL2Block s1) \<noteq> 0" using Cons.prems(4) s1(4) by simp
    have "\<not> agg_halted s1" using s1(2) Cons.prems(2) by (simp add: stream_frame_def)
    from Cons.IH [OF i(2) this js b] obtain s' where s': "handle_entries env es s1 = Some (Ok (), s')" "stream_frame s1 s'"
      "agg_currentBatchStreamData s' = agg_currentBatchStreamData s1 @ concat (map (lib_Encode (env_lib env)) es)"
      "BlockNumber (agg_currentStreamL2Block s') \<noteq> 0"
      "blocks_so_far s' = Blocks (agg_currentStreamBatchRaw s1) @
      (agg_currentStreamL2Block s1)\<lparr>block_txs := block_txs (agg_currentStreamL2Block s1) @
        map item_tx (takeWhile (\<lambda>i. \<not> is_block i) js)\<rparr> #
      blocks_of (dropWhile (\<lambda>i. \<not> is_block i) js)" by blast
    then show ?thesis
      using s1 i ItemTx stream_frame_trans [OF s1(2) s'(2)]
      by (intro exI [of _ s']) (simp add: sbind_def)
  qed
qed

lemma streamed_blocks:
  assumes "items_of (env_lib env) es = Some is" "\<not> agg_halted s" "\<forall>i \<in> set is. numbered i"
    "is = [] \<or> is_block (hd is)" "agg_currentStreamL2Block s = empty_block" "Blocks (agg_currentStreamBatchRaw s) = []"
  shows "\<exists>s'. handle_entries env es s = Some (Ok (), s') \<and> stream_frame s s' \<and>
    agg_currentBatchStreamData s' = agg_currentBatchStreamData s @ concat (map (lib_Encode (env_lib env)) es) \<and> blocks_so_far s' = blocks_of is"
proof (cases es)
  case Nil
  then show ?thesis
    using assms by (auto simp: ret_def stream_frame_def blocks_so_far_def empty_block_def)
next
  case (Cons e es')
  obtain b js where i: "item_of (env_lib env) e = Some (ItemBlock b)" "items_of (env_lib env) es' = Some js" "is = ItemBlock b # js"
    using assms(1,4) Cons by (auto simp del: item_of.simps split: option.splits elim: is_block.elims)
  obtain s1 where s1: "handleReceivedDataStream env e s = Some (Ok (), s1)" "stream_frame s s1"
      "agg_currentBatchStreamData s1 = agg_currentBatchStreamData s @ lib_Encode (env_lib env) e"
    "agg_currentStreamL2Block s1 = open_block b" "Blocks (agg_currentStreamBatchRaw s1) = []"
    using entry_block [OF i(1) assms(2)] assms(5,6) by (auto simp: empty_block_def)
  have "BlockNumber (agg_currentStreamL2Block s1) \<noteq> 0" "\<not> agg_halted s1" "\<forall>i \<in> set js. numbered i"
    using assms(2,3) i s1(2,4) by (auto simp: open_block_def numbered_def stream_frame_def)
  from entries_after_block [OF i(2) this(2,3,1)] obtain s' where
    "handle_entries env es' s1 = Some (Ok (), s')" "stream_frame s1 s'"
      "agg_currentBatchStreamData s' = agg_currentBatchStreamData s1 @ concat (map (lib_Encode (env_lib env)) es')"
    "blocks_so_far s' = Blocks (agg_currentStreamBatchRaw s1) @
      (agg_currentStreamL2Block s1)\<lparr>block_txs := block_txs (agg_currentStreamL2Block s1) @
        map item_tx (takeWhile (\<lambda>i. \<not> is_block i) js)\<rparr> #
      blocks_of (dropWhile (\<lambda>i. \<not> is_block i) js)" by blast
  then show ?thesis
    using s1 i Cons stream_frame_trans [OF s1(2)]
    by (intro exI [of _ s']) (simp add: sbind_def open_block_def)
qed

end
