(* ===== verification/Agg_Stream_Batches.thy ===== *)
theory Agg_Stream_Batches
  imports Agg_Stream_Runs
begin

text \<open>
  What the entries of a whole batch do: the batch that is stored at its end, what an end that is
  refused leaves behind, and what becomes of witnesses and of the batches a reorganisation deletes.
\<close>

section \<open>The end of a batch\<close>

definition tick :: "aggregator \<Rightarrow> aggregator" where
  "tick s = s\<lparr>agg_tick := agg_tick s + 1\<rparr>"

lemma tick_simps [simp]:
  "agg_tables (tick s) = agg_tables s" "agg_currentStreamBatch (tick s) = agg_currentStreamBatch s"
  "agg_currentStreamBatchRaw (tick s) = agg_currentStreamBatchRaw s"
  "agg_currentStreamL2Block (tick s) = agg_currentStreamL2Block s"
  "agg_currentBatchStreamData (tick s) = agg_currentBatchStreamData s"
  "agg_witnessRetrieval (tick s) = agg_witnessRetrieval s" "agg_halted (tick s) = agg_halted s"
  "agg_sent (tick s) = agg_sent s"
  by (simp_all add: tick_def)

lemma quiet_runs:
  assumes "quiet env"
  shows "interact env s = Some (Ok (agg_tick s), tick s)"
    "ask env f s = Some (f (agg_tick s), tick s)"
    "db_read env g s = Some (map_err EStorage (g (agg_tables s)), tick s)"
    "exec_call (c (env_now env (agg_tick s))) (agg_tables s) = Ok t' \<Longrightarrow>
       db_write env c s = Some (Ok (), (tick s)\<lparr>agg_tables := t'\<rparr>)"
    "h (agg_tick s) = Some r \<Longrightarrow> poll_until env h s = Some (r, tick s)"
  using assms
  by (simp_all add: quiet_def ask_def db_read_def db_write_def interact_def step_defs tick_def
      poll_until.simps [of env h] after_interact_def)

text \<open>L1 answers what it knows of batch \<open>n\<close> whenever it is asked.\<close>

definition answered :: "agg_env \<Rightarrow> u64 \<Rightarrow> virtual_batch \<Rightarrow> l1_sequence \<Rightarrow> hash \<Rightarrow> bool" where
  "answered env n vb sq parent \<longleftrightarrow>
     (\<forall>m. env_virtual env m n = Inr vb \<and> env_sequence env m n = Inr (Some sq) \<and>
        env_block_parent env m (vb_BlockNumber vb) = Inr parent)"

text \<open>The batch as it is stored, from what the stream said of it.\<close>

definition completed :: "agg_env \<Rightarrow> state_batch \<Rightarrow> state_batch \<Rightarrow> virtual_batch \<Rightarrow> l1_sequence \<Rightarrow> hash \<Rightarrow> byte list \<Rightarrow> state_batch" where
  "completed env cur old vb sq parent data =
     (let bd = (if UseL1BatchData (env_cfg env) \<or> from_L1 cur then vb_BatchL2Data vb else data);
          root = (if BatchNumber cur = 1 then GlobalExitRoot cur else seq_L1InfoRoot sq);
          fb = (if BatchNumber cur = 1 then parent else 0);
          K = lib_keccak (env_lib env)
      in cur\<lparr>BatchL2Data := bd, L1InfoRoot := root, Timestamp := seq_Timestamp sq,
           AccInputHash := bytes_to_hash (K (acc_input_preimage K (AccInputHash old) bd root
             (word_of_int (seq_Timestamp sq)) (Coinbase cur) fb))\<rparr>)"

lemma sbind_Ok: "m s = Some (Ok x, s1) \<Longrightarrow> sbind m f s = f x s1"
  by (simp add: sbind_def)

lemma run_simps [simp]: "getter f s = Some (Ok (f s), s)" "modify g s = Some (Ok (), g s)"
  "ret x s = Some (Ok x, s)" "lift r s = Some (r, s)"
  by (simp_all add: step_defs)

lemma run_set_batch [simp]:
  "set_batch f s = Some (Ok (), s\<lparr>agg_currentStreamBatch := f (agg_currentStreamBatch s)\<rparr>)"
  by (simp add: set_batch_def)

lemma run_complete_batch:
  assumes "quiet env" "BatchNumber (agg_currentStreamBatch s) = n" "answered env n vb sq parent"
    "GetBatch (n - 1) (agg_tables s) = Ok old"
    "\<not> from_L1 (agg_currentStreamBatch s) \<Longrightarrow>
      EncodeBatchV2 (lib_rlp_enc (env_lib env)) (Some (agg_currentStreamBatchRaw s)) = Ok data"
  shows "\<exists>k. complete_batch env s = Some (Ok (), s\<lparr>agg_tick := k, agg_currentStreamBatch :=
    completed env (agg_currentStreamBatch s) (Batch old) vb sq parent data\<rparr>)"
proof -
  let ?cur = "agg_currentStreamBatch s"
  have v: "poll_until env (virtual_answer env n) s = Some (Ok vb, tick s)" for s
    using assms(3) by (intro quiet_runs [OF assms(1)]) (simp add: virtual_answer_def answered_def)
  have q: "poll_until env (sequence_answer env n) s = Some (Ok sq, tick s)" for s
    using assms(3) by (intro quiet_runs [OF assms(1)]) (simp add: sequence_answer_def answered_def)
  have p: "ask env (\<lambda>n. l1_result (env_block_parent env n (vb_BlockNumber vb))) s = Some (Ok parent, tick s)" for s
    using assms(3) by (simp add: quiet_runs [OF assms(1)] answered_def)
  note run = complete_batch_def sbind_def quiet_runs(3) [OF assms(1)] CalculateAccInputHash_def
    completed_def tick_def Let_def
  show ?thesis
  proof (cases "n = 1")
    case True
    show ?thesis
      using assms(2,4,5) unfolding True
      by (cases "from_L1 ?cur") (auto simp: run v [unfolded True tick_def] q [unfolded True tick_def] p [unfolded tick_def],
         (cases s; cases ?cur; force)+)
  next
    case False
    then show ?thesis
      using assms(2,4,5)
      by (cases "from_L1 ?cur") (auto simp: run v [unfolded tick_def] q [unfolded tick_def] p [unfolded tick_def])
  qed
qed

definition fresh_stream :: "aggregator \<Rightarrow> bool" where
  "fresh_stream s \<longleftrightarrow> \<not> agg_halted s \<and> agg_currentStreamL2Block s = empty_block \<and>
     agg_currentStreamBatchRaw s = \<lparr>Blocks = []\<rparr>"

lemma GetBatch_AddBatch:
  "AddBatch b t = Ok t' \<Longrightarrow> GetBatch (BatchNumber (Batch b)) t' = Ok b"
  by (auto simp: AddBatch_def GetBatch_def outcome_simps)

lemma run_store_batch:
  assumes "quiet env" "bigint (BatchNumber (agg_currentStreamBatch s))" "0 < MaxWitnessRetrievalWorkers (env_cfg env)"
    "GetBatch (BatchNumber (agg_currentStreamBatch s)) (agg_tables s) \<in> insert (Err ErrNotFound) (range Ok)"
    and d_def: "d = \<lparr>Batch = agg_currentStreamBatch s, Datastream = agg_currentBatchStreamData s,
      Witness = (case GetBatch (BatchNumber (agg_currentStreamBatch s)) (agg_tables s) of Ok w \<Rightarrow> Witness w | _ \<Rightarrow> [])\<rparr>"
  shows "\<exists>k t'. AddBatch d (agg_tables s) = Ok t' \<and>
    store_batch env s = Some (Ok (), s\<lparr>agg_tick := k, agg_tables := t',
      agg_witnessRetrieval := agg_witnessRetrieval s @ (if Witness d = [] then [d] else [])\<rparr>)"
proof -
  obtain t' where t': "AddBatch d (agg_tables s) = Ok t'"
    using assms(2) by (auto simp: AddBatch_def d_def outcome_simps)
  have put: "\<exists>k. put_batch env d s1 = Some (Ok (), s1\<lparr>agg_tick := k, agg_tables := t',
      agg_witnessRetrieval := agg_witnessRetrieval s1 @ (if Witness d = [] then [d] else [])\<rparr>)"
    if "agg_tables s1 = agg_tables s" for s1
  proof -
    have w: "db_write env (\<lambda>_. CallAddBatch d) s1 = Some (Ok (), (tick s1)\<lparr>agg_tables := t'\<rparr>)"
      using t' that by (intro quiet_runs [OF assms(1)]) simp
    show ?thesis
      using assms(3)
      by (cases "Witness d = []")
         (simp_all add: put_batch_def sbind_def w quiet_runs(1) [OF assms(1)] tick_def, (cases s1; force)+)
  qed
  have read: "attempt (db_read env (GetBatch n)) s =
      Some (case GetBatch n (agg_tables s) of Err e \<Rightarrow> Ok (Err (EStorage e)) | Ok x \<Rightarrow> Ok (Ok x) | Panic \<Rightarrow> Panic, tick s)" for n
    by (simp add: attempt_def quiet_runs(3) [OF assms(1)] split: outcome.split)
  obtain k where k: "put_batch env d (tick s) = Some (Ok (), (tick s)\<lparr>agg_tick := k, agg_tables := t',
      agg_witnessRetrieval := agg_witnessRetrieval s @ (if Witness d = [] then [d] else [])\<rparr>)"
    using put [of "tick s"] by auto
  have "store_batch env s = put_batch env d (tick s)"
    using assms(4) by (auto simp: store_batch_def sbind_def read d_def)
  then show ?thesis
    using t' k by (auto simp: tick_def)
qed

lemma handle_entries_append:
  "handle_entries env (xs @ ys) = sbind (handle_entries env xs) (\<lambda>_. handle_entries env ys)"
proof (induction xs)
  case (Cons x xs)
  then show ?case
    by (intro ext) (auto simp: sbind_def split: option.splits prod.splits outcome.splits)
qed (auto simp: sbind_def)

lemma entry_start:
  assumes "entry_Type e = ENTRY_TYPE_BATCH_START" "lib_BatchStart (env_lib env) (entry_Data e) = Some b" "\<not> agg_halted s"
  shows "handleReceivedDataStream env e s = Some (Ok (), s
    \<lparr>agg_currentBatchStreamData := agg_currentBatchStreamData s @ lib_Encode (env_lib env) e,
     agg_currentStreamBatch := (agg_currentStreamBatch s)\<lparr>BatchNumber := bs_Number b, ChainID := bs_ChainId b,
       ForkID := bs_ForkId b, Type := bs_Type b\<rparr>\<rparr>)"
  using assms by (simp add: handleReceivedDataStream_def on_batch_start_def sbind_def)

lemma run_batch_end:
  assumes "quiet env" "entry_Type e = ENTRY_TYPE_BATCH_END" "lib_BatchEnd (env_lib env) (entry_Data e) = Some b"
    "\<not> agg_halted s" "BatchNumber (agg_currentStreamBatch s) = n" "n \<noteq> 0" "bigint n"
    "0 < MaxWitnessRetrievalWorkers (env_cfg env)"
    "answered env n vb sq parent" "GetBatch (n - 1) (agg_tables s) = Ok old"
    "GetBatch n (agg_tables s) \<in> insert (Err ErrNotFound) (range Ok)"
    "\<not> from_L1 (agg_currentStreamBatch s) \<Longrightarrow>
      EncodeBatchV2 (lib_rlp_enc (env_lib env)) (Some \<lparr>Blocks = blocks_so_far s\<rparr>) = Ok data"
  defines "d \<equiv> \<lparr>Batch = completed env ((agg_currentStreamBatch s)
        \<lparr>LocalExitRoot := bytes_to_hash (be_LocalExitRoot b), StateRoot := bytes_to_hash (be_StateRoot b)\<rparr>)
        (Batch old) vb sq parent data,
      Datastream = agg_currentBatchStreamData s @ lib_Encode (env_lib env) e,
      Witness = (case GetBatch n (agg_tables s) of Ok w \<Rightarrow> Witness w | _ \<Rightarrow> [])\<rparr>"
  shows "\<exists>s'. handleReceivedDataStream env e s = Some (Ok (), s') \<and> fresh_stream s' \<and>
    AddBatch d (agg_tables s) = Ok (agg_tables s') \<and> agg_currentBatchStreamData s' = [] \<and>
    agg_witnessRetrieval s' = agg_witnessRetrieval s @ (if Witness d = [] then [d] else [])"
proof -
  let ?cur = "(agg_currentStreamBatch s)
    \<lparr>LocalExitRoot := bytes_to_hash (be_LocalExitRoot b), StateRoot := bytes_to_hash (be_StateRoot b)\<rparr>"
  let ?s1 = "s\<lparr>agg_currentBatchStreamData := agg_currentBatchStreamData s @ lib_Encode (env_lib env) e,
      agg_currentStreamBatch := ?cur\<rparr>"
  obtain s2 where s2: "push_block ?s1 = Some (Ok (), s2)" "agg_currentStreamBatch s2 = ?cur"
    "agg_currentStreamBatchRaw s2 = \<lparr>Blocks = blocks_so_far s\<rparr>" "agg_tables s2 = agg_tables s"
    "agg_witnessRetrieval s2 = agg_witnessRetrieval s" "\<not> agg_halted s2"
    "agg_currentBatchStreamData s2 = agg_currentBatchStreamData s @ lib_Encode (env_lib env) e"
    using assms(4) by (auto simp: push_block_def blocks_so_far_def)
  have L1: "from_L1 ?cur = from_L1 (agg_currentStreamBatch s)" by (simp add: from_L1_def)
  have "\<exists>k. complete_batch env s2 = Some (Ok (), s2\<lparr>agg_tick := k, agg_currentStreamBatch := Batch d\<rparr>)"
    using run_complete_batch [OF assms(1), of s2 n vb sq parent old data] assms(5,9,10,12) s2(2-4) L1
    by (simp add: d_def)
  then obtain k where c: "complete_batch env s2 = Some (Ok (), s2\<lparr>agg_tick := k, agg_currentStreamBatch := Batch d\<rparr>)" ..
  let ?s3 = "s2\<lparr>agg_tick := k, agg_currentStreamBatch := Batch d\<rparr>"
  have n: "BatchNumber (Batch d) = n" using assms(5) by (simp add: d_def completed_def Let_def)
  obtain k' t' where st: "AddBatch d (agg_tables s) = Ok t'"
    "store_batch env ?s3 = Some (Ok (), ?s3\<lparr>agg_tick := k', agg_tables := t',
      agg_witnessRetrieval := agg_witnessRetrieval s @ (if Witness d = [] then [d] else [])\<rparr>)"
  proof -
    have "d = \<lparr>Batch = agg_currentStreamBatch ?s3, Datastream = agg_currentBatchStreamData ?s3,
      Witness = (case GetBatch (BatchNumber (agg_currentStreamBatch ?s3)) (agg_tables ?s3) of Ok w \<Rightarrow> Witness w | _ \<Rightarrow> [])\<rparr>"
      using n s2(4,7) by (simp add: d_def)
    from run_store_batch [OF assms(1) _ assms(8) _ this] assms(7,11) n s2(4,5) show ?thesis
      using that by auto
  qed
  show ?thesis
    using assms(2,3,4,5,6) s2 c st n
    by (auto simp: handleReceivedDataStream_def on_batch_end_def sbind_def reset_stream_def fresh_stream_def)
qed

text \<open>
  C5. A batch of the data stream is stored as it was streamed. In a fresh state, with the database
  and L1 answering, the entries of a batch (its start, blocks with their transactions, its end) end
  with the batch stored under its number: its data are the Etrog encoding of exactly the streamed
  blocks, its roots and its ids those of the entries, its L1 info root and its time those of its
  sequence, its accumulated hash that of its predecessor and of its own data, its stream data the
  bytes of all its entries, and its witness the one stored before; a batch without a witness has
  been handed to a worker. The state is fresh again.
\<close>

theorem streamed_batch_stored:
  assumes "quiet env" "fresh_stream s"
    and "entry_Type e0 = ENTRY_TYPE_BATCH_START" "lib_BatchStart (env_lib env) (entry_Data e0) = Some b0"
    and "items_of (env_lib env) es = Some is" "\<forall>i \<in> set is. numbered i" "is = [] \<or> is_block (hd is)"
    and "entry_Type e1 = ENTRY_TYPE_BATCH_END" "lib_BatchEnd (env_lib env) (entry_Data e1) = Some b1"
    and "n = bs_Number b0" "1 < n" "bigint n" "bs_Type b0 \<noteq> BATCH_TYPE_INVALID" "bs_Type b0 \<noteq> BATCH_TYPE_INJECTED"
    and "\<not> UseL1BatchData (env_cfg env)" "0 < MaxWitnessRetrievalWorkers (env_cfg env)"
    and "answered env n vb sq parent" "GetBatch (n - 1) (agg_tables s) = Ok old"
    and "GetBatch n (agg_tables s) \<in> insert (Err ErrNotFound) (range Ok)"
    and "EncodeBatchV2 (lib_rlp_enc (env_lib env)) (Some \<lparr>Blocks = blocks_of is\<rparr>) = Ok data"
  shows "\<exists>s' d. handle_entries env (e0 # es @ [e1]) s = Some (Ok (), s') \<and> fresh_stream s' \<and>
    GetBatch n (agg_tables s') = Ok d \<and> BatchNumber (Batch d) = n \<and>
    BatchL2Data (Batch d) = data \<and>
    StateRoot (Batch d) = bytes_to_hash (be_StateRoot b1) \<and>
    LocalExitRoot (Batch d) = bytes_to_hash (be_LocalExitRoot b1) \<and>
    ChainID (Batch d) = bs_ChainId b0 \<and> ForkID (Batch d) = bs_ForkId b0 \<and> Type (Batch d) = bs_Type b0 \<and>
    L1InfoRoot (Batch d) = seq_L1InfoRoot sq \<and> Timestamp (Batch d) = seq_Timestamp sq \<and>
    CalculateAccInputHash (lib_keccak (env_lib env)) (AccInputHash (Batch old)) data (seq_L1InfoRoot sq)
      (word_of_int (seq_Timestamp sq)) (Coinbase (Batch d)) 0 = Ok (AccInputHash (Batch d)) \<and>
    Datastream d = agg_currentBatchStreamData s @ concat (map (lib_Encode (env_lib env)) (e0 # es @ [e1])) \<and>
    Witness d = (case GetBatch n (agg_tables s) of Ok w \<Rightarrow> Witness w | _ \<Rightarrow> []) \<and>
    agg_witnessRetrieval s' = agg_witnessRetrieval s @ (if Witness d = [] then [d] else [])"
proof -
  have h: "\<not> agg_halted s" using assms(2) by (simp add: fresh_stream_def)
  obtain s1 where s1: "handleReceivedDataStream env e0 s = Some (Ok (), s1)"
    "s1 = s\<lparr>agg_currentBatchStreamData := agg_currentBatchStreamData s @ lib_Encode (env_lib env) e0,
       agg_currentStreamBatch := (agg_currentStreamBatch s)\<lparr>BatchNumber := bs_Number b0, ChainID := bs_ChainId b0,
         ForkID := bs_ForkId b0, Type := bs_Type b0\<rparr>\<rparr>"
    using entry_start [OF assms(3,4) h] by simp
  have f1: "\<not> agg_halted s1" "agg_currentStreamL2Block s1 = empty_block" "Blocks (agg_currentStreamBatchRaw s1) = []"
    using assms(2) s1(2) by (simp_all add: fresh_stream_def)
  obtain s2 where s2: "handle_entries env es s1 = Some (Ok (), s2)" "stream_frame s1 s2"
    "agg_currentBatchStreamData s2 = agg_currentBatchStreamData s1 @ concat (map (lib_Encode (env_lib env)) es)"
    "blocks_so_far s2 = blocks_of is"
    using streamed_blocks [OF assms(5) f1(1) assms(6,7) f1(2,3)] by blast
  let ?cur = "agg_currentStreamBatch s2"
  have cur: "BatchNumber ?cur = n" "ChainID ?cur = bs_ChainId b0" "ForkID ?cur = bs_ForkId b0" "Type ?cur = bs_Type b0"
    using s2(2) assms(10) by (simp_all add: stream_frame_def s1(2) Let_def)
  have same: "agg_tables s2 = agg_tables s" "agg_witnessRetrieval s2 = agg_witnessRetrieval s" "\<not> agg_halted s2"
    using s2(2) f1(1) by (simp_all add: stream_frame_def s1(2))
  have n: "n \<noteq> 0" "n \<noteq> 1" using assms(11) by auto
  have L1: "\<not> from_L1 ?cur" using cur(4) assms(13,14) by (simp add: from_L1_def)
  let ?d = "\<lparr>Batch = completed env (?cur
        \<lparr>LocalExitRoot := bytes_to_hash (be_LocalExitRoot b1), StateRoot := bytes_to_hash (be_StateRoot b1)\<rparr>)
        (Batch old) vb sq parent data,
      Datastream = agg_currentBatchStreamData s2 @ lib_Encode (env_lib env) e1,
      Witness = (case GetBatch n (agg_tables s2) of Ok w \<Rightarrow> Witness w | _ \<Rightarrow> [])\<rparr>"
  obtain s3 where s3: "handleReceivedDataStream env e1 s2 = Some (Ok (), s3)" "fresh_stream s3"
    "AddBatch ?d (agg_tables s2) = Ok (agg_tables s3)"
    "agg_witnessRetrieval s3 = agg_witnessRetrieval s2 @ (if Witness ?d = [] then [?d] else [])"
    using run_batch_end [OF assms(1,8,9) same(3) cur(1) n(1) assms(12,16,17), of old data] assms(18-20) same s2(4) by auto
  have run: "handle_entries env (e0 # es @ [e1]) s = Some (Ok (), s3)"
    using s1(1) s2(1) s3(1) by (simp add: handle_entries_append sbind_def)
  have d: "BatchNumber (Batch ?d) = n" "\<not> from_L1 (?cur\<lparr>LocalExitRoot := x, StateRoot := y\<rparr>)" for x y
    using cur(1) L1 by (simp_all add: completed_def Let_def from_L1_def)
  have get: "GetBatch n (agg_tables s3) = Ok ?d"
    using GetBatch_AddBatch [OF s3(3)] d(1) by simp
  show ?thesis
  proof (intro exI conjI)
    show "handle_entries env (e0 # es @ [e1]) s = Some (Ok (), s3)" by (rule run)
    show "fresh_stream s3" by (rule s3(2))
    show "GetBatch n (agg_tables s3) = Ok ?d" by (rule get)
  qed (use d cur n assms(15) s3(4) same s2(3) in \<open>simp_all add: completed_def Let_def CalculateAccInputHash_def s1(2)\<close>)
qed

section \<open>A refused end of batch\<close>

text \<open>Steps that leave the blocks of the batch alone.\<close>

definition same_blocks :: "'a step \<Rightarrow> bool" where
  "same_blocks m \<longleftrightarrow> (\<forall>s r s'. m s = Some (r, s') \<longrightarrow>
     agg_currentStreamBatchRaw s' = agg_currentStreamBatchRaw s \<and> agg_currentStreamL2Block s' = agg_currentStreamL2Block s)"

lemma same_blocksD: "same_blocks m \<Longrightarrow> m s = Some (r, s') \<Longrightarrow>
    agg_currentStreamBatchRaw s' = agg_currentStreamBatchRaw s \<and> agg_currentStreamL2Block s' = agg_currentStreamL2Block s"
  by (simp add: same_blocks_def)

lemma same_blocks_sbind:
  assumes "same_blocks m" "\<And>x. same_blocks (f x)"
  shows "same_blocks (sbind m f)"
  unfolding same_blocks_def
proof (intro allI impI)
  fix s r s' assume run: "sbind m f s = Some (r, s')"
  then obtain q s1 where q: "m s = Some (q, s1)" by (auto simp: sbind_def split: option.splits)
  note m = same_blocksD [OF assms(1) q]
  show "agg_currentStreamBatchRaw s' = agg_currentStreamBatchRaw s \<and> agg_currentStreamL2Block s' = agg_currentStreamL2Block s"
  proof (cases q)
    case (Ok x)
    then have "f x s1 = Some (r, s')" using run q by (simp add: sbind_def)
    from same_blocksD [OF assms(2) this] m show ?thesis by simp
  qed (use run q m in \<open>auto simp: sbind_def\<close>)
qed

lemma same_blocks_attempt: "same_blocks m \<Longrightarrow> same_blocks (attempt m)"
  by (auto simp: same_blocks_def attempt_def split: option.splits prod.splits outcome.splits)

lemma same_blocks_simple:
  "same_blocks (ret x)" "same_blocks (fail e)" "same_blocks crash" "same_blocks hang" "same_blocks (lift r)"
  "same_blocks (getter f)" "same_blocks (interact env)" "same_blocks (set_batch g)"
  by (simp_all add: same_blocks_def ret_def fail_def crash_def hang_def lift_def getter_def interact_def
      set_batch_def modify_def)

lemma same_blocks_calls: "same_blocks (ask env f)" "same_blocks (db_read env g)" "same_blocks (db_write env c)"
proof -
  have "same_blocks (modify (\<lambda>s. s\<lparr>agg_tables := t\<rparr>))" for t
    by (simp add: same_blocks_def modify_def)
  then show "same_blocks (ask env f)" "same_blocks (db_read env g)" "same_blocks (db_write env c)"
    unfolding ask_def db_read_def db_write_def by (auto intro!: same_blocks_sbind same_blocks_simple)
qed

lemma same_blocks_poll: "same_blocks (poll_until env f)"
  unfolding same_blocks_def
proof (intro allI impI)
  fix s r s' assume run: "poll_until env f s = Some (r, s')"
  show "agg_currentStreamBatchRaw s' = agg_currentStreamBatchRaw s \<and> agg_currentStreamL2Block s' = agg_currentStreamL2Block s"
    using poll_rule [OF run, of "\<lambda>u. agg_currentStreamBatchRaw u = agg_currentStreamBatchRaw s \<and>
      agg_currentStreamL2Block u = agg_currentStreamL2Block s"]
    by (simp add: after_interact_def)
qed

lemma same_blocks_save: "same_blocks (sbind (complete_batch env) (\<lambda>_. store_batch env))"
proof -
  have "same_blocks (modify (\<lambda>s. s\<lparr>agg_witnessRetrieval := agg_witnessRetrieval s @ [d]\<rparr>))" for d
    by (simp add: same_blocks_def modify_def)
  then show ?thesis
    unfolding complete_batch_def store_batch_def put_batch_def
    by (auto split: outcome.split intro!: same_blocks_sbind same_blocks_attempt same_blocks_simple same_blocks_calls same_blocks_poll)
qed

text \<open>
  C13. An end of batch that is refused has already taken effect. When the handler of a readable
  \<open>BATCH_END\<close> entry fails (L1 or the database does not answer, the batch cannot be encoded) the last
  block has been added to the batch and is still open, so that the batch as it stands has it twice,
  and so will what a second delivery of the entry stores.
\<close>

theorem refused_batch_end_doubles_block:
  assumes "handleReceivedDataStream env e s = Some (Err err, s')" "entry_Type e = ENTRY_TYPE_BATCH_END"
    "lib_BatchEnd (env_lib env) (entry_Data e) \<noteq> None" "BlockNumber (agg_currentStreamL2Block s) \<noteq> 0"
  shows "blocks_so_far s' = blocks_so_far s @ [agg_currentStreamL2Block s]"
proof -
  obtain b where b: "lib_BatchEnd (env_lib env) (entry_Data e) = Some b" using assms(3) by auto
  have h: "\<not> agg_halted s" using assms(1) by (auto simp: handleReceivedDataStream_def sbind_def)
  let ?s1 = "s\<lparr>agg_currentBatchStreamData := agg_currentBatchStreamData s @ lib_Encode (env_lib env) e,
      agg_currentStreamBatch := (agg_currentStreamBatch s)\<lparr>LocalExitRoot := bytes_to_hash (be_LocalExitRoot b),
        StateRoot := bytes_to_hash (be_StateRoot b)\<rparr>,
      agg_currentStreamBatchRaw := \<lparr>Blocks = blocks_so_far s\<rparr>\<rparr>"
  have "on_batch_end env (entry_Data e) (s\<lparr>agg_currentBatchStreamData := agg_currentBatchStreamData s @ lib_Encode (env_lib env) e\<rparr>) =
      Some (Err err, s')"
    using assms(1,2) h by (simp add: handleReceivedDataStream_def sbind_def)
  then have "(if BatchNumber (agg_currentStreamBatch ?s1) \<noteq> 0 then sbind (complete_batch env) (\<lambda>_. store_batch env) else ret ()) ?s1 = Some (Err err, s')"
    using assms(4)
    by (auto simp: on_batch_end_def b sbind_def push_block_def reset_stream_def blocks_so_far_def
        split: option.splits prod.splits outcome.splits if_splits)
  then have "sbind (complete_batch env) (\<lambda>_. store_batch env) ?s1 = Some (Err err, s')"
    by (simp split: if_splits)
  from same_blocksD [OF same_blocks_save this] show ?thesis
    using assms(4) by (simp add: blocks_so_far_def)
qed

section \<open>Witnesses and reorganisations\<close>

text \<open>
  C14. A witness loses its leading zero bytes. \<open>TrimLeft\<close> takes a set of characters, not a prefix: for
  the text that a server sends for a witness, \<open>0x\<close> and its bytes in hexadecimal, the bytes that are
  stored are those from the first byte that is not zero on.
\<close>

theorem witness_leading_zeros_lost:
  "witness_bytes (''0x'' @ encode_to_string bs) = dropWhile (\<lambda>b. b = 0) bs"
  by (rule witness_bytes_trimmed)

text \<open>
  C15. A reorganisation can be undone by a worker. \<open>handleReorg\<close> deletes the batches after the last
  virtual one and halts the stream, but not the workers: one that was still fetching the witness of
  a deleted batch stores that batch again, with the data of before the reorganisation.
\<close>

theorem reorg_undone_by_worker:
  assumes "quiet env" "n = BatchNumber (Batch d)" "bigint n" "v < n" "bigint v"
    "\<forall>m. env_last_virtual env m = Inr v" "\<forall>m ty. env_witness env m n ty = WitnessResult (Some w)"
  shows "\<exists>s1 s2. handleReorg env s = Some (Ok (), s1) \<and> agg_halted s1 \<and> GetBatch n (agg_tables s1) = Err ErrNotFound \<and>
    retrieveWitness env d s1 = Some (Ok (), s2) \<and>
    GetBatch n (agg_tables s2) = Ok (d\<lparr>Witness := witness_bytes w\<rparr>)"
proof -
  obtain t1 where t1: "DeleteBatchesNewerThanBatchNumber v (agg_tables s) = Ok t1" "batch_table t1 n = None"
    using assms(4,5) by (auto simp: DeleteBatchesNewerThanBatchNumber_def delete_batches_def outcome_simps)
  let ?s1 = "(tick (tick s))\<lparr>agg_tables := t1, agg_halted := True\<rparr>"
  have "db_write env (\<lambda>_. CallDeleteNewer v) (tick s) = Some (Ok (), (tick (tick s))\<lparr>agg_tables := t1\<rparr>)"
    using t1(1) by (intro quiet_runs [OF assms(1)]) simp
  then have reorg: "handleReorg env s = Some (Ok (), ?s1)"
    using assms(6) by (simp add: handleReorg_def sbind_def attempt_def quiet_runs(2) [OF assms(1)])
  let ?d = "d\<lparr>Witness := witness_bytes w\<rparr>"
  obtain t2 where t2: "AddBatch ?d t1 = Ok t2"
    using assms(2,3) by (auto simp: AddBatch_def outcome_simps)
  have "db_write env (\<lambda>_. CallAddBatch ?d) (tick ?s1) = Some (Ok (), (tick (tick ?s1))\<lparr>agg_tables := t2\<rparr>)"
    using t2 by (intro quiet_runs [OF assms(1)]) simp
  then have worker: "retrieveWitness env d ?s1 = Some (Ok (), (tick (tick ?s1))\<lparr>agg_tables := t2\<rparr>)"
    using assms(2,7) by (simp add: retrieveWitness.simps [of env d] getWitness_def sbind_def quiet_runs(2) [OF assms(1)])
  show ?thesis
    using reorg worker t1(2) assms(2,3) GetBatch_AddBatch [OF t2]
    by (intro exI [of _ ?s1] exI [of _ "(tick (tick ?s1))\<lparr>agg_tables := t2\<rparr>"])
       (simp add: GetBatch_def needs_def)
qed

end
