(* ===== verification/Agg_Server.thy ===== *)
theory Agg_Server
  imports Agg_Stream_Batches
begin

text \<open>
  The life of an aggregator in \<open>aggregator/aggregator.go\<close>: how \<open>New\<close> makes it, what \<open>Start\<close> does to the
  database, the loop that serves a prover (\<open>Channel\<close>), the clean-up of stale locks, and the states
  that all of these can reach together.
\<close>

section \<open>Creation\<close>

text \<open>
  The key of the sequencer comes from a keystore file. Reading, \<open>filepath.Clean\<close> and decrypting are
  library calls, and so is each client that \<open>New\<close> makes; without a client the process ends.
\<close>

record keystore_config =
  ks_Path :: string
  ks_Password :: string

record 'key key_lib =
  kl_Clean :: "string \<Rightarrow> string"
  kl_ReadFile :: "string \<Rightarrow> byte list option"
  kl_DecryptKey :: "byte list \<Rightarrow> string \<Rightarrow> 'key option"

datatype new_error = ErrReadFile | ErrDecryptKey

definition newKeyFromKeystore :: "'key key_lib \<Rightarrow> keystore_config \<Rightarrow> (new_error, 'key option) outcome" where
  "newKeyFromKeystore lib cfg =
     (if ks_Path cfg = '''' \<and> ks_Password cfg = '''' then Ok None
      else
        case kl_ReadFile lib (kl_Clean lib (ks_Path cfg)) of
          None \<Rightarrow> Err ErrReadFile
        | Some keystoreEncrypted \<Rightarrow>
            (case kl_DecryptKey lib keystoreEncrypted (ks_Password cfg) of
               None \<Rightarrow> Err ErrDecryptKey
             | Some key \<Rightarrow> Ok (Some key)))"

record new_clients =
  ok_ethTxManager :: bool
  ok_streamClient :: bool
  ok_l1Syncr :: bool

record 'key parts =
  part_profitabilityChecker :: "profitability_checker option"
  part_streamClient :: bool
  part_aggLayerClient :: bool
  part_sequencerPrivateKey :: "'key option"
  part_callbacks :: bool   \<comment> \<open>the handlers of the stream and of reorganisations are set\<close>

text \<open>The zero value of \<open>time.Time\<close>, in seconds and in the unit of the clock.\<close>

definition zero_time :: int where "zero_time = - 62135596800"

definition zero_batch :: state_batch where
  "zero_batch = \<lparr>BatchNumber = 0, Coinbase = 0, BatchL2Data = [], StateRoot = 0, LocalExitRoot = 0,
     AccInputHash = 0, L1InfoTreeIndex = 0, L1InfoRoot = 0, Timestamp = zero_time, Transactions = [],
     GlobalExitRoot = 0, ForcedBatchNum = None, ChainID = 0, ForkID = 0, Type = BATCH_TYPE_UNSPECIFIED\<rparr>"

definition new_state :: "tables \<Rightarrow> nat \<Rightarrow> aggregator" where
  "new_state t n = \<lparr>agg_tables = t, agg_tick = n, agg_verifyingProof = False,
     agg_timeSendFinalProof = zero_time * 1000000, agg_sent = [], agg_halted = False,
     agg_currentBatchStreamData = [], agg_currentStreamBatch = zero_batch,
     agg_currentStreamBatchRaw = \<lparr>Blocks = []\<rparr>, agg_currentStreamL2Block = empty_block,
     agg_witnessRetrieval = []\<rparr>"

definition New ::
    "'key key_lib \<Rightarrow> new_clients \<Rightarrow> agg_config \<Rightarrow> keystore_config \<Rightarrow> tables \<Rightarrow> nat \<Rightarrow>
     (new_error, 'key parts \<times> aggregator) outcome" where
  "New lib clients cfg keystore t n =
     (let checker = profitabilityChecker cfg in
      if \<not> ok_ethTxManager clients then Panic
      else if \<not> SyncModeOnlyEnabled cfg \<and> \<not> ok_streamClient clients then Panic
      else if \<not> ok_l1Syncr clients then Panic
      else
        let agglayer = (\<not> SyncModeOnlyEnabled cfg \<and> SettlementBackend cfg = AggLayer) in
        obind (if agglayer then newKeyFromKeystore lib keystore else Ok None) (\<lambda>sequencerPrivateKey.
        Ok (\<lparr>part_profitabilityChecker = checker, part_streamClient = (\<not> SyncModeOnlyEnabled cfg),
             part_aggLayerClient = agglayer, part_sequencerPrivateKey = sequencerPrivateKey,
             part_callbacks = (\<not> SyncModeOnlyEnabled cfg)\<rparr>, new_state t n)))"

section \<open>Start\<close>

definition getVerifiedBatchAccInputHash :: "agg_env \<Rightarrow> u64 \<Rightarrow> hash step" where
  "getVerifiedBatchAccInputHash env batchNumber =
     ask env (\<lambda>n. map_err EEtherman (GetBatchAccInputHash (env_etherman env n) batchNumber))"

text \<open>\<open>log.Fatalf\<close> ends the process.\<close>

definition or_fatal :: "agg_env \<Rightarrow> (nat \<Rightarrow> bool) \<Rightarrow> unit step" where
  "or_fatal env ok = ask env (\<lambda>n. if ok n then Ok () else Panic)"

text \<open>The storage part of \<open>Start\<close>: it gives the last verified batch and its accumulated hash.\<close>

definition prepare_storage :: "agg_env \<Rightarrow> u64 step" where
  "prepare_storage env =
     sbind (latest_verified env) (\<lambda>lastVerifiedBatchNumber.
     sbind (db_write env (\<lambda>_. CallDeleteOlder lastVerifiedBatchNumber)) (\<lambda>_.
     sbind (db_write env (\<lambda>_. CallDeleteUngenerated)) (\<lambda>_.
     sbind (getVerifiedBatchAccInputHash env lastVerifiedBatchNumber) (\<lambda>accInputHash.
     let dummyDBBatch = \<lparr>Batch = zero_batch\<lparr>BatchNumber := lastVerifiedBatchNumber, AccInputHash := accInputHash\<rparr>,
                         Datastream = [0], Witness = [0]\<rparr> in
     sbind (db_write env (\<lambda>_. CallAddBatch dummyDBBatch)) (\<lambda>_.
     ret lastVerifiedBatchNumber)))))"

text \<open>
  \<open>Start\<close> up to the point where it serves and waits for the end of its context. The batch number at
  which the data stream begins is the result; in the mode that only synchronises there is none.
\<close>

definition Start :: "agg_env \<Rightarrow> u64 option step" where
  "Start env =
     sbind (or_fatal env (env_sync env)) (\<lambda>_.
     if SyncModeOnlyEnabled (env_cfg env) then ret None
     else
       sbind (or_fatal env (env_listen env)) (\<lambda>_.
       sbind (prepare_storage env) (\<lambda>lastVerifiedBatchNumber.
       sbind (resetVerifyProofTime env) (\<lambda>_.
       sbind (or_fatal env (env_stream_start env)) (\<lambda>_.
       let bookMark = lastVerifiedBatchNumber + 1 in
       sbind (or_fatal env (\<lambda>n. env_bookmark env n bookMark)) (\<lambda>_.
       ret (Some bookMark)))))))"

section \<open>The channel of a prover\<close>

text \<open>
  One pass of the loop. Errors are logged, and only whether a proof was generated decides what is
  tried next.
\<close>

definition generated :: "bool result \<Rightarrow> bool" where
  "generated r = (case r of Ok b \<Rightarrow> b | _ \<Rightarrow> False)"

definition serve :: "agg_env \<Rightarrow> prover \<Rightarrow> unit step" where
  "serve env pr =
     sbind (attempt (tryBuildFinalProof env pr None)) (\<lambda>_.
     sbind (attempt (tryAggregateProofs env pr)) (\<lambda>r.
     if \<not> generated r then sbind (attempt (tryGenerateBatchProof env pr)) (\<lambda>_. ret ()) else ret ()))"

definition channel_pass :: "agg_env \<Rightarrow> prover \<Rightarrow> unit step" where
  "channel_pass env pr =
     sbind (getter agg_halted) (\<lambda>halted.
     if halted then ret ()
     else
       sbind (attempt (ask env (\<lambda>n. map_err EProver (IsIdle (env_prover env n))))) (\<lambda>r.
       case r of
         Err e \<Rightarrow> ret ()
       | Panic \<Rightarrow> crash
       | Ok isIdle \<Rightarrow> if \<not> isIdle then ret () else serve env pr))"

text \<open>The loop ends when the context of the server or of the stream is done.\<close>

partial_function (option) channel_loop ::
    "agg_env \<Rightarrow> prover \<Rightarrow> aggregator \<Rightarrow> (unit result \<times> aggregator) option" where
  "channel_loop env pr s =
     (case interact env s of
        None \<Rightarrow> None
      | Some (_, s') \<Rightarrow>
          if env_ctx_done env (agg_tick s) then Some (Err EContext, s')
          else
            case channel_pass env pr s' of
              None \<Rightarrow> None
            | Some (Ok _, s'') \<Rightarrow> channel_loop env pr s''
            | Some r \<Rightarrow> Some r)"

definition Channel :: "agg_env \<Rightarrow> unit step" where
  "Channel env =
     sbind (ask env (\<lambda>n. map_err EProver (NewProver (env_prover env n)))) (\<lambda>pr.
     sbind (ask env (\<lambda>n. Ok (SupportsForkID (env_prover env n) (CfgForkId (env_cfg env))))) (\<lambda>supported.
     if \<not> supported then fail EForkID else channel_loop env pr))"

section \<open>Clean-up\<close>

text \<open>One pass of \<open>cleanupLockedProofs\<close>; how many rows it deleted is only logged.\<close>

definition cleanupLockedProofs :: "agg_env \<Rightarrow> unit step" where
  "cleanupLockedProofs env =
     sbind (attempt (db_write env (\<lambda>now. CallCleanupLocked (lib_interval (env_lib env)) now
       (GeneratingProofCleanupThreshold (env_cfg env))))) (\<lambda>_. ret ())"

section \<open>Smaller functions\<close>

text \<open>
  \<open>FirstToUpper\<close> on ASCII text; \<open>runes[0]\<close> of an empty text is out of range.
\<close>

definition to_upper_char :: "char \<Rightarrow> char" where
  "to_upper_char c = (if CHR ''a'' \<le> c \<and> c \<le> CHR ''z'' then char_of (of_char c - 32 :: nat) else c)"

definition FirstToUpper :: "string \<Rightarrow> (unit, string) outcome" where
  "FirstToUpper s = (case s of [] \<Rightarrow> Panic | c # cs \<Rightarrow> Ok (to_upper_char c # cs))"

datatype serving_status = SERVING | NOT_SERVING

definition health_Check :: serving_status where "health_Check = SERVING"

text \<open>\<open>Watch\<close> sends one answer; \<open>send\<close> is the stream.\<close>

definition health_Watch :: "(serving_status \<Rightarrow> 'e option) \<Rightarrow> 'e option" where
  "health_Watch send = send SERVING"

section \<open>Invariants of the handlers\<close>

context proof_invariant begin

lemma keeps_or_fatal: "may_crash \<Longrightarrow> others_allowed env \<Longrightarrow> keeps S I W any (or_fatal env f)"
  unfolding or_fatal_def by (rule keeps_try_ask)

lemma keeps_prepare_storage:
  assumes "may_crash" "others_allowed env"
  shows "keeps S I W any (prepare_storage env)"
  unfolding prepare_storage_def getVerifiedBatchAccInputHash_def Let_def using assms
  by (auto intro!: keeps_simple(1) keeps_sbind [OF keeps_latest_verified] keeps_sbind [OF keeps_db_write]
      keeps_sbind [OF keeps_try_ask] batch_allowed cleanup_allowed)

lemma keeps_Start:
  assumes "may_crash" "others_allowed env"
  shows "keeps S I W any (Start env)"
  unfolding Start_def Let_def using assms
  by (auto intro!: keeps_simple(1) keeps_sbind [OF keeps_or_fatal] keeps_sbind [OF keeps_prepare_storage] keeps_sbind [OF keeps_turn(3)])

lemma keeps_serve:
  assumes "may_crash" "others_allowed env"
  shows "keeps S I W any (serve env pr)"
proof -
  have "keeps S I W any (tryBuildFinalProof env pr None)"
    by (rule keeps_weaken [OF keeps_tryBuildFinalProof [OF assms(2)]]) (auto elim: crash_any [OF assms(1)])
  moreover have "keeps S I W any (tryAggregateProofs env pr)"
    by (rule keeps_tryAggregateProofs [OF assms(2)]) (erule crash_any [OF assms(1)])
  ultimately show ?thesis
    unfolding serve_def using assms
    by (auto intro!: keeps_simple(1) keeps_attempt_sbind [where C = any] keeps_tryGenerateBatchProof)
qed

lemma keeps_channel_pass:
  assumes "may_crash" "others_allowed env"
  shows "keeps S I W any (channel_pass env pr)"
  unfolding channel_pass_def using assms
  by (auto intro!: keeps_simple(1) keeps_sbind [OF keeps_getter] keeps_attempt_sbind [OF keeps_try_ask] keeps_serve)

lemma keeps_cleanupLockedProofs:
  assumes "others_allowed env" "GeneratingProofCleanupThreshold (env_cfg env) \<noteq> []"
  shows "keeps S I W any (cleanupLockedProofs env)"
  unfolding cleanupLockedProofs_def using assms
  by (auto intro!: keeps_simple(1) keeps_sbind [OF keeps_attempt [OF keeps_db_write]] cleanup_allowed)

end

section \<open>Reachable states\<close>

text \<open>
  What can happen to a running aggregator: a pass of the loop of some prover, a message that went
  through the channel is settled, an entry of the stream is handled, a worker takes up a batch, a
  reorganisation is reported, stale locks are cleaned up. A panic ends the process, but not what
  the database holds.
\<close>

inductive agg_step :: "agg_env \<Rightarrow> aggregator \<Rightarrow> aggregator \<Rightarrow> bool" for env where
  step_prover: "channel_pass env pr s = Some (r, s') \<Longrightarrow> agg_step env s s'"
| step_settle: "msg \<in> set (agg_sent s) \<Longrightarrow> sendFinalProof env msg s = Some (r, s') \<Longrightarrow> agg_step env s s'"
| step_stream: "handleReceivedDataStream env e s = Some (r, s') \<Longrightarrow> agg_step env s s'"
| step_witness: "d \<in> set (agg_witnessRetrieval s) \<Longrightarrow> retrieveWitness env d s = Some (r, s') \<Longrightarrow> agg_step env s s'"
| step_reorg: "handleReorg env s = Some (r, s') \<Longrightarrow> agg_step env s s'"
| step_cleanup: "cleanupLockedProofs env s = Some (r, s') \<Longrightarrow> agg_step env s s'"

inductive reachable :: "agg_env \<Rightarrow> tables \<Rightarrow> aggregator \<Rightarrow> bool" for env t where
  reach_start: "Start env (new_state t n) = Some (r, s) \<Longrightarrow> reachable env t s"
| reach_step: "reachable env t s \<Longrightarrow> agg_step env s s' \<Longrightarrow> reachable env t s'"

inductive_cases agg_stepE: "agg_step env s s'"

definition agg_ok :: "aggregator \<Rightarrow> bool" where
  "agg_ok s \<longleftrightarrow> tables_wf (agg_tables s) \<and> proofs_ok (agg_tables s) \<and>
     (\<forall>m \<in> set (agg_sent s). usable (msg_recursiveProof m))"

text \<open>What the others may do to the database between two interactions, and a threshold that can be read.\<close>

definition orderly :: "agg_env \<Rightarrow> bool" where
  "orderly env \<longleftrightarrow> (\<forall>n. \<forall>c \<in> set (env_others env n). proof_call_ok c) \<and>
     GeneratingProofCleanupThreshold (env_cfg env) \<noteq> []"

lemma keeps_agg_ok:
  assumes "keeps S (\<lambda>t. tables_wf t \<and> proofs_ok t) (\<lambda>q. \<forall>m \<in> set q. usable (msg_recursiveProof m)) C m"
    "agg_ok s" "m s = Some (r, s')"
  shows "agg_ok s' \<and> (S \<longrightarrow> r \<noteq> Panic)"
  using keepsD [OF assms(1) _ _ assms(3)] assms(2) by (simp add: agg_ok_def)

lemma orderly_others: "orderly env \<Longrightarrow> ok.others_allowed env"
  by (simp add: orderly_def ok.others_allowed_def)

lemma may_crash_False: "ok.may_crash False"
  by (simp add: ok.may_crash_def)

lemma agg_step_ok:
  assumes "agg_step env s s'" "orderly env" "agg_ok s"
  shows "agg_ok s'"
  using assms(1)
proof cases
  case (step_prover pr r)
  show ?thesis
    using keeps_agg_ok [OF ok.keeps_channel_pass [OF may_crash_False orderly_others [OF assms(2)]] assms(3) step_prover] by simp
next
  case (step_settle msg r)
  have "usable (msg_recursiveProof msg)" using step_settle(1) assms(3) by (simp add: agg_ok_def)
  from keeps_agg_ok [OF ok.keeps_sendFinalProof [where S = False, OF orderly_others [OF assms(2)] this] assms(3) step_settle(2)]
  show ?thesis by simp
next
  case (step_stream e r)
  show ?thesis
    using keeps_agg_ok [OF ok.keeps_handleReceivedDataStream [OF orderly_others [OF assms(2)] may_crash_False] assms(3) step_stream] by simp
next
  case (step_witness d r)
  show ?thesis
    using keeps_agg_ok [OF ok.keeps_retrieveWitness [OF orderly_others [OF assms(2)]] assms(3) step_witness(2)] by simp
next
  case (step_reorg r)
  show ?thesis
    using keeps_agg_ok [OF ok.keeps_handleReorg [OF orderly_others [OF assms(2)]] assms(3) step_reorg] by simp
next
  case (step_cleanup r)
  show ?thesis
    using keeps_agg_ok [OF ok.keeps_cleanupLockedProofs [OF orderly_others [OF assms(2)]] assms(3) step_cleanup] assms(2)
    by (simp add: orderly_def)
qed

lemma reachable_ok:
  assumes "reachable env t s" "orderly env" "tables_wf t" "proofs_ok t"
  shows "agg_ok s"
  using assms(1)
proof induction
  case (reach_start n r s)
  have "agg_ok (new_state t n)" using assms(3,4) by (simp add: agg_ok_def new_state_def)
  from keeps_agg_ok [OF ok.keeps_Start [OF may_crash_False orderly_others [OF assms(2)]] this reach_start]
  show ?case by simp
qed (rule agg_step_ok [OF _ assms(2)])

text \<open>
  C6. Whatever runs next to what, the database stays well formed: in every state that an aggregator
  can reach from well-formed tables, with the other goroutines' calls taking effect between any two
  of its interactions, the keys are unique and refer to batches, every proof has a range that is not
  empty, every proof that is not locked has an identifier, and so has every proof sent to be settled.
\<close>

theorem reachable_states_well_formed:
  assumes "reachable env t s" "orderly env" "tables_wf t" "proofs_ok t"
  shows "tables_wf (agg_tables s) \<and> proofs_ok (agg_tables s) \<and> (\<forall>m \<in> set (agg_sent s). usable (msg_recursiveProof m))"
  using reachable_ok [OF assms] by (simp add: agg_ok_def)

text \<open>
  C7. No reachable state makes the code dereference a proof that has no identifier. With a prover that
  answers with the payload it was asked for, a call of \<open>tryBuildFinalProof\<close> or of \<open>tryAggregateProofs\<close>
  does not panic, and neither does the settlement of a message when no transaction fails on L1.
\<close>

theorem reachable_handlers_return:
  assumes "reachable env t s" "orderly env" "tables_wf t" "proofs_ok t" "sane_prover env" "sane_l1 env"
  shows "\<not> (\<exists>pr s'. tryBuildFinalProof env pr None s = Some (Panic, s') \<or> tryAggregateProofs env pr s = Some (Panic, s')) \<and>
    \<not> (\<exists>msg s'. msg \<in> set (agg_sent s) \<and> sendFinalProof env msg s = Some (Panic, s'))"
proof -
  have ok: "agg_ok s" by (rule reachable_ok [OF assms(1-4)])
  note o = orderly_others [OF assms(2)]
  have "r \<noteq> Panic" if "tryBuildFinalProof env pr None s = Some (r, s')" for pr r s'
    using keeps_agg_ok [OF ok.keeps_tryBuildFinalProof [where S = True, OF o] ok that] assms(5) by auto
  moreover have "r \<noteq> Panic" if "tryAggregateProofs env pr s = Some (r, s')" for pr r s'
    using keeps_agg_ok [OF ok.keeps_tryAggregateProofs [where S = True, OF o] ok that] assms(5) by auto
  moreover have "r \<noteq> Panic" if "msg \<in> set (agg_sent s)" "sendFinalProof env msg s = Some (r, s')" for msg r s'
    using keeps_agg_ok [OF ok.keeps_sendFinalProof [where S = True, OF o] ok that(2)] that(1) ok assms(6)
    by (auto simp: agg_ok_def)
  ultimately show ?thesis by blast
qed

end
