(* ===== verification/Agg_Server_Runs.thy ===== *)
theory Agg_Server_Runs
  imports Agg_Server
begin

text \<open>
  What undisturbed calls of \<open>Start\<close> and \<open>sendFinalProof\<close> leave behind.
\<close>

section \<open>Start\<close>

lemma quiet_write:
  "quiet env \<Longrightarrow> db_write env c s =
    (case exec_call (c (env_now env (agg_tick s))) (agg_tables s) of
       Ok t' \<Rightarrow> Some (Ok (), (tick s)\<lparr>agg_tables := t'\<rparr>)
     | Err e \<Rightarrow> Some (Err (EStorage e), tick s)
     | Panic \<Rightarrow> Some (Panic, tick s))"
  by (auto simp: quiet_def db_write_def interact_def step_defs tick_def split: outcome.split)

lemma sbind_OkE:
  assumes "sbind m f s = Some (Ok y, s'')"
  obtains x s' where "m s = Some (Ok x, s')" "f x s' = Some (Ok y, s'')"
  using sbind_OkD [OF assms] by blast

lemma quiet_ask_Ok: "quiet env \<Longrightarrow> ask env f s = Some (Ok x, s') \<longleftrightarrow> f (agg_tick s) = Ok x \<and> s' = tick s"
  by (auto simp: quiet_runs)

lemma quiet_write_Ok:
  "quiet env \<Longrightarrow> db_write env c s = Some (Ok u, s') \<longleftrightarrow>
     (\<exists>t'. exec_call (c (env_now env (agg_tick s))) (agg_tables s) = Ok t' \<and> s' = (tick s)\<lparr>agg_tables := t'\<rparr>)"
  by (auto simp: quiet_write split: outcome.split)

lemma prepare_storage_effect:
  assumes "quiet env" "prepare_storage env s = Some (Ok v, s')"
  shows "\<exists>h d. latest_known env v \<and> (\<exists>n. GetBatchAccInputHash (env_etherman env n) v = Ok h) \<and>
    proof_table (agg_tables s') = filter (\<lambda>p. v \<le> ProofBatch p \<and> unlocked p) (proof_table (agg_tables s)) \<and>
    sequence_table (agg_tables s') = filter (\<lambda>q. v \<le> fst q) (sequence_table (agg_tables s)) \<and>
    GetBatch v (agg_tables s') = Ok d \<and> AccInputHash (Batch d) = h \<and>
    (\<forall>n. n \<noteq> v \<longrightarrow> batch_table (agg_tables s') n = (if n < v then None else batch_table (agg_tables s) n))"
proof -
  let ?dummy = "\<lambda>h. \<lparr>Batch = zero_batch\<lparr>BatchNumber := v, AccInputHash := h\<rparr>, Datastream = [0], Witness = [0]\<rparr>"
  obtain n h t1 t2 t3 where v: "GetLatestVerifiedBatchNum (env_etherman env n) = Ok v"
    "exec_call (CallDeleteOlder v) (agg_tables s) = Ok t1" "exec_call CallDeleteUngenerated t1 = Ok t2"
    "\<exists>m. GetBatchAccInputHash (env_etherman env m) v = Ok h"
    "exec_call (CallAddBatch (?dummy h)) t2 = Ok t3" "agg_tables s' = t3"
    using assms(2) unfolding prepare_storage_def Let_def latest_verified_def getVerifiedBatchAccInputHash_def
    by (elim sbind_OkE) (auto simp: quiet_ask_Ok [OF assms(1)] quiet_write_Ok [OF assms(1)] ret_Ok_iff outcome_simps
        simp del: exec_call.simps, blast)
  have t3: "AddBatch (?dummy h) t2 = Ok t3" using v(5) by simp
  have "latest_known env v" using v(1) by (auto simp: latest_known_def)
  moreover have "proof_table t3 = filter (\<lambda>p. v \<le> ProofBatch p \<and> unlocked p) (proof_table (agg_tables s))"
    "sequence_table t3 = filter (\<lambda>q. v \<le> fst q) (sequence_table (agg_tables s))"
    "\<forall>n. n \<noteq> v \<longrightarrow> batch_table t3 n = (if n < v then None else batch_table (agg_tables s) n)"
    using v(2,3) t3
    by (auto simp: DeleteBatchesOlderThanBatchNumber_def DeleteUngeneratedProofs_def AddBatch_def outcome_simps
        delete_batches_def delete_proofs_def zero_batch_def not_less)
  moreover have "GetBatch v t3 = Ok (?dummy h)"
    using GetBatch_AddBatch [OF t3] by simp
  ultimately show ?thesis using v(4,6) by (intro exI [of _ h] exI [of _ "?dummy h"]) auto
qed

text \<open>
  C9. What \<open>Start\<close> leaves of an earlier run. If it succeeds undisturbed, with last verified batch \<open>v\<close>,
  no proof is locked any more, nothing starts before \<open>v\<close>, the unlocked proofs and the sequences from
  \<open>v\<close> on are all there, batch \<open>v\<close> carries the accumulated hash that L1 has for it, every later batch
  is untouched, and the data stream begins at batch \<open>v + 1\<close>.
\<close>

theorem start_cleans_up:
  assumes "quiet env" "Start env s = Some (Ok (Some b), s')"
  shows "\<exists>v h d. latest_known env v \<and> b = v + 1 \<and>
    (\<exists>n. GetBatchAccInputHash (env_etherman env n) v = Ok h) \<and>
    proof_table (agg_tables s') = filter (\<lambda>p. v \<le> ProofBatch p \<and> unlocked p) (proof_table (agg_tables s)) \<and>
    sequence_table (agg_tables s') = filter (\<lambda>q. v \<le> fst q) (sequence_table (agg_tables s)) \<and>
    GetBatch v (agg_tables s') = Ok d \<and> AccInputHash (Batch d) = h \<and>
    (\<forall>n. n \<noteq> v \<longrightarrow> batch_table (agg_tables s') n = (if n < v then None else batch_table (agg_tables s) n))"
proof -
  obtain v s0 s1 where s0: "prepare_storage env s0 = Some (Ok v, s1)" "agg_tables s0 = agg_tables s"
    and rest: "agg_tables s' = agg_tables s1" "b = v + 1"
    using assms(2) unfolding Start_def Let_def or_fatal_def resetVerifyProofTime_def time_now_def
    by (elim sbind_OkE) (auto simp: quiet_ask_Ok [OF assms(1)] ret_Ok_iff split: if_splits elim!: sbind_OkE)
  from prepare_storage_effect [OF assms(1) s0(1)] s0(2) rest show ?thesis by auto
qed

section \<open>Settling\<close>

text \<open>Steps that only use up interactions.\<close>

definition idle :: "'a step \<Rightarrow> bool" where
  "idle m \<longleftrightarrow> (\<forall>s r s'. m s = Some (r, s') \<longrightarrow> (\<exists>k. s' = s\<lparr>agg_tick := k\<rparr>))"

lemma idleD: "idle m \<Longrightarrow> m s = Some (r, s') \<Longrightarrow> \<exists>k. s' = s\<lparr>agg_tick := k\<rparr>"
  by (simp add: idle_def)

lemma idle_sbind:
  assumes "idle m" "\<And>x. idle (f x)"
  shows "idle (sbind m f)"
  unfolding idle_def
proof (intro allI impI)
  fix s r s' assume run: "sbind m f s = Some (r, s')"
  then obtain q s1 where q: "m s = Some (q, s1)" by (auto simp: sbind_def split: option.splits)
  obtain k where k: "s1 = s\<lparr>agg_tick := k\<rparr>" using idleD [OF assms(1) q] ..
  show "\<exists>k. s' = s\<lparr>agg_tick := k\<rparr>"
  proof (cases q)
    case (Ok x)
    then have "f x s1 = Some (r, s')" using run q by (simp add: sbind_def)
    from idleD [OF assms(2) this] k show ?thesis by auto
  qed (use run q k in \<open>auto simp: sbind_def\<close>)
qed

lemma idle_attempt: "idle m \<Longrightarrow> idle (attempt m)"
  unfolding idle_def attempt_def by (auto split: option.splits prod.splits outcome.splits)

lemma idle_simple: "idle (ret x)" "idle (fail e)" "idle crash" "idle hang" "idle (lift r)" "idle (getter f)"
proof -
  have same: "\<exists>k. s = s\<lparr>agg_tick := k\<rparr>" for s by (rule exI [of _ "agg_tick s"]) simp
  show "idle (ret x)" "idle (fail e)" "idle crash" "idle hang" "idle (lift r)" "idle (getter f)"
    by (auto simp: idle_def ret_def fail_def crash_def hang_def lift_def getter_def simp del: run_simps intro: same)
qed

lemma idle_quiet:
  assumes "quiet env"
  shows "idle (interact env)" "idle (ask env f)" "idle (db_read env g)"
  unfolding idle_def by (auto simp: quiet_runs(1-3) [OF assms] tick_def)

lemma idle_calls:
  assumes "quiet env"
  shows "idle (agglayer_calls env p inputs)" "idle (direct_calls env p inputs)" "idle (process_results rs)"
proof -
  show "idle (process_results rs)"
    by (induction rs) (auto simp: handleMonitoredTxResult_def simp del: run_simps intro!: idle_sbind idle_simple)
  show "idle (agglayer_calls env p inputs)" "idle (direct_calls env p inputs)"
    unfolding agglayer_calls_def direct_calls_def
    by (auto split: option.split intro!: idle_sbind idle_simple idle_quiet [OF assms])
qed

text \<open>What is left when a settlement fails: the proof is stored unlocked, if its numbers fit.\<close>

definition released :: "state_proof \<Rightarrow> aggregator \<Rightarrow> aggregator \<Rightarrow> bool" where
  "released p s s' \<longleftrightarrow> (\<exists>k t'. s' = s\<lparr>agg_tick := k, agg_tables := t', agg_verifyingProof := False\<rparr> \<and>
     ((\<exists>now. UpdateGeneratedProof now (p\<lparr>GeneratingSince := None\<rparr>) (agg_tables s) = Ok t') \<or>
      t' = agg_tables s \<and> \<not> (bigint (ProofBatch p) \<and> bigint (ProofBatchFinal p))))"

lemma run_handleFailure:
  assumes "quiet env" "handleFailureToAddVerifyBatchToBeMonitored env p s = Some (r, s')"
  shows "r = Ok () \<and> released p s s'"
proof -
  let ?now = "env_now env (agg_tick s)"
  show ?thesis
  proof (cases "UpdateGeneratedProof ?now (p\<lparr>GeneratingSince := None\<rparr>) (agg_tables s)")
    case (Ok t')
    then have "r = Ok () \<and> s' = s\<lparr>agg_tick := agg_tick s + 1, agg_tables := t', agg_verifyingProof := False\<rparr>"
      using assms(2)
      by (simp add: handleFailureToAddVerifyBatchToBeMonitored_def sbind_def attempt_def quiet_write [OF assms(1)]
          endProofVerification_def tick_def)
    then show ?thesis using Ok unfolding released_def by blast
  next
    case (Err e)
    then have "r = Ok () \<and> s' = s\<lparr>agg_tick := agg_tick s + 1, agg_tables := agg_tables s, agg_verifyingProof := False\<rparr>"
      using assms(2)
      by (simp add: handleFailureToAddVerifyBatchToBeMonitored_def sbind_def attempt_def quiet_write [OF assms(1)]
          endProofVerification_def tick_def)
    moreover have "\<not> (bigint (ProofBatch p) \<and> bigint (ProofBatchFinal p))"
      using Err by (auto simp: UpdateGeneratedProof_def needs_def split: if_splits)
    ultimately show ?thesis unfolding released_def by blast
  qed (simp add: update_returns)
qed

lemma run_settle:
  assumes "quiet env" "idle calls" "idle done"
    "sbind (attempt calls) (\<lambda>r. case r of
       Err e \<Rightarrow> sbind (handleFailureToAddVerifyBatchToBeMonitored env p) (\<lambda>_. ret False)
     | Panic \<Rightarrow> crash
     | Ok (_ :: unit) \<Rightarrow> sbind done (\<lambda>_ :: unit. ret True)) s = Some (r, s')" "\<And>e s s'. done s \<noteq> Some (Err e, s')" "r \<noteq> Panic"
  shows "r = Ok True \<and> (\<exists>k. s' = s\<lparr>agg_tick := k\<rparr>) \<or> r = Ok False \<and> released p s s'"
proof -
  obtain q s1 where q: "calls s = Some (q, s1)"
    using assms(4) by (auto simp: sbind_def attempt_def split: option.splits)
  obtain k where k: "s1 = s\<lparr>agg_tick := k\<rparr>" using idleD [OF assms(2) q] ..
  show ?thesis
  proof (cases q)
    case (Ok x)
    then obtain d s2 where d: "done s1 = Some (d, s2)" "d \<noteq> Panic"
      using assms(4,6) q by (auto simp: sbind_def attempt_def split: option.splits outcome.splits)
    then have "r = Ok True \<and> s' = s2"
      using assms(4,5) q Ok by (cases d) (auto simp: sbind_def attempt_def)
    then show ?thesis using idleD [OF assms(3) d(1)] k by auto
  next
    case (Err e)
    then obtain d s2 where d: "handleFailureToAddVerifyBatchToBeMonitored env p s1 = Some (d, s2)"
      using assms(4) q by (auto simp: sbind_def attempt_def split: option.splits)
    from run_handleFailure [OF assms(1) this] have "d = Ok ()" "released p s1 s2" by auto
    moreover have "r = Ok False \<and> s' = s2"
      using assms(4) q Err d \<open>d = Ok ()\<close> by (auto simp: sbind_def attempt_def)
    ultimately show ?thesis using k by (auto simp: released_def)
  next
    case Panic
    then show ?thesis using assms(4,6) q by (auto simp: sbind_def attempt_def)
  qed
qed

lemma run_settle_backend:
  assumes "quiet env" "(case b of AggLayer \<Rightarrow> settleWithAggLayer env p inputs | L1 \<Rightarrow> settleDirect env p inputs) s = Some (r, s')"
    "r \<noteq> Panic"
  shows "r = Ok True \<and> (\<exists>k. s' = s\<lparr>agg_tick := k\<rparr>) \<or> r = Ok False \<and> released p s s'"
proof (cases b)
  case AggLayer
  have "settleWithAggLayer env p inputs = sbind (attempt (agglayer_calls env p inputs)) (\<lambda>r. case r of
       Err e \<Rightarrow> sbind (handleFailureToAddVerifyBatchToBeMonitored env p) (\<lambda>_. ret False)
     | Panic \<Rightarrow> crash
     | Ok _ \<Rightarrow> sbind (ret ()) (\<lambda>_. ret True))"
    unfolding settleWithAggLayer_def
    by (rule arg_cong2 [of _ _ _ _ sbind]) (auto simp: sbind_def fun_eq_iff split: outcome.split)
  with assms AggLayer show ?thesis
    by (intro run_settle [OF assms(1) idle_calls(1) [OF assms(1)] idle_simple(1)]) auto
next
  case L1
  let ?done = "sbind (interact env) (\<lambda>n. process_results (env_monitored env n))"
  have no_err: "?done s \<noteq> Some (Err e, s')" for e s s'
  proof -
    have "process_results rs s \<noteq> Some (Err e, s')" for rs s
      by (induction rs arbitrary: s) (auto simp: handleMonitoredTxResult_def sbind_def crash_def)
    then show ?thesis by (simp add: sbind_def quiet_runs(1) [OF assms(1)])
  qed
  have "settleDirect env p inputs = sbind (attempt (direct_calls env p inputs)) (\<lambda>r. case r of
       Err e \<Rightarrow> sbind (handleFailureToAddVerifyBatchToBeMonitored env p) (\<lambda>_. ret False)
     | Panic \<Rightarrow> crash
     | Ok _ \<Rightarrow> sbind ?done (\<lambda>_. ret True))"
    unfolding settleDirect_def
    by (rule arg_cong2 [of _ _ _ _ sbind]) (auto simp: sbind_def fun_eq_iff split: outcome.split option.split)
  with assms L1 show ?thesis
    by (intro run_settle [OF assms(1) idle_calls(2) [OF assms(1)] _ _ no_err])
       (auto intro!: idle_sbind idle_quiet idle_calls)
qed

text \<open>
  C8. The turn to verify is always given back. An undisturbed \<open>sendFinalProof\<close> that does not end the
  process returns without an error and with \<open>verifyingProof\<close> cleared. If the last batch of the proof
  cannot be read the database is left alone, so the proof stays locked; otherwise either the proof
  has been settled, stays locked and the next one has to wait for the interval, or it is
  stored unlocked and the wait is not prolonged.
\<close>

theorem send_final_proof_effect:
  assumes "quiet env" "sendFinalProof env msg s = Some (r, s')" "r \<noteq> Panic"
  shows "r = Ok () \<and> \<not> agg_verifyingProof s' \<and> agg_sent s' = agg_sent s \<and>
    (let p = msg_recursiveProof msg; t = agg_tables s; t' = agg_tables s' in
     if \<exists>e. GetBatch (ProofBatchFinal p) t = Err e then t' = t \<and> agg_timeSendFinalProof s' = agg_timeSendFinalProof s
     else
       t' = t \<and> (\<exists>n. agg_timeSendFinalProof s' = env_now env n + VerifyProofInterval (env_cfg env)) \<or>
       agg_timeSendFinalProof s' = agg_timeSendFinalProof s \<and>
         ((\<exists>now. UpdateGeneratedProof now (p\<lparr>GeneratingSince := None\<rparr>) t = Ok t') \<or>
          t' = t \<and> \<not> (bigint (ProofBatch p) \<and> bigint (ProofBatchFinal p))))"
proof -
  let ?p = "msg_recursiveProof msg" and ?s1 = "(tick (s\<lparr>agg_verifyingProof := True\<rparr>))"
  have read: "attempt (db_read env (GetBatch n)) u =
      Some (case GetBatch n (agg_tables u) of Err e \<Rightarrow> Ok (Err (EStorage e)) | Ok x \<Rightarrow> Ok (Ok x) | Panic \<Rightarrow> Panic, tick u)" for n u
    by (simp add: attempt_def quiet_runs(3) [OF assms(1)] split: outcome.split)
  show ?thesis
  proof (cases "GetBatch (ProofBatchFinal ?p) (agg_tables s)")
    case (Err e)
    then show ?thesis
      using assms(2)
      by (auto simp: sendFinalProof_def sbind_def read startProofVerification_def endProofVerification_def Let_def tick_def)
  next
    case (Ok d)
    let ?inputs = "\<lparr>fpi_FinalProof = msg_finalProof msg, fpi_NewLocalExitRoot = hash_bytes (LocalExitRoot (Batch d)),
                    fpi_NewStateRoot = hash_bytes (StateRoot (Batch d))\<rparr>"
    let ?settle = "case SettlementBackend (env_cfg env) of
                   AggLayer \<Rightarrow> settleWithAggLayer env ?p ?inputs | L1 \<Rightarrow> settleDirect env ?p ?inputs"
    let ?rest = "\<lambda>success. if \<not> success then ret () else sbind (resetVerifyProofTime env) (\<lambda>_. endProofVerification)"
    have run: "sbind ?settle ?rest ?s1 = Some (r, s')"
    proof -
      have "sbind startProofVerification f s = f () (s\<lparr>agg_verifyingProof := True\<rparr>)" for f :: "unit \<Rightarrow> unit step"
        by (simp add: sbind_def startProofVerification_def)
      then show ?thesis
        using assms(2) Ok by (simp add: sendFinalProof_def sbind_def [of "attempt _"] read Let_def)
    qed
    then obtain b s2 where b: "?settle ?s1 = Some (b, s2)" by (auto simp: sbind_def [of ?settle] split: option.splits)
    have "b \<noteq> Panic" using run b assms(3) by (auto simp: sbind_def [of ?settle])
    from run_settle_backend [OF assms(1) b this] show ?thesis
    proof (elim disjE conjE exE)
      fix k assume b1: "b = Ok True" "s2 = ?s1\<lparr>agg_tick := k\<rparr>"
      then have "r = Ok () \<and> s' = (tick s2)\<lparr>agg_timeSendFinalProof := env_now env (agg_tick s2) + VerifyProofInterval (env_cfg env),
          agg_verifyingProof := False\<rparr>"
        using run b by (simp add: sbind_def resetVerifyProofTime_def time_now_def quiet_runs(2) [OF assms(1)] endProofVerification_def)
      then show ?thesis using Ok b1 by (auto simp: Let_def tick_def)
    next
      assume b1: "b = Ok False" "released ?p ?s1 s2"
      then have "r = Ok () \<and> s' = s2" using run b by (simp add: sbind_def [of ?settle])
      then show ?thesis using Ok b1(2) by (auto simp: released_def Let_def tick_def)
    qed
  qed (auto simp: GetBatch_def needs_def split: if_splits option.splits)
qed

end
