(* ===== verification/Agg_Samples.thy ===== *)
theory Agg_Samples
  imports Agg_Server_Runs
begin

text \<open>
  A concrete environment of the aggregator, with a prover that answers and L1 data to prove, and the
  runs of its handlers there.
\<close>

section \<open>A sample environment\<close>

text \<open>A prover that answers every request and has every proof ready, and L1 with batch 4 verified last.\<close>

fun sample_conn :: connection where
  "sample_conn GetStatusRequest =
     Received (GetStatusResponse \<lparr>st_Status = STATUS_IDLE, st_ProverName = ''p'', st_ProverId = ''id'', st_ForkId = 9\<rparr>)"
| "sample_conn (GenStatelessBatchProofRequest i) = Received (GenBatchProofResponse \<lparr>gen_Id = ''b'', gen_Result = RESULT_OK\<rparr>)"
| "sample_conn (GenAggregatedProofRequest p q) = Received (GenAggregatedProofResponse \<lparr>gen_Id = ''a'', gen_Result = RESULT_OK\<rparr>)"
| "sample_conn (GenFinalProofRequest p a) = Received (GenFinalProofResponse \<lparr>gen_Id = ''f'', gen_Result = RESULT_OK\<rparr>)"
| "sample_conn (CancelRequest i) = Received (CancelResponse RESULT_OK)"
| "sample_conn (GetProofRequest i) = Received (GetProofResponse \<lparr>gp_Id = i, gp_Payload =
     (if i = ''f'' then FinalProof \<lparr>fp_Proof = ''0x'', fp_Public = \<lparr>NewStateRoot = [], NewLocalExitRoot = []\<rparr>\<rparr>
      else RecursiveProof ''proof''), gp_Result = PROOF_COMPLETED_OK\<rparr>)"

definition sample_prover :: prover where
  "sample_prover = \<lparr>prover_name = ''p'', prover_id = ''id''\<rparr>"

definition sample_etherman :: etherman_client where
  "sample_etherman = \<lparr>RollupID = 1, Contracts = \<lparr>
     rm_RollupIDToRollupData = (\<lambda>_. Some \<lparr>rd_LastVerifiedBatch = 4, rd_ChainID = 1101\<rparr>),
     rm_GetRollupSequencedBatches = (\<lambda>_ _. Some 17),
     rm_VerifyBatchesTrustedAggregator = (\<lambda>_. Ok (Some 3, [])),
     old_LastVerifiedBatch = None, old_ChainID = None\<rparr>\<rparr>"

definition sample_cfg :: agg_config where
  "sample_cfg = \<lparr>Host = ''0.0.0.0'', Port = 50081, RetryTime = 5, VerifyProofInterval = 90,
     ProofStatePollingInterval = 5, TxProfitabilityCheckerType = ''acceptall'', TxProfitabilityMinReward = 0,
     IntervalAfterWhichBatchConsolidateAnyway = 0, BatchProofSanityCheckEnabled = True, CfgChainID = 1101,
     CfgForkId = 9, SenderAddress = ''0x01'', CleanupLockedProofsInterval = 120,
     GeneratingProofCleanupThreshold = ''10m'', GasOffset = 0, WitnessURL = ''witness'', UseL1BatchData = False,
     UseFullWitness = True, SettlementBackend = AggLayer, AggLayerTxTimeout = 300, AggLayerURL = ''agglayer'',
     MaxWitnessRetrievalWorkers = 2, SyncModeOnlyEnabled = False\<rparr>"

text \<open>Entries carry what they say in the first byte of their data.\<close>

definition sample_lib :: libraries where
  "sample_lib = \<lparr>lib_keccak = (\<lambda>_. replicate 32 7), lib_rlp = rlp_dec, lib_rlp_enc = rlp_enc,
     lib_UnmarshalBinary = (\<lambda>d. if d = [1] then Some sample_tx else None), lib_newTx = new_tx_ref,
     lib_publics = (\<lambda>_. None), lib_NROUNDSF = 8, lib_marshal_pair = (@), lib_checksum_text = (\<lambda>_. ''0x05''),
     lib_agglayer = sample_agglayer_lib, lib_interval = (\<lambda>_. Some 600), lib_Encode = entry_Data,
     lib_BatchStart = (\<lambda>d. case d of [n] \<Rightarrow> Some \<lparr>bs_Number = ucast n, bs_Type = BATCH_TYPE_REGULAR, bs_ForkId = 9, bs_ChainId = 1101\<rparr> | _ \<Rightarrow> None),
     lib_BatchEnd = (\<lambda>d. Some \<lparr>be_LocalExitRoot = d, be_StateRoot = d\<rparr>),
     lib_L2Block = (\<lambda>d. case d of [n] \<Rightarrow> Some \<lparr>blk_Number = ucast n, blk_DeltaTimestamp = 3, blk_L1InfotreeIndex = 1,
        blk_GlobalExitRoot = [], blk_Coinbase = []\<rparr> | _ \<Rightarrow> None),
     lib_Transaction = (\<lambda>d. Some \<lparr>dtx_EffectiveGasPricePercentage = 255, dtx_Encoded = d\<rparr>)\<rparr>"

definition sample_env :: agg_env where
  "sample_env = \<lparr>env_cfg = sample_cfg, env_lib = sample_lib, env_now = int, env_db_ok = (\<lambda>_. True),
     env_others = (\<lambda>_. []), env_ctx_done = (\<lambda>_. False), env_prover = (\<lambda>_. sample_conn),
     env_polls = (\<lambda>_. [\<lparr>ctx_done_at = False, conn_at = sample_conn\<rparr>]), env_etherman = (\<lambda>_. sample_etherman),
     env_sequence = (\<lambda>_ b. Inr (Some \<lparr>seq_From = b, seq_To = b, seq_L1InfoRoot = 12, seq_Timestamp = 1700000000\<rparr>)),
     env_virtual = (\<lambda>_ _. Inr \<lparr>vb_BatchL2Data = [11], vb_BlockNumber = 100\<rparr>), env_block_parent = (\<lambda>_ _. Inr 13),
     env_leaves = (\<lambda>_ _. Inr []), env_leaf = (\<lambda>_ _. Inr None), env_sign = (\<lambda>_ _. Some [1]),
     env_send = (\<lambda>_ _. RpcResult (Some 14)), env_mined = (\<lambda>_. [WaitTick (\<lambda>_. RpcResult (Some ''done''))]),
     env_auth = (\<lambda>_. (True, [])), env_eth_add = (\<lambda>_. True), env_monitored = (\<lambda>_. []),
     env_last_virtual = (\<lambda>_. Inr 6), env_sync = (\<lambda>_. True), env_listen = (\<lambda>_. True), env_stream_start = (\<lambda>_. True),
     env_bookmark = (\<lambda>_ _. True), env_witness = (\<lambda>_ _ _. WitnessResult (Some ''0x0102''))\<rparr>"

lemma quiet_sample: "quiet sample_env"
  by (simp add: quiet_def sample_env_def)

definition sample_data :: "byte list" where
  "sample_data = header_Encode \<lparr>DeltaTimestamp = 3, IndexL1InfoTree = 1\<rparr> []"

text \<open>Batches of one empty block, for a root that every leaf has under this Keccak.\<close>

definition sample_root :: hash where
  "sample_root = bytes_to_hash (replicate 32 7)"

definition l2_batch :: "u64 \<Rightarrow> state_batch" where
  "l2_batch n = (sample_state_batch n)\<lparr>BatchL2Data := sample_data, L1InfoRoot := sample_root\<rparr>"

lemma l2_batch_simps [simp]:
  "BatchNumber (l2_batch n) = n" "BatchL2Data (l2_batch n) = sample_data" "L1InfoRoot (l2_batch n) = sample_root"
  "ForcedBatchNum (l2_batch n) = None" "StateRoot (l2_batch n) = 7"
  by (simp_all add: l2_batch_def sample_state_batch_def)

definition l2_db_batch :: "u64 \<Rightarrow> byte list \<Rightarrow> db_batch" where
  "l2_db_batch n w = \<lparr>Batch = l2_batch n, Datastream = [1, 2], Witness = w\<rparr>"

lemma l2_db_batch_simps [simp]: "BatchNumber (Batch (l2_db_batch n w)) = n" "Batch (l2_db_batch n w) = l2_batch n"
  "Witness (l2_db_batch n w) = w" "Datastream (l2_db_batch n w) = [1, 2]"
  by (simp_all add: l2_db_batch_def)

definition stocked :: "state_proof list \<Rightarrow> tables" where
  "stocked ps = exec_calls
     ([CallAddBatch (l2_db_batch 4 []), CallAddBatch (l2_db_batch 5 [1]), CallAddBatch (l2_db_batch 6 [1]),
       CallAddBatch (l2_db_batch 7 []),
       CallAddSequence \<lparr>FromBatchNumber = 5, ToBatchNumber = 6\<rparr>] @ map (CallAddProof 0) ps) empty_tables"

lemma stocked_wf: "tables_wf (stocked ps)"
  unfolding stocked_def by (rule exec_calls_wf) (simp add: tables_wf_def empty_tables_def)

lemma stocked_ok: "\<forall>p \<in> set ps. proof_call_ok (CallAddProof 0 p) \<Longrightarrow> proofs_ok (stocked ps)"
  unfolding stocked_def
  by (rule conjunct2 [OF ok.exec_calls_keeps]) (auto simp: tables_wf_def proofs_ok_def empty_tables_def)


lemma sample_env_simps [simp]:
  "env_cfg sample_env = sample_cfg" "env_lib sample_env = sample_lib" "env_now sample_env n = int n"
  "env_ctx_done sample_env n = False" "env_prover sample_env n = sample_conn"
  "env_polls sample_env n = [\<lparr>ctx_done_at = False, conn_at = sample_conn\<rparr>]" "env_etherman sample_env n = sample_etherman"
  "env_db_ok sample_env n" "env_others sample_env n = []"
  "env_sequence sample_env n b = Inr (Some \<lparr>seq_From = b, seq_To = b, seq_L1InfoRoot = 12, seq_Timestamp = 1700000000\<rparr>)"
  "env_virtual sample_env n b = Inr \<lparr>vb_BatchL2Data = [11], vb_BlockNumber = 100\<rparr>"
  "env_block_parent sample_env n k = Inr 13" "env_leaves sample_env n h = Inr []" "env_leaf sample_env n i = Inr None"
  "env_sign sample_env n d = Some [1]" "env_send sample_env n tx = RpcResult (Some 14)"
  "env_mined sample_env n = [WaitTick (\<lambda>_. RpcResult (Some ''done''))]"
  "env_last_virtual sample_env n = Inr 6" "env_sync sample_env n" "env_listen sample_env n" "env_stream_start sample_env n"
  "env_bookmark sample_env n b" "env_witness sample_env n b t = WitnessResult (Some ''0x0102'')"
  by (simp_all add: sample_env_def)

lemma sample_answers [simp]:
  "GetLatestVerifiedBatchNum sample_etherman = Ok 4" "GetBatchAccInputHash sample_etherman n = Ok 17"
  "GetRollupId sample_etherman = 1"
  "FinalProofRequest sample_conn p a = Ok ''f''" "AggregatedProof sample_conn p q = Ok ''a''"
  "BatchProof sample_conn i = Ok ''b''" "IsIdle sample_conn = Ok True"
  "WaitFinalProof [\<lparr>ctx_done_at = False, conn_at = sample_conn\<rparr>] ''f'' =
     Some (Ok \<lparr>fp_Proof = ''0x'', fp_Public = \<lparr>NewStateRoot = [], NewLocalExitRoot = []\<rparr>\<rparr>)"
  by (simp_all add: GetLatestVerifiedBatchNum_def GetBatchAccInputHash_def GetRollupId_def sample_etherman_def
      FinalProofRequest_def AggregatedProof_def BatchProof_def IsIdle_def Status_def prover_call_def WaitFinalProof_def)

lemma sample_wait [simp]:
  "i \<noteq> ''f'' \<Longrightarrow> WaitRecursiveProof n f [\<lparr>ctx_done_at = False, conn_at = sample_conn\<rparr>] i = Some (Ok (''proof'', 0))"
  by (simp add: WaitRecursiveProof_def prover_call_def GetStateRootFromProof_def)

definition sample_batches :: "u64 \<Rightarrow> batch_row option" where
  "sample_batches = batch_table (stocked [])"

lemma sample_batches:
  "sample_batches n = (if n \<in> {4, 5, 6, 7} then
     Some \<lparr>row_batch = l2_batch n, row_datastream = encode_to_string [1, 2],
           row_witness = Some (encode_to_string (if n \<in> {5, 6} then [1] else []))\<rparr> else None)"
  by (auto simp: sample_batches_def stocked_def AddBatch_def AddSequence_def needs_def bigint_def empty_tables_def
      l2_db_batch_def)

lemma stocked_empty: "stocked [] = \<lparr>batch_table = sample_batches, proof_table = [], sequence_table = [(5, 6)]\<rparr>"
  unfolding sample_batches_def
  by (simp add: stocked_def AddBatch_def AddSequence_def needs_def bigint_def empty_tables_def)

lemma exec_calls_append: "exec_calls (cs @ ds) t = exec_calls ds (exec_calls cs t)"
  by (induction cs arbitrary: t) simp_all

lemma stocked_one: "a \<in> {4, 5, 6, 7} \<Longrightarrow> bigint b \<Longrightarrow> stocked [sample_proof a b g] =
    \<lparr>batch_table = sample_batches, proof_table = [sample_proof a b g], sequence_table = [(5, 6)]\<rparr>"
  using stocked_empty
  by (auto simp: stocked_def exec_calls_append AddGeneratedProof_def needs_def bigint_def sample_proof_def sample_batches)

lemmas run_defs = tryBuildFinalProof_def canVerifyProof_def time_now_def latest_verified_def
  getAndLockProofReadyToVerify_def build_and_send_def buildFinalProof_def mock_sanity_check_def
  wait_final_def sbind_def attempt_def quiet_runs(1-3) [OF quiet_sample] quiet_write [OF quiet_sample]
  outcome_simps tick_def Let_def

definition served :: "state_proof list \<Rightarrow> aggregator" where
  "served ps = new_state (stocked ps) 0"

lemma served_simps [simp]: "agg_tables (served ps) = stocked ps" "agg_tick (served ps) = 0"
  "agg_verifyingProof (served ps) = False" "agg_timeSendFinalProof (served ps) = zero_time * 1000000"
  "agg_sent (served ps) = []" "agg_halted (served ps) = False"
  by (simp_all add: served_def new_state_def)

lemma mock_roots: "mockedStateRoot \<noteq> []"
  by (simp add: mockedStateRoot_def)

lemma sample_proof_simps [simp]: "ProofBatch (sample_proof a b g) = a" "ProofBatchFinal (sample_proof a b g) = b"
  "ProofID (sample_proof a b g) = Some ''id''" "GeneratingSince (sample_proof a b g) = g"
  "unlocked (sample_proof a b g) \<longleftrightarrow> g = None" "ProofText (sample_proof a b g) = ''p''"
  by (simp_all add: sample_proof_def unlocked_def)

lemmas sample_runs = run_defs stocked_one bigint_def GetProofReadyToVerify_def sequence_starts_def sequence_ends_def
  needs_def UpdateGeneratedProof_def text_bytes_def mock_roots zero_time_def

lemma stocked_two: "stocked [sample_proof 5 5 None, sample_proof 6 6 None] =
    \<lparr>batch_table = sample_batches, proof_table = [sample_proof 5 5 None, sample_proof 6 6 None], sequence_table = [(5, 6)]\<rparr>"
proof -
  have "stocked [sample_proof 5 5 None, sample_proof 6 6 None] =
      exec_calls [CallAddProof 0 (sample_proof 6 6 None)] (stocked [sample_proof 5 5 None])"
    by (simp add: stocked_def exec_calls_append)
  then show ?thesis
    by (simp add: stocked_one bigint_def AddGeneratedProof_def needs_def same_key_def sample_batches)
       (simp add: sample_proof_def)
qed

lemma aggregated_simps [simp]:
  "ProofBatch (aggregated_proof env pr p q i rp now) = ProofBatch p"
  "ProofBatchFinal (aggregated_proof env pr p q i rp now) = ProofBatchFinal q"
  "ProofID (aggregated_proof env pr p q i rp now) = Some i"
  by (simp_all add: aggregated_proof_def)


lemma decode_sample: "DecodeBatchV2 dec newTx sample_data = Ok \<lparr>Blocks =
    [\<lparr>BlockNumber = 0, block_header = \<lparr>DeltaTimestamp = 3, IndexL1InfoTree = 1\<rparr>, block_txs = []\<rparr>]\<rparr>"
proof -
  have b: "be_bytes 4 3 = [0, 0, 0, 3]" "be_bytes 4 1 = [0, 0, 0, 1]" by code_simp+
  have d: "sample_data = [11, 0, 0, 0, 3, 0, 0, 0, 1]"
    by (simp add: sample_data_def header_Encode_def encodeUint32_def changeL2Block_def sizeUInt32_def b [simplified])
  have s: "decode_batch_step dec newTx sample_data (0, [], None) = Ok (9, [],
      Some \<lparr>BlockNumber = 0, block_header = \<lparr>DeltaTimestamp = 3, IndexL1InfoTree = 1\<rparr>, block_txs = []\<rparr>)"
    by (simp add: d decode_batch_step_def changeL2Block_def decodeBlockHeader_def decodeUint32_def sizeUInt32_def
        go_index_def go_slice_def Let_def be_nat_def)
  have l: "length sample_data = 9" by (simp add: d)
  show ?thesis by (simp add: DecodeBatchV2_def decode_batch_loop.simps l s)
qed

lemma hash_const: "Hash (\<lambda>_. replicate 32 7) xs = sample_root"
  by (simp add: Hash_def sample_root_def copy32_def)

lemma climb_const: "ss \<noteq> [] \<Longrightarrow> climb (\<lambda>_. replicate 32 7) i c ss = sample_root"
proof (induction ss arbitrary: i c)
  case (Cons s ss)
  then show ?case by (cases "ss = []") (simp_all add: hash_const)
qed simp

lemma sample_proves: "NewL1InfoTree (\<lambda>_. replicate 32 7) 32 [] = Ok mt \<Longrightarrow> \<exists>sibs. ComputeMerkleProof (\<lambda>_. replicate 32 7) mt 1 [] = Ok (sibs, sample_root) \<and> length sibs = 32"
proof -
  assume mt: "NewL1InfoTree (\<lambda>_. replicate 32 7) 32 [] = Ok mt"
  have "unat (1 :: u32) < 2 ^ unat (32 :: 8 word)" by simp
  from compute_proof_climbs [OF mt _ _ _ this, of "[]"] obtain sibs root where
    c: "ComputeMerkleProof (\<lambda>_. replicate 32 7) mt 1 [] = Ok (sibs, root)" "length sibs = unat (32 :: 8 word)"
    "climb (\<lambda>_. replicate 32 7) (unat (1 :: u32)) (if unat (1 :: u32) < length ([] :: hash list) then [] ! unat (1 :: u32) else 0) sibs = root"
    by auto
  have l: "length sibs = 32" using c(2) by simp
  then have "sibs \<noteq> []" by (cases sibs) (simp_all del: replicate.simps)
  from climb_const [OF this] c(1,3) l show ?thesis by metis
qed

lemma sample_tree_empty: "\<exists>mt. NewL1InfoTree (\<lambda>_. replicate 32 7) 32 [] = Ok mt"
  using NewL1InfoTree_node [of "[]" 32 "\<lambda>_. replicate 32 7"]
  by (cases "NewL1InfoTree (\<lambda>_. replicate 32 7) 32 []") auto

end
