(* ===== verification/Agg_Properties.thy ===== *)
theory Agg_Properties
  imports Agg_Samples
begin

text \<open>
  What the handlers of the aggregator do to the database and to the messages, each with a run in
  the sample environment.
\<close>

section \<open>The final proof\<close>

text \<open>
  C3. What \<open>tryBuildFinalProof\<close> does when it looks for a proof itself. Undisturbed, it adds and removes
  no proof. It reports success exactly when it has sent one message; then the proof of the message
  starts right after the last verified batch and covers complete sequences, was unlocked before
  and is locked now, and every other lock is as it was. In every other case nothing is sent, and
  the locks are as they were, unless the context ended while the message waited.
\<close>

theorem final_proof_effect:
  assumes "quiet env" "tables_wf (agg_tables s)" "tryBuildFinalProof env pr None s = Some (Ok (po, r), s')"
  shows "proof_keys (agg_tables s') = proof_keys (agg_tables s) \<and>
    (if r = Ok True \<or> r = Err EContext then
       \<exists>p v. po = Some p \<and> latest_known env v \<and> eligible_at (agg_tables s) v (proof_key p) \<and>
         proof_key p \<notin> locks (agg_tables s) \<and>
         locks (agg_tables s') = insert (proof_key p) (locks (agg_tables s)) \<and>
         (if r = Ok True then \<exists>m. agg_sent s' = agg_sent s @ [m] \<and> msg_recursiveProof m = p
          else agg_sent s' = agg_sent s)
     else locks (agg_tables s') = locks (agg_tables s) \<and> agg_sent s' = agg_sent s)"
  using tripleD [OF at_tryBuildFinalProof_None [OF assms(1,2), of "agg_sent s" pr] _ assms(3)]
  by (auto simp: at_state_def final_effect_def split: if_splits)

lemma run_final:
  "\<exists>p s'. tryBuildFinalProof sample_env sample_prover None (served [sample_proof 5 6 None]) =
     Some (Ok (Some p, Ok True), s')"
  by (simp add: sample_runs)

theorem final_proof_effect_witness:
  "\<exists>p s' m. tryBuildFinalProof sample_env sample_prover None (served [sample_proof 5 6 None]) =
     Some (Ok (Some p, Ok True), s') \<and> agg_sent s' = [m] \<and> msg_recursiveProof m = p \<and>
     locks (agg_tables s') = insert (proof_key p) (locks (stocked [sample_proof 5 6 None]))"
proof -
  obtain p s' where "tryBuildFinalProof sample_env sample_prover None (served [sample_proof 5 6 None]) =
     Some (Ok (Some p, Ok True), s')"
    using run_final by blast
  from final_proof_effect [OF quiet_sample _ this] this show ?thesis
    by (auto simp: stocked_wf)
qed

section \<open>Joining proofs\<close>

text \<open>
  C1. What \<open>tryAggregateProofs\<close> does. Undisturbed, and unless it panics, it either succeeds or leaves the
  proofs, the locks and the messages as they were. If it succeeds there were two adjacent unlocked
  proofs that may be joined, the proofs within the joined range are gone, and the proof of that
  range is stored and locked when it has been sent, or stored unlocked, or dropped again because
  L1 has meanwhile verified all of its batches.
\<close>

theorem aggregation_all_or_nothing:
  assumes "quiet env" "tables_wf (agg_tables s)" "proofs_ok (agg_tables s)"
    "tryAggregateProofs env pr s = Some (r, s')" "r \<noteq> Panic"
  shows "if r = Ok True then
        \<exists>p1 p2. can_aggregate (agg_tables s) p1 p2 \<and>
          (let k = (ProofBatch p1, ProofBatchFinal p2);
               K = outside k (proof_keys (agg_tables s)); L = outside k (locks (agg_tables s));
               K' = proof_keys (agg_tables s'); L' = locks (agg_tables s') in
             K' = insert k K \<and> L' = insert k L \<and>
               (\<exists>m. agg_sent s' = agg_sent s @ [m] \<and> proof_key (msg_recursiveProof m) = k) \<or>
             K' = insert k K \<and> L' = L \<and> agg_sent s' = agg_sent s \<or>
             K' = K \<and> L' = L \<and> agg_sent s' = agg_sent s \<and> (\<exists>v. latest_known env v \<and> ProofBatchFinal p2 < v + 1))
      else agg_sent s' = agg_sent s \<and> proof_keys (agg_tables s') = proof_keys (agg_tables s) \<and>
        locks (agg_tables s') = locks (agg_tables s)"
proof -
  have "aggregation_effect env (agg_tables s) (agg_sent s) r s'"
    using tripleD [OF at_tryAggregateProofs [OF assms(1-3), of "agg_sent s" pr] _ assms(4)] assms(5)
    by (simp add: at_state_def)
  then show ?thesis
    unfolding aggregation_effect_def join_key_def Let_def fst_conv snd_conv .
qed

lemma run_aggregate:
  "\<exists>s'. tryAggregateProofs sample_env sample_prover (served [sample_proof 5 5 None, sample_proof 6 6 None]) = Some (Ok True, s')"
  by (simp add: sample_runs stocked_two tryAggregateProofs_def getAndLockProofsToAggregate_def GetProofsToAggregate_def
    aggregable_pairs_def aggregable_def sequence_holds_def transaction_def tx_body_def fail_def on_error_def join_proofs_def
    wait_recursive_def row_update_def same_key_def DeleteGeneratedProofs_def delete_proofs_def AddGeneratedProof_def
    sample_batches finish_proof_def validateEligibleFinalProof_def CheckProofContainsCompleteSequences_def)

theorem aggregation_all_or_nothing_witness:
  "\<exists>s' p1 p2. tryAggregateProofs sample_env sample_prover (served [sample_proof 5 5 None, sample_proof 6 6 None]) =
     Some (Ok True, s') \<and> can_aggregate (stocked [sample_proof 5 5 None, sample_proof 6 6 None]) p1 p2"
proof -
  obtain s' where run: "tryAggregateProofs sample_env sample_prover (served [sample_proof 5 5 None, sample_proof 6 6 None]) =
     Some (Ok True, s')"
    using run_aggregate by blast
  have "proofs_ok (agg_tables (served [sample_proof 5 5 None, sample_proof 6 6 None]))"
    by (simp, rule stocked_ok) simp
  from aggregation_all_or_nothing [OF quiet_sample _ this run] run show ?thesis
    by (auto simp: stocked_wf)
qed

section \<open>Generating a batch proof\<close>

text \<open>
  C2. What \<open>tryGenerateBatchProof\<close> does. Undisturbed, and unless it panics, it either succeeds or leaves
  the proofs, the locks and the messages as they were. If it succeeds, the batch is the first
  after the last verified one that no proof covers and has a witness, and its proof is stored and
  locked when it has been sent, or stored unlocked, or dropped again because L1 has meanwhile
  verified the batch.
\<close>

theorem generation_all_or_nothing:
  assumes "quiet env" "tables_wf (agg_tables s)" "proofs_ok (agg_tables s)"
    "tryGenerateBatchProof env pr s = Some (r, s')" "r \<noteq> Panic"
  shows "let K = proof_keys (agg_tables s); L = locks (agg_tables s);
      K' = proof_keys (agg_tables s'); L' = locks (agg_tables s') in
    if r = Ok True then
      \<exists>v n. latest_known env v \<and> first_uncovered (agg_tables s) v n \<and> has_witness (agg_tables s) n \<and>
        (K' = insert (n, n) K \<and> L' = insert (n, n) L \<and>
           (\<exists>m. agg_sent s' = agg_sent s @ [m] \<and> proof_key (msg_recursiveProof m) = (n, n)) \<or>
         K' = insert (n, n) K \<and> L' = L \<and> agg_sent s' = agg_sent s \<or>
         K' = K \<and> L' = L \<and> agg_sent s' = agg_sent s \<and> (\<exists>v'. latest_known env v' \<and> n < v' + 1))
    else K' = K \<and> L' = L \<and> agg_sent s' = agg_sent s"
proof -
  have "generation_effect env (agg_tables s) (agg_sent s) r s'"
    using tripleD [OF at_tryGenerateBatchProof [OF assms(1-3), of "agg_sent s" pr] _ assms(4)] assms(5)
    by (simp add: at_state_def)
  then show ?thesis
    unfolding generation_effect_def .
qed

lemma sample_input: "\<exists>inp. buildInputProver sample_env (l2_batch n) w s = Some (Ok inp, tick (tick (tick s)))"
  if "n \<noteq> 1" "\<exists>d. GetBatch (n - 1) (agg_tables s) = Ok d"
proof -
  obtain mt sibs where mt: "NewL1InfoTree (\<lambda>_. replicate 32 7) 32 [] = Ok mt"
    "ComputeMerkleProof (\<lambda>_. replicate 32 7) mt 1 [] = Ok (sibs, sample_root)"
    using sample_tree_empty sample_proves by blast
  have k: "lib_keccak sample_lib = (\<lambda>_. replicate 32 7)" by (simp add: sample_lib_def)
  from that mt k show ?thesis
    by (auto simp: buildInputProver_def decode_sample l1_part_def sample_runs)
qed

lemma sample_find:
  "agg_tables s = stocked [sample_proof 5 5 None] \<Longrightarrow> find_batch sample_env 4 s = Some (Ok 6, tick (tick s))"
  by (simp add: find_batch.simps [of sample_env 4] find_batch.simps [of sample_env 5] sample_runs CheckProofExistsForBatch_def)

lemma sample_GetBatch:
  "batch_table t = sample_batches \<Longrightarrow> n \<in> {4, 5, 6, 7} \<Longrightarrow>
    GetBatch n t = Ok (l2_db_batch n (if n \<in> {5, 6} then [1] else []))"
  by (auto simp: GetBatch_def needs_def bigint_def sample_batches l2_db_batch_def simp del: encode_to_string_simps)

lemma sample_checker: "profitabilityChecker sample_cfg = Some TxProfitabilityCheckerAcceptAll"
  by (simp add: profitabilityChecker_def sample_cfg_def ProfitabilityBase_def ProfitabilityAcceptAll_def
      NewTxProfitabilityCheckerAcceptAll_def)

lemma prove_sample:
  assumes "batch_table (agg_tables s) = sample_batches"
  shows "prove_batch sample_env (l2_batch 6) w p s =
    Some (Ok (p\<lparr>ProofID := Some ''b'', ProofText := ''proof''\<rparr>), s\<lparr>agg_tick := agg_tick s + 5\<rparr>)"
proof -
  obtain inp where "buildInputProver sample_env (l2_batch 6) w s = Some (Ok inp, tick (tick (tick s)))"
    using sample_input [of 6 s w] sample_GetBatch [OF assms, of 5] by auto
  then show ?thesis by (simp add: prove_batch_def wait_recursive_def sample_runs)
qed

lemma run_generate:
  "\<exists>s'. tryGenerateBatchProof sample_env sample_prover (served [sample_proof 5 5 None]) = Some (Ok True, s')"
  by (simp add: sample_GetBatch sample_runs tryGenerateBatchProof_def getAndLockBatchToProve_def sample_find
    sample_checker AddSequence_def sample_batches AddGeneratedProof_def same_key_def on_error_def prove_sample
    finish_proof_def validateEligibleFinalProof_def)

theorem generation_all_or_nothing_witness:
  "\<exists>s' v n. tryGenerateBatchProof sample_env sample_prover (served [sample_proof 5 5 None]) = Some (Ok True, s') \<and>
     first_uncovered (stocked [sample_proof 5 5 None]) v n \<and> has_witness (stocked [sample_proof 5 5 None]) n"
proof -
  obtain s' where run: "tryGenerateBatchProof sample_env sample_prover (served [sample_proof 5 5 None]) = Some (Ok True, s')"
    using run_generate by blast
  have "proofs_ok (agg_tables (served [sample_proof 5 5 None]))"
    by (simp, rule stocked_ok) simp
  from generation_all_or_nothing [OF quiet_sample _ this run] run show ?thesis
    by (auto simp: stocked_wf Let_def)
qed

text \<open>
  C10. The batch to prove is found in finitely many steps. Undisturbed, the search from the last
  verified batch \<open>v\<close> always returns; it asks the database once for every batch from \<open>v + 1\<close> on up to
  the result, all before the result are covered by a proof, the result is not, and an error means
  that the numbers that the database can hold have run out.
\<close>

lemma first_uncovered_step:
  "covered t (v + 1) \<Longrightarrow> first_uncovered t (v + 1) n \<Longrightarrow> first_uncovered t v n"
proof -
  assume c: "covered t (v + 1)" and "first_uncovered t (v + 1) n"
  then obtain k where k: "\<not> covered t n" "n = v + 1 + 1 + of_nat k" "\<forall>i < k. covered t (v + 1 + 1 + of_nat i)"
    by (auto simp: first_uncovered_def)
  have "covered t (v + 1 + of_nat i)" if "i < Suc k" for i
    using that c k(3) by (cases i) (auto simp: ac_simps)
  moreover have "n = v + 1 + of_nat (Suc k)" using k(2) by (simp add: ac_simps)
  ultimately show ?thesis using k(1) unfolding first_uncovered_def by blast
qed

lemma steps_left:
  fixes n v :: u64
  assumes "v + 1 + 1 \<le> n" "unat (v + 1) < 2 ^ 63" "unat n < 2 ^ 63"
  shows "v + 1 \<le> n" "unat (n - v) = Suc (unat (n - (v + 1)))"
proof -
  have "unat (v + 1 + 1) = unat (v + 1) + 1"
    using assms(2) unat_plus_cases [of "v + 1" 1] by auto
  then show le: "v + 1 \<le> n" using assms(1) by (simp add: word_le_nat_alt)
  have "n \<noteq> v"
    using le assms(3) unat_plus_cases [of v 1] by (auto simp: word_le_nat_alt)
  then have "n - v \<noteq> 0" "0 < unat (n - v)" by (simp_all add: unat_gt_0)
  then show "unat (n - v) = Suc (unat (n - (v + 1)))"
    using unat_minus_one [of "n - v"] by (simp add: diff_diff_add)
qed

lemma find_batch_returns:
  "quiet env \<Longrightarrow> case find_batch env v s of
      Some (Ok n, s') \<Rightarrow> v + 1 \<le> n \<and> unat n < 2 ^ 63 \<and> agg_tables s' = agg_tables s \<and>
        agg_tick s' = agg_tick s + unat (n - v) \<and> first_uncovered (agg_tables s) v n
    | Some (Err e, s') \<Rightarrow> e = EStorage ErrOutOfRange \<and> agg_tables s' = agg_tables s
    | _ \<Rightarrow> False"
proof (induction env v s rule: find_batch.induct)
  case (1 env v s)
  have run: "db_read env (CheckProofExistsForBatch (v + 1)) s =
      Some (if unat (v + 1) < 2 ^ 63 then Ok (covered (agg_tables s) (v + 1)) else Err (EStorage ErrOutOfRange), tick s)"
    by (simp add: quiet_runs(3) [OF 1(2)] CheckProofExistsForBatch_def needs_def bigint_def covered_def conj_commute)
  show ?case
  proof (cases "unat (v + 1) < 2 ^ 63 \<and> covered (agg_tables s) (v + 1)")
    case True
    then have r: "db_read env (CheckProofExistsForBatch (v + 1)) s = Some (Ok True, tick s)" using run by simp
    have tk: "agg_tick (tick s) = Suc (agg_tick s)" by (simp add: tick_def)
    from 1(1) [OF r refl refl _ 1(2), unfolded tick_simps tk] have IH: "case find_batch env (v + 1) (tick s) of
      Some (Ok n, s') \<Rightarrow> v + 1 + 1 \<le> n \<and> unat n < 2 ^ 63 \<and> agg_tables s' = agg_tables s \<and>
        agg_tick s' = Suc (agg_tick s) + unat (n - (v + 1)) \<and> first_uncovered (agg_tables s) (v + 1) n
    | Some (Err e, s') \<Rightarrow> e = EStorage ErrOutOfRange \<and> agg_tables s' = agg_tables s
    | _ \<Rightarrow> False"
      by simp
    have "find_batch env v s = find_batch env (v + 1) (tick s)"
      by (simp add: find_batch.simps [of env v] r)
    with IH True show ?thesis
      using steps_left [of v] first_uncovered_step
      by (auto split: option.splits prod.splits outcome.splits)
  next
    case False
    then show ?thesis
      using run unat_plus_cases [of v 1]
      by (auto simp: find_batch.simps [of env v] first_uncovered_def tick_def intro: exI [of _ "0 :: nat"])
  qed
qed

theorem find_batch_bounded:
  assumes "quiet env"
  shows "case find_batch env v s of
      Some (Ok n, s') \<Rightarrow> v + 1 \<le> n \<and> unat n < 2 ^ 63 \<and> agg_tables s' = agg_tables s \<and>
        agg_tick s' = agg_tick s + unat (n - v) \<and> first_uncovered (agg_tables s) v n
    | Some (Err e, s') \<Rightarrow> e = EStorage ErrOutOfRange \<and> agg_tables s' = agg_tables s
    | _ \<Rightarrow> False"
  using assms by (rule find_batch_returns)

theorem find_batch_bounded_witness:
  "\<exists>s'. find_batch sample_env 4 (served [sample_proof 5 5 None]) = Some (Ok 6, s') \<and> agg_tick s' = 2"
  using find_batch_bounded [OF quiet_sample, of 4 "served [sample_proof 5 5 None]"]
    sample_find [of "served [sample_proof 5 5 None]"] by simp

section \<open>Runs for the theorems on single handlers\<close>

theorem input_l1_data_verifies_witness:
  "\<exists>inp s'. buildInputProver sample_env (l2_batch 6) [1] (served []) = Some (Ok inp, s') \<and>
     pi_L1InfoRoot inp = hash_bytes sample_root \<and> fst ` set (pi_L1InfoTreeData inp) = {1}"
proof -
  have "GetBatch (6 - 1) (agg_tables (served [])) = Ok (l2_db_batch 5 [1])"
    using sample_GetBatch [of "stocked []" 5] by (simp add: stocked_empty)
  then obtain inp s' where run: "buildInputProver sample_env (l2_batch 6) [1] (served []) = Some (Ok inp, s')"
    using sample_input [of 6 "served []" "[1]"] by auto
  have fit: "leaves_fit sample_env" by (simp add: leaves_fit_def)
  have d: "lib_rlp sample_lib = rlp_dec" "lib_newTx sample_lib = new_tx_ref" by (simp_all add: sample_lib_def)
  from input_l1_data_verifies [OF run _ _ fit] run show ?thesis
    by (auto simp: decode_sample)
qed

lemma run_start: "\<exists>s. Start sample_env (new_state (stocked ps) n) = Some (Ok (Some 5), s)"
  by (simp add: Start_def or_fatal_def prepare_storage_def getVerifiedBatchAccInputHash_def resetVerifyProofTime_def
    sample_runs quiet_write [OF quiet_sample] DeleteBatchesOlderThanBatchNumber_def DeleteUngeneratedProofs_def
    AddBatch_def zero_batch_def sample_cfg_def)

lemma sample_orderly: "orderly sample_env"
  by (simp add: orderly_def sample_cfg_def)

theorem reachable_states_well_formed_witness:
  "\<exists>s. reachable sample_env (stocked [sample_proof 5 6 None]) s \<and> tables_wf (agg_tables s) \<and> proofs_ok (agg_tables s)"
proof -
  obtain s where "Start sample_env (new_state (stocked [sample_proof 5 6 None]) 0) = Some (Ok (Some 5), s)"
    using run_start by blast
  then have r: "reachable sample_env (stocked [sample_proof 5 6 None]) s" by (rule reach_start)
  have "proofs_ok (stocked [sample_proof 5 6 None])" by (rule stocked_ok) simp
  from reachable_states_well_formed [OF r sample_orderly stocked_wf this] r show ?thesis by blast
qed

lemma sample_ids:
  "final_id sample_env i \<longleftrightarrow> i = ''f''" "recursive_id sample_env i \<longleftrightarrow> i = ''a''"
  by (auto simp: final_id_def recursive_id_def)

lemma convert_chunks_returns: "(i + k) * 64 \<le> length p \<Longrightarrow> i + k \<le> 24 \<Longrightarrow> convert_chunks p i k \<noteq> Panic"
proof (induction p i k rule: convert_chunks.induct)
  case (2 p i k)
  then obtain d where d: "go_slice p (i * 64) ((i + 1) * 64) = Some d"
    by (auto simp: go_slice_def)
  obtain bs e where b: "decode_bytes (Some d) = (bs, e)" by fastforce
  have "convert_chunks p (i + 1) k \<noteq> Panic" if "e = None"
    using 2(1) [OF b [symmetric] that] 2(2,3) by simp
  with d b show ?case by (cases e) (auto simp: outcome_simps)
qed simp

lemma convertProof_returns: "convertProof p \<noteq> Panic"
  using convert_chunks_returns [of 0 24 "trim_prefix_0x p"]
  by (auto simp: convertProof_def trim_prefix_0x_def)

lemma sample_sane: "sane_prover sample_env" "sane_l1 sample_env"
  by (simp add: sane_prover_def sample_ids)
     (auto simp: sane_l1_def BuildTrustedVerifyBatchesTxData_def convertProof_returns sample_env_def sample_etherman_def
       outcome_simps)

theorem reachable_handlers_return_witness:
  "\<exists>s. reachable sample_env (stocked [sample_proof 5 6 None]) s \<and>
     \<not> (\<exists>s'. tryBuildFinalProof sample_env sample_prover None s = Some (Panic, s'))"
proof -
  obtain s where "Start sample_env (new_state (stocked [sample_proof 5 6 None]) 0) = Some (Ok (Some 5), s)"
    using run_start by blast
  then have r: "reachable sample_env (stocked [sample_proof 5 6 None]) s" by (rule reach_start)
  have "proofs_ok (stocked [sample_proof 5 6 None])" by (rule stocked_ok) simp
  from reachable_handlers_return [OF r sample_orderly stocked_wf this sample_sane] r show ?thesis by blast
qed

theorem start_cleans_up_witness:
  "\<exists>s'. Start sample_env (new_state (stocked [sample_proof 5 6 None]) 0) = Some (Ok (Some 5), s') \<and>
     proof_table (agg_tables s') = [sample_proof 5 6 None] \<and> sequence_table (agg_tables s') = [(5, 6)] \<and>
     batch_table (agg_tables s') 6 = sample_batches 6"
proof -
  obtain s' where "Start sample_env (new_state (stocked [sample_proof 5 6 None]) 0) = Some (Ok (Some 5), s')"
    using run_start by blast
  from start_cleans_up [OF quiet_sample this] this show ?thesis
    by (auto simp: latest_known_def new_state_def stocked_one bigint_def)
qed

lemma sample_settlement: "SettlementBackend sample_cfg = AggLayer" "lib_agglayer sample_lib = sample_agglayer_lib"
  by (simp_all add: sample_cfg_def sample_lib_def)

lemma lower_done: "to_lower ''done'' = ''done''"
  by code_simp

theorem send_final_proof_effect_witness:
  "\<exists>s'. sendFinalProof sample_env \<lparr>msg_proverName = ''p'', msg_proverID = ''id'',
     msg_recursiveProof = sample_proof 5 6 (Some 1),
     msg_finalProof = \<lparr>fp_Proof = ''0x'', fp_Public = \<lparr>NewStateRoot = [], NewLocalExitRoot = []\<rparr>\<rparr>\<rparr>
     (served [sample_proof 5 6 (Some 1)]) = Some (Ok (), s') \<and> \<not> agg_verifyingProof s' \<and> agg_sent s' = []"
  (is "\<exists>s'. ?run s' \<and> _")
proof -
  have "\<exists>s'. ?run s'"
    by (simp add: sendFinalProof_def sample_runs startProofVerification_def endProofVerification_def
      sample_GetBatch settleWithAggLayer_def agglayer_calls_def resetVerifyProofTime_def sample_settlement
      tx_Sign_def SendTx_def lower_done)
  then obtain s' where "?run s'" ..
  from send_final_proof_effect [OF quiet_sample this] this show ?thesis by auto
qed


definition entry :: "entry_type \<Rightarrow> byte list \<Rightarrow> file_entry" where
  "entry ty d = \<lparr>entry_Type = ty, entry_Data = d\<rparr>"

lemma entry_simps [simp]: "entry_Type (entry ty d) = ty" "entry_Data (entry ty d) = d"
  by (simp_all add: entry_def)

definition sample_block :: ds_l2_block where
  "sample_block = \<lparr>blk_Number = 9, blk_DeltaTimestamp = 3, blk_L1InfotreeIndex = 1, blk_GlobalExitRoot = [], blk_Coinbase = []\<rparr>"

lemma sample_items: "items_of sample_lib [entry ENTRY_TYPE_L2_BLOCK [9], entry ENTRY_TYPE_TRANSACTION [1]] =
    Some [ItemBlock sample_block, ItemTx 255 sample_tx]"
  by (simp add: sample_lib_def sample_block_def)

definition streamed_data :: "byte list" where
  "streamed_data = header_Encode \<lparr>DeltaTimestamp = 3, IndexL1InfoTree = 1\<rparr> [] @ sample_bytes @ [255]"

lemma sample_stream_encoded:
  "EncodeBatchV2 (lib_rlp_enc sample_lib) (Some \<lparr>Blocks = blocks_of [ItemBlock sample_block, ItemTx 255 sample_tx]\<rparr>) =
     Ok streamed_data"
  using sample_prepared
  by (simp add: sample_lib_def EncodeBatchV2_def NewBatchV2Encoder_def AddBlockHeader_def open_block_def
      AddTransaction_def tx_Encode_def GetResult_def streamed_data_def sample_block_def)

theorem streamed_batch_stored_witness:
  "\<exists>s' d. handle_entries sample_env [entry ENTRY_TYPE_BATCH_START [7], entry ENTRY_TYPE_L2_BLOCK [9],
      entry ENTRY_TYPE_TRANSACTION [1], entry ENTRY_TYPE_BATCH_END [3]] (served []) = Some (Ok (), s') \<and>
     GetBatch 7 (agg_tables s') = Ok d \<and> BatchL2Data (Batch d) = streamed_data \<and> agg_witnessRetrieval s' = [d]"
proof -
  let ?vb = "\<lparr>vb_BatchL2Data = [11], vb_BlockNumber = 100\<rparr>"
  let ?sq = "\<lparr>seq_From = 7, seq_To = 7, seq_L1InfoRoot = 12, seq_Timestamp = 1700000000\<rparr> :: l1_sequence"
  let ?b0 = "\<lparr>bs_Number = 7, bs_Type = BATCH_TYPE_REGULAR, bs_ForkId = 9, bs_ChainId = 1101\<rparr> :: ds_batch_start"
  have fresh: "fresh_stream (served [])"
    by (simp add: fresh_stream_def served_def new_state_def)
  have db: "GetBatch 7 (stocked []) = Ok (l2_db_batch 7 [])" "GetBatch 6 (stocked []) = Ok (l2_db_batch 6 [1])"
    using sample_GetBatch [of "stocked []" 6] sample_GetBatch [of "stocked []" 7] by (simp_all add: stocked_empty)
  have ans: "answered sample_env 7 ?vb ?sq 13" by (simp add: answered_def)
  have lib: "lib_BatchStart sample_lib [7] = Some ?b0"
    "lib_BatchEnd sample_lib [3] = Some \<lparr>be_LocalExitRoot = [3], be_StateRoot = [3]\<rparr>"
    "\<not> UseL1BatchData sample_cfg" "0 < MaxWitnessRetrievalWorkers sample_cfg"
    by (simp_all add: sample_lib_def sample_cfg_def)
  have w: "agg_witnessRetrieval (served []) = []" "Witness (l2_db_batch 7 []) = []"
    by (simp_all add: served_def new_state_def)
  have "numbered i" if "i \<in> set [ItemBlock sample_block, ItemTx 255 sample_tx]" for i
    using that by (auto simp: numbered_def sample_block_def)
  with streamed_batch_stored [OF quiet_sample fresh, of "entry ENTRY_TYPE_BATCH_START [7]" ?b0
      "[entry ENTRY_TYPE_L2_BLOCK [9], entry ENTRY_TYPE_TRANSACTION [1]]" "[ItemBlock sample_block, ItemTx 255 sample_tx]"
      "entry ENTRY_TYPE_BATCH_END [3]" "\<lparr>be_LocalExitRoot = [3], be_StateRoot = [3]\<rparr>" 7 ?vb ?sq 13
      "l2_db_batch 6 [1]" streamed_data]
  show ?thesis
    using ans db lib sample_items sample_stream_encoded
    by (auto simp: bigint_def w simp del: items_of.simps blocks_of.simps handle_entries.simps)
qed

text \<open>An end of batch whose predecessor is not stored is refused.\<close>

definition in_block :: aggregator where
  "in_block = (served [])\<lparr>agg_currentStreamBatch := (zero_batch)\<lparr>BatchNumber := 3\<rparr>,
     agg_currentStreamL2Block := open_block sample_block\<rparr>"

lemma run_refused:
  "\<exists>s'. handleReceivedDataStream sample_env (entry ENTRY_TYPE_BATCH_END [3]) in_block = Some (Err (EStorage ErrNotFound), s')"
proof -
  have e: "\<exists>d. EncodeBatchV2 (lib_rlp_enc sample_lib) (Some \<lparr>Blocks = [open_block sample_block]\<rparr>) = Ok d"
    by (simp add: EncodeBatchV2_def NewBatchV2Encoder_def AddBlockHeader_def open_block_def GetResult_def)
  have q: "poll_until sample_env (virtual_answer sample_env 3) s = Some (Ok \<lparr>vb_BatchL2Data = [11], vb_BlockNumber = 100\<rparr>, tick s)"
    "poll_until sample_env (sequence_answer sample_env 3) s = Some (Ok \<lparr>seq_From = 3, seq_To = 3, seq_L1InfoRoot = 12,
       seq_Timestamp = 1700000000\<rparr>, tick s)" for s
    by (rule quiet_runs(5) [OF quiet_sample], simp add: virtual_answer_def sequence_answer_def)+
  have g: "GetBatch 2 (stocked []) = Err ErrNotFound"
    by (simp add: GetBatch_def needs_def bigint_def stocked_empty sample_batches)
  have l: "lib_BatchEnd sample_lib d = Some \<lparr>be_LocalExitRoot = d, be_StateRoot = d\<rparr>" for d
    by (simp add: sample_lib_def)
  have c: "\<not> UseL1BatchData sample_cfg" by (simp add: sample_cfg_def)
  show ?thesis
    using e q [unfolded tick_def] g
    by (auto simp: l c handleReceivedDataStream_def on_batch_end_def in_block_def push_block_def complete_batch_def
        sample_runs set_batch_def run_simps from_L1_def zero_batch_def open_block_def sample_block_def
        served_def new_state_def)
qed

theorem refused_batch_end_doubles_block_witness:
  "\<exists>s'. handleReceivedDataStream sample_env (entry ENTRY_TYPE_BATCH_END [3]) in_block = Some (Err (EStorage ErrNotFound), s') \<and>
     blocks_so_far s' = blocks_so_far in_block @ [open_block sample_block]"
proof -
  obtain s' where run: "handleReceivedDataStream sample_env (entry ENTRY_TYPE_BATCH_END [3]) in_block =
      Some (Err (EStorage ErrNotFound), s')"
    using run_refused by blast
  have "lib_BatchEnd (env_lib sample_env) (entry_Data (entry ENTRY_TYPE_BATCH_END [3])) \<noteq> None"
    "BlockNumber (agg_currentStreamL2Block in_block) \<noteq> 0"
    by (simp_all add: sample_lib_def in_block_def open_block_def sample_block_def)
  from refused_batch_end_doubles_block [OF run _ this] run show ?thesis by (auto simp: in_block_def)
qed

theorem reorg_undone_by_worker_witness:
  "\<exists>s1 s2. handleReorg sample_env (served []) = Some (Ok (), s1) \<and> GetBatch 7 (agg_tables s1) = Err ErrNotFound \<and>
     retrieveWitness sample_env (l2_db_batch 7 []) s1 = Some (Ok (), s2) \<and>
     GetBatch 7 (agg_tables s2) = Ok ((l2_db_batch 7 [])\<lparr>Witness := witness_bytes ''0x0102''\<rparr>)"
  using reorg_undone_by_worker [OF quiet_sample, of 7 "l2_db_batch 7 []" 6 "''0x0102''" "served []"]
  by (auto simp: bigint_def)

section \<open>A batch that does not pay\<close>

lemma first_uncovered_next:
  "first_uncovered t v n \<Longrightarrow> n \<noteq> v + 1 \<Longrightarrow> covered t (v + 1) \<and> first_uncovered t (v + 1) n"
proof -
  assume "first_uncovered t v n" and n: "n \<noteq> v + 1"
  then obtain k where k: "\<not> covered t n" "n = v + 1 + of_nat k" "\<forall>i < k. covered t (v + 1 + of_nat i)"
    by (auto simp: first_uncovered_def)
  with n obtain j where j: "k = Suc j" by (cases k) auto
  have "covered t (v + 1)" using k(3) [rule_format, of 0] j by simp
  moreover have "covered t (v + 1 + 1 + of_nat i)" if "i < j" for i
    using k(3) [rule_format, of "Suc i"] that j by (simp add: ac_simps)
  moreover have "n = v + 1 + 1 + of_nat j" using k(2) j by (simp add: ac_simps)
  ultimately show ?thesis using k(1) unfolding first_uncovered_def by blast
qed

lemma find_batch_finds:
  "quiet env \<Longrightarrow> first_uncovered (agg_tables s) v n \<Longrightarrow> v < n \<Longrightarrow> unat n < 2 ^ 63 \<Longrightarrow>
   \<exists>s'. find_batch env v s = Some (Ok n, s') \<and> agg_tables s' = agg_tables s"
proof (induction env v s rule: find_batch.induct)
  case (1 env v s)
  have v1: "unat (v + 1) = unat v + 1"
    using 1(4,5) unat_plus_cases [of v 1] by (auto simp: word_less_nat_alt)
  have run: "db_read env (CheckProofExistsForBatch (v + 1)) s = Some (Ok (covered (agg_tables s) (v + 1)), tick s)"
    using 1(4,5) v1
    by (simp add: quiet_runs(3) [OF 1(2)] CheckProofExistsForBatch_def needs_def bigint_def covered_def conj_commute
        word_less_nat_alt)
  show ?case
  proof (cases "n = v + 1")
    case True
    with 1(3) have "\<not> covered (agg_tables s) (v + 1)" by (simp add: first_uncovered_def)
    with run True show ?thesis by (simp add: find_batch.simps [of env v])
  next
    case False
    from first_uncovered_next [OF 1(3) this] have c: "covered (agg_tables s) (v + 1)" "first_uncovered (agg_tables s) (v + 1) n"
      by simp_all
    have r: "db_read env (CheckProofExistsForBatch (v + 1)) s = Some (Ok True, tick s)" using run c by simp
    have "v + 1 < n" using 1(4) False v1 by (simp add: word_less_nat_alt word_unat_eq_iff)
    from 1(1) [OF r refl refl _ 1(2) _ this 1(5)] c(2) show ?thesis
      by (simp add: find_batch.simps [of env v] r)
  qed
qed

text \<open>
  C12. A batch that does not pay crashes the aggregator. With the \<open>base\<close> checker and a minimal reward above
  zero, or with a checker type that is not known, as soon as a prover finds a batch ready to be
  proved (the first uncovered one, sequenced and stored with its witness) \<open>tryGenerateBatchProof\<close>
  panics, having stored the sequence: the checker is \<open>nil\<close>, or the batch that
  \<open>getAndLockBatchToProve\<close> returns without an error is, and it is dereferenced.
\<close>

theorem unprofitable_batch_panics:
  assumes "quiet env" "\<forall>m. GetLatestVerifiedBatchNum (env_etherman env m) = Ok v"
    "first_uncovered (agg_tables s) v n" "v < n" "unat n < 2 ^ 63"
    "\<forall>m. env_sequence env m n = Inr (Some sq)"
    "GetBatch n (agg_tables s) = Ok d" "Witness d \<noteq> []"
    "AddSequence \<lparr>FromBatchNumber = seq_From sq, ToBatchNumber = seq_To sq\<rparr> (agg_tables s) = Ok t"
    "TxProfitabilityCheckerType (env_cfg env) = ProfitabilityBase \<and> 0 < TxProfitabilityMinReward (env_cfg env) \<or>
     TxProfitabilityCheckerType (env_cfg env) \<notin> {ProfitabilityBase, ProfitabilityAcceptAll}"
  shows "\<exists>s'. tryGenerateBatchProof env pr s = Some (Panic, s') \<and> agg_tables s' = t"
proof -
  obtain s1 where f: "find_batch env v (tick s) = Some (Ok n, s1)" "agg_tables s1 = agg_tables s"
    using find_batch_finds [OF assms(1), of "tick s" v n] assms(3-5) by auto
  let ?s3 = "(tick (tick (tick s1)))\<lparr>agg_tables := t\<rparr>"
  have w: "db_write env (\<lambda>_. CallAddSequence \<lparr>FromBatchNumber = seq_From sq, ToBatchNumber = seq_To sq\<rparr>) (tick (tick s1)) =
      Some (Ok (), ?s3)"
    using assms(9) f(2) by (intro quiet_runs(4) [OF assms(1)]) simp
  have pc: "profitabilityChecker (env_cfg env) = None \<or>
      (\<exists>pc. profitabilityChecker (env_cfg env) = Some pc \<and> \<not> IsProfitable pc 0)"
    using assms(10) by (auto simp: profitabilityChecker_def NewTxProfitabilityCheckerBase_def ProfitabilityBase_def ProfitabilityAcceptAll_def)
  have "getAndLockBatchToProve env pr s \<in> {Some (Panic, ?s3), Some (Ok None, ?s3)}"
    using pc assms(2,6,7,8) f w [unfolded tick_def]
    by (auto simp: getAndLockBatchToProve_def latest_verified_def sbind_def attempt_def quiet_runs(1-3) [OF assms(1)]
        tick_def crash_def f(1) [unfolded tick_def])
  then show ?thesis
    by (auto simp: tryGenerateBatchProof_def sbind_def attempt_def crash_def)
qed

definition greedy_env :: agg_env where
  "greedy_env = sample_env\<lparr>env_cfg := sample_cfg\<lparr>TxProfitabilityCheckerType := ''base'', TxProfitabilityMinReward := 1\<rparr>\<rparr>"

theorem unprofitable_batch_panics_witness:
  "\<exists>s'. tryGenerateBatchProof greedy_env sample_prover (served [sample_proof 5 5 None]) = Some (Panic, s')"
proof -
  have q: "quiet greedy_env" using quiet_sample by (simp add: quiet_def greedy_env_def)
  have f: "first_uncovered (agg_tables (served [sample_proof 5 5 None])) 4 6"
    by (auto simp: first_uncovered_def covered_def stocked_one bigint_def intro!: exI [of _ "1 :: nat"])
  have g: "GetBatch 6 (agg_tables (served [sample_proof 5 5 None])) = Ok (l2_db_batch 6 [1])"
    by (simp add: sample_GetBatch stocked_one bigint_def)
  have a: "AddSequence \<lparr>FromBatchNumber = 6, ToBatchNumber = 6\<rparr> (agg_tables (served [sample_proof 5 5 None])) =
      Ok ((stocked [sample_proof 5 5 None])\<lparr>sequence_table := [(5, 6), (6, 6)]\<rparr>)"
    by (simp add: AddSequence_def stocked_one bigint_def needs_def sample_batches)
  from unprofitable_batch_panics [OF q, of 4 "served [sample_proof 5 5 None]" 6
      "\<lparr>seq_From = 6, seq_To = 6, seq_L1InfoRoot = 12, seq_Timestamp = 1700000000\<rparr>" "l2_db_batch 6 [1]"
      "(stocked [sample_proof 5 5 None])\<lparr>sequence_table := [(5, 6), (6, 6)]\<rparr>" sample_prover] f g a
  show ?thesis by (auto simp: greedy_env_def ProfitabilityBase_def)
qed

text \<open>
  C11. Waiting for L1 ends exactly when L1 answers. The loops that wait for the virtual batch and for the
  sequence of a batch return exactly when some interaction from then on has an answer, with the
  first answer and right after it; the completion of a batch that L1 never has does not return.
\<close>

theorem waiting_ends_with_the_answer:
  "(poll_until env f s \<noteq> None \<longleftrightarrow> (\<exists>n \<ge> agg_tick s. f n \<noteq> None)) \<and>
   (\<forall>n r. agg_tick s \<le> n \<and> f n = Some r \<and> (\<forall>m. agg_tick s \<le> m \<and> m < n \<longrightarrow> f m = None) \<longrightarrow>
     (\<exists>s'. poll_until env f s = Some (r, s') \<and> agg_tick s' = n + 1)) \<and>
   ((\<forall>n. env_virtual env n (BatchNumber (agg_currentStreamBatch s)) = Inl L1NotFound) \<longrightarrow> complete_batch env s = None)"
proof (intro conjI allI impI)
  show "poll_until env f s \<noteq> None \<longleftrightarrow> (\<exists>n \<ge> agg_tick s. f n \<noteq> None)" by (rule poll_returns_iff)
  show "\<exists>s'. poll_until env f s = Some (r, s') \<and> agg_tick s' = n + 1"
    if "agg_tick s \<le> n \<and> f n = Some r \<and> (\<forall>m. agg_tick s \<le> m \<and> m < n \<longrightarrow> f m = None)" for n r
    using that
  proof (induction "n - agg_tick s" arbitrary: s)
    case 0
    then show ?case by (subst poll_until.simps) (simp add: after_interact_def)
  next
    case (Suc k)
    then have none: "f (agg_tick s) = None" by auto
    have "\<exists>s'. poll_until env f (after_interact env s) = Some (r, s') \<and> agg_tick s' = n + 1"
      by (rule Suc.hyps(1)) (use Suc none in \<open>auto simp: after_interact_def\<close>)
    with none show ?case by (subst poll_until.simps) simp
  qed
  assume "\<forall>n. env_virtual env n (BatchNumber (agg_currentStreamBatch s)) = Inl L1NotFound"
  then have "poll_until env (virtual_answer env (BatchNumber (agg_currentStreamBatch s))) s = None"
    using poll_returns_iff [of env "virtual_answer env (BatchNumber (agg_currentStreamBatch s))" s]
    by (cases "poll_until env (virtual_answer env (BatchNumber (agg_currentStreamBatch s))) s") (auto simp: virtual_answer_def)
  then show "complete_batch env s = None" by (simp add: complete_batch_def sbind_def)
qed

theorem waiting_ends_with_the_answer_witness:
  "\<exists>s'. poll_until sample_env (\<lambda>n. if n = 3 then Some (Ok (7 :: nat)) else None) (served []) = Some (Ok 7, s') \<and> agg_tick s' = 4"
  using waiting_ends_with_the_answer [of sample_env "\<lambda>n. if n = 3 then Some (Ok (7 :: nat)) else None" "served []",
    THEN conjunct2, THEN conjunct1, rule_format, of 3 "Ok 7"]
  by simp

end
