(* ===== verification/Merkletree.thy ===== *)
theory Merkletree
  imports Prover
begin

unbundle bit_operations_syntax

text \<open>
  The package \<open>merkletree\<close>: numbers as limbs of field elements (\<open>split.go\<close>), the keys of the leaves of the
  state tree and the hash of contract code (\<open>key.go\<close>, \<open>leaf.go\<close>). Poseidon is a parameter: from eight
  elements and four elements of capacity it gives four elements or an error.
\<close>

section \<open>\<open>split.go\<close>\<close>

type_synonym poseidon = "u64 list \<Rightarrow> u64 list \<Rightarrow> (unit, u64 list) outcome"

definition maxBigIntLen :: nat where "maxBigIntLen = 32"
definition wordLength :: nat where "wordLength = 64"

text \<open>\<open>And\<close> and \<open>Rsh\<close> of \<open>big.Int\<close> work on the infinite two's complement, as they do on \<open>int\<close>.\<close>

definition scalar2fea :: "int \<Rightarrow> u64 list" where
  "scalar2fea value =
     map (\<lambda>i. word_of_int (drop_bit (32 * i) value AND 0xFFFFFFFF)) [0, 1, 2, 3, 4, 5, 6, 7]"

fun h4ToScalar :: "u64 list \<Rightarrow> (unit, int) outcome" where
  "h4ToScalar [] = Ok 0"
| "h4ToScalar (a # b # c # d # _) =
     Ok (uint a + push_bit (wordLength * 1) (uint b) + push_bit (wordLength * 2) (uint c) +
         push_bit (wordLength * 3) (uint d))"
| "h4ToScalar _ = Panic"

text \<open>\<open>Bytes\<close> and \<open>FillBytes\<close> are of the absolute value; \<open>FillBytes\<close> panics when it does not fit.\<close>

definition ScalarToFilledByteSlice :: "int \<Rightarrow> (unit, byte list) outcome" where
  "ScalarToFilledByteSlice s =
     (if nat \<bar>s\<bar> < 256 ^ maxBigIntLen then Ok (be_bytes maxBigIntLen (nat \<bar>s\<bar>)) else Panic)"

definition H4ToString :: "u64 list \<Rightarrow> (unit, string) outcome" where
  "H4ToString h4 = obind (h4ToScalar h4) (\<lambda>sc. Ok (''0x'' @ pad_left 64 (encode_to_string (be_min (nat \<bar>sc\<bar>)))))"

definition scalarToh4 :: "int \<Rightarrow> (unit, u64 list) outcome" where
  "scalarToh4 s =
     obind (ScalarToFilledByteSlice s) (\<lambda>b.
     let fbe = word_of_nat (be_nat (replicate 8 255)) :: u64;
         limb = (\<lambda>i. word_of_nat (be_nat (take 8 (drop i b))) AND fbe) in
     Ok [limb 24, limb 16, limb 8, limb 0])"

definition StringToh4 :: "string \<Rightarrow> (unit, u64 list) outcome" where
  "StringToh4 str =
     (let str = trim_prefix_0x str in
      case set_string 16 str of None \<Rightarrow> Err () | Some bi \<Rightarrow> scalarToh4 bi)"

definition h4ToFilledByteSlice :: "u64 list \<Rightarrow> (unit, byte list) outcome" where
  "h4ToFilledByteSlice h4 = obind (h4ToScalar h4) ScalarToFilledByteSlice"

section \<open>\<open>leaf.go\<close> and the keys of \<open>key.go\<close>\<close>

datatype leafType = LeafTypeBalance | LeafTypeNonce | LeafTypeCode | LeafTypeStorage | LeafTypeSCLength

fun leaf_number :: "leafType \<Rightarrow> u64" where
  "leaf_number LeafTypeBalance = 0"
| "leaf_number LeafTypeNonce = 1"
| "leaf_number LeafTypeCode = 2"
| "leaf_number LeafTypeStorage = 3"
| "leaf_number LeafTypeSCLength = 4"

definition HashPoseidonAllZeroes :: string where
  "HashPoseidonAllZeroes = ''0xc71603f33a1144ca7953db0ab48808f4c4055e3364a246c33c18a9786cb0b359''"

definition keyEthAddr :: "poseidon \<Rightarrow> address \<Rightarrow> leafType \<Rightarrow> u64 list \<Rightarrow> (unit, byte list) outcome" where
  "keyEthAddr poseidon ethAddr lt key1Capacity =
     (let ethAddrArr = scalar2fea (uint ethAddr);
          key1 = [ethAddrArr ! 0, ethAddrArr ! 1, ethAddrArr ! 2, ethAddrArr ! 3, ethAddrArr ! 4, 0, leaf_number lt, 0]
      in obind (poseidon key1 key1Capacity) h4ToFilledByteSlice)"

definition defaultCapIn :: "(unit, u64 list) outcome" where
  "defaultCapIn = StringToh4 HashPoseidonAllZeroes"

definition KeyEthAddrBalance :: "poseidon \<Rightarrow> address \<Rightarrow> (unit, byte list) outcome" where
  "KeyEthAddrBalance poseidon ethAddr = obind defaultCapIn (keyEthAddr poseidon ethAddr LeafTypeBalance)"

definition KeyEthAddrNonce :: "poseidon \<Rightarrow> address \<Rightarrow> (unit, byte list) outcome" where
  "KeyEthAddrNonce poseidon ethAddr = obind defaultCapIn (keyEthAddr poseidon ethAddr LeafTypeNonce)"

definition KeyContractCode :: "poseidon \<Rightarrow> address \<Rightarrow> (unit, byte list) outcome" where
  "KeyContractCode poseidon ethAddr = obind defaultCapIn (keyEthAddr poseidon ethAddr LeafTypeCode)"

definition KeyContractStorage :: "poseidon \<Rightarrow> address \<Rightarrow> byte list \<Rightarrow> (unit, byte list) outcome" where
  "KeyContractStorage poseidon ethAddr storagePos =
     obind (poseidon (scalar2fea (int (be_nat storagePos))) [0, 0, 0, 0]) (keyEthAddr poseidon ethAddr LeafTypeStorage)"

definition KeyCodeLength :: "poseidon \<Rightarrow> address \<Rightarrow> (unit, byte list) outcome" where
  "KeyCodeLength poseidon ethAddr = obind defaultCapIn (keyEthAddr poseidon ethAddr LeafTypeSCLength)"

section \<open>The hash of contract code\<close>

definition bytecodeElementsHash :: nat where "bytecodeElementsHash = 8"
definition bytecodeBytesElement :: nat where "bytecodeBytesElement = 7"
definition maxBytesToAdd :: nat where "maxBytesToAdd = bytecodeElementsHash * bytecodeBytesElement"

function pad_loop :: "byte list \<Rightarrow> byte list" where
  "pad_loop code = (if length code mod 56 \<noteq> 0 then pad_loop (code @ [0]) else code)"
  by pat_completeness auto

termination
proof (relation "measure (\<lambda>code. (56 - length code mod 56) mod 56)")
  fix code :: "byte list"
  let ?n = "length code"
  assume "?n mod 56 \<noteq> 0"
  moreover have "?n mod 56 < 56" by simp
  moreover have "Suc ?n mod 56 = (if Suc (?n mod 56) = 56 then 0 else Suc (?n mod 56))" by (rule mod_Suc)
  ultimately show "(code @ [0], code) \<in> measure (\<lambda>code. (56 - length code mod 56) mod 56)" by auto
qed simp

declare pad_loop.simps [simp del]

definition pad_code :: "byte list \<Rightarrow> byte list" where
  "pad_code code = (let code = pad_loop (code @ [1]) in code[length code - 1 := last code OR 0x80])"

text \<open>
  The inner loop over the bytes of a chunk: \<open>tmpElem\<close> is filled from its end, and every seventh byte an
  element is complete. A byte beyond the chunk counts as zero.
\<close>

fun code_elements :: "nat \<Rightarrow> byte list \<Rightarrow> byte list \<Rightarrow> nat \<Rightarrow> u64 list \<Rightarrow> u64 list" where
  "code_elements 0 subsetCode tmpElem counter elements = elements"
| "code_elements (Suc k) subsetCode tmpElem counter elements =
     (let byteToAdd = (case subsetCode of [] \<Rightarrow> 0 | b # bs \<Rightarrow> b);
          tmpElem = tmpElem[bytecodeBytesElement - 1 - counter := byteToAdd];
          counter = counter + 1
      in if counter = bytecodeBytesElement then
           code_elements k (tl subsetCode) (replicate bytecodeBytesElement 0) 0
             (elements @ [word_of_nat (be_nat tmpElem)])
         else code_elements k (tl subsetCode) tmpElem counter elements)"

text \<open>
  The outer loop. \<open>math.Ceil\<close> and \<open>math.Min\<close> are of numbers below \<open>2 ^ 53\<close>, where \<open>float64\<close> is exact.
\<close>

fun hash_chunks :: "poseidon \<Rightarrow> nat \<Rightarrow> nat \<Rightarrow> byte list \<Rightarrow> u64 list \<Rightarrow> (unit, u64 list) outcome" where
  "hash_chunks poseidon 0 bytesPointer code tmpHash = Ok tmpHash"
| "hash_chunks poseidon (Suc k) bytesPointer code tmpHash =
     (let upper = min (length code - 1) (bytesPointer + maxBytesToAdd) + 1;
          subsetBytecode = take (upper - bytesPointer) (drop bytesPointer code)
      in obind (poseidon (code_elements maxBytesToAdd subsetBytecode (replicate bytecodeBytesElement 0) 0 []) tmpHash)
           (hash_chunks poseidon k (bytesPointer + maxBytesToAdd) code))"

definition HashContractBytecode :: "poseidon \<Rightarrow> byte list \<Rightarrow> (unit, u64 list) outcome" where
  "HashContractBytecode poseidon code =
     (let code = pad_code code;
          numHashes = (length code + maxBytesToAdd - 1) div maxBytesToAdd
      in hash_chunks poseidon numHashes 0 code [0, 0, 0, 0])"

section \<open>Numbers and limbs\<close>

definition h4_bytes :: "u64 list \<Rightarrow> byte list" where
  "h4_bytes h4 = concat (map (\<lambda>w. be_bytes 8 (unat w)) (rev h4))"

lemma h4_cases: "length h4 = 4 \<Longrightarrow> \<exists>a b c d. h4 = [a, b, c, d]"
  by (auto simp: length_Suc_conv numeral_eq_Suc)

lemma unat_u64 [simp]: "unat (w :: u64) mod 18446744073709551616 = unat w"
  using unsigned_less [of w, where ?'a = nat] by simp

lemma h4_value: "be_nat (h4_bytes [a, b, c, d]) =
    unat d * 256 ^ 24 + unat c * 256 ^ 16 + unat b * 256 ^ 8 + unat a"
proof -
  have "be_nat (be_bytes 8 (unat w)) = unat w" for w :: u64
    by (simp add: be_nat_be_bytes)
  then show ?thesis
    by (simp only: h4_bytes_def rev.simps append.simps list.map concat.simps be_nat_append length_append
        length_be_bytes append_Nil2 list.size be_nat_Nil) (simp add: algebra_simps)
qed

lemma length_h4_bytes: "length (h4_bytes [a, b, c, d]) = 32"
  by (simp add: h4_bytes_def)

lemma h4_scalar:
  "length h4 = 4 \<Longrightarrow> h4ToScalar h4 = Ok (int (be_nat (h4_bytes h4))) \<and> length (h4_bytes h4) = 32"
proof -
  assume "length h4 = 4"
  then obtain a b c d where h: "h4 = [a, b, c, d]" using h4_cases by blast
  have "int (be_nat (h4_bytes h4)) = uint d * 256 ^ 24 + uint c * 256 ^ 16 + uint b * 256 ^ 8 + uint a"
    unfolding h h4_value by simp
  then show ?thesis
    by (simp add: h length_h4_bytes wordLength_def push_bit_eq_mult)
qed

lemma filled_bytes: "length bs = 32 \<Longrightarrow> ScalarToFilledByteSlice (int (be_nat bs)) = Ok bs"
proof -
  assume l: "length bs = 32"
  from be_nat_less [of bs] have "be_nat bs < 256 ^ maxBigIntLen" unfolding l maxBigIntLen_def .
  moreover from l have "be_bytes maxBigIntLen (be_nat bs) = bs" unfolding maxBigIntLen_def by (rule be_bytes_be_nat)
  ultimately show ?thesis unfolding ScalarToFilledByteSlice_def abs_of_nat nat_int by (simp only: if_True)
qed

lemma h4_filled: "length h4 = 4 \<Longrightarrow> h4ToFilledByteSlice h4 = Ok (h4_bytes h4)"
  using h4_scalar [of h4] filled_bytes [of "h4_bytes h4"] by (simp add: h4ToFilledByteSlice_def)

lemma replicate_eq_8: "replicate 8 x = [x, x, x, x, x, x, x, x]"
  by (simp add: numeral_eq_Suc)

lemma scalar_h4: "length h4 = 4 \<Longrightarrow> scalarToh4 (int (be_nat (h4_bytes h4))) = Ok h4"
proof -
  assume len: "length h4 = 4"
  then obtain a b c d where h: "h4 = [a, b, c, d]" using h4_cases by blast
  have "be_nat (replicate 8 255) = 18446744073709551615"
    by (simp add: replicate_eq_8 be_nat_def)
  then have ones: "(word_of_nat (be_nat (replicate 8 255)) :: u64) = - 1" by simp
  have f: "ScalarToFilledByteSlice (int (be_nat (h4_bytes h4))) = Ok (h4_bytes h4)"
    using h4_scalar [OF len] by (intro filled_bytes) blast
  have t: "take 8 (drop 24 (h4_bytes h4)) = be_bytes 8 (unat a)" "take 8 (drop 16 (h4_bytes h4)) = be_bytes 8 (unat b)"
    "take 8 (drop 8 (h4_bytes h4)) = be_bytes 8 (unat c)" "take 8 (drop 0 (h4_bytes h4)) = be_bytes 8 (unat d)"
    by (simp_all add: h h4_bytes_def)
  have w: "(word_of_nat (be_nat (be_bytes 8 (unat w))) :: u64) = w" for w :: u64
    by (simp add: be_nat_be_bytes)
  show ?thesis
    by (simp only: scalarToh4_def ones Let_def f obind.simps t w bit.conj_one_right) (simp only: h)
qed

lemma h4_bytes_inj: "length h = 4 \<Longrightarrow> length h' = 4 \<Longrightarrow> h4_bytes h = h4_bytes h' \<Longrightarrow> h = h'"
  by (metis scalar_h4 outcome.inject(1))

lemma pad_encode:
  "length bs \<le> m \<Longrightarrow> pad_left (2 * m) (encode_to_string bs) = encode_to_string (replicate (m - length bs) 0 @ bs)"
proof -
  assume "length bs \<le> m"
  have "encode_to_string (replicate k 0) = replicate (2 * k) (CHR ''0'')" for k
    by (induction k) simp_all
  then show ?thesis by (simp add: pad_left_def encode_to_string_append diff_mult_distrib2)
qed

lemma be_nat_zeros_append: "be_nat (replicate k 0 @ bs) = be_nat bs"
proof -
  have "be_nat (replicate k 0) = 0" by (induction k) (simp_all add: be_nat_Cons)
  then show ?thesis by (simp add: be_nat_append)
qed

lemma H4_text: "length h4 = 4 \<Longrightarrow> H4ToString h4 = Ok (''0x'' @ encode_to_string (h4_bytes h4))"
proof -
  assume len: "length h4 = 4"
  let ?n = "be_nat (h4_bytes h4)"
  note s = h4_scalar [OF len]
  have "?n < 256 ^ 32" using be_nat_less [of "h4_bytes h4"] s by simp
  from length_be_min_le [OF this] have l: "length (be_min ?n) \<le> 32" .
  have "replicate (32 - length (be_min ?n)) 0 @ be_min ?n = h4_bytes h4"
    by (rule be_nat_inj) (use l s in \<open>simp_all add: be_nat_zeros_append byte_simps\<close>)
  with pad_encode [OF l] s show ?thesis by (simp add: H4ToString_def)
qed

lemma set_string_encode: "bs \<noteq> [] \<Longrightarrow> set_string 16 (encode_to_string bs) = Some (int (be_nat bs))"
proof -
  assume "bs \<noteq> []"
  then obtain n cs where e: "encode_to_string bs = hex_char n # cs" by (cases bs) auto
  have d: "hex_digit_val (CHR ''-'') = None" "hex_digit_val (CHR ''+'') = None" by (simp_all add: hex_digit_val_def)
  have "hex_char n \<noteq> CHR ''-''" "hex_char n \<noteq> CHR ''+''"
    using hex_digit_val_hex_char [of n] d by (metis option.distinct(1))+
  then show ?thesis using digits_val_encode [of 0 bs] by (simp add: e)
qed

text \<open>
  Hashes as four elements and their texts: \<open>StringToh4\<close> reads back every quadruple that \<open>H4ToString\<close> prints,
  the text has \<open>0x\<close> and 64 digits, and the 32 bytes of \<open>h4ToFilledByteSlice\<close> are the bytes of its digits.
\<close>

theorem h4_text_round_trip:
  assumes "length h4 = 4"
  shows "\<exists>s bs. H4ToString h4 = Ok s \<and> length s = 66 \<and> StringToh4 s = Ok h4 \<and>
    h4ToFilledByteSlice h4 = Ok bs \<and> s = encode_to_hex bs"
proof -
  have ne: "h4_bytes h4 \<noteq> []" using h4_scalar [OF assms] by (metis list.size(3) zero_neq_numeral)
  have "StringToh4 (''0x'' @ encode_to_string (h4_bytes h4)) = Ok h4"
    using scalar_h4 [OF assms] set_string_encode [OF ne] by (simp add: StringToh4_def)
  then show ?thesis
    using H4_text [OF assms] h4_filled [OF assms] h4_scalar [OF assms]
    by (simp add: encode_to_hex_def)
qed

theorem h4_text_round_trip_witness:
  "\<exists>s. H4ToString [1, 2, 3, 4] = Ok s \<and> StringToh4 s = Ok [1, 2, 3, 4]"
  using h4_text_round_trip [of "[1, 2, 3, 4]"] by auto


section \<open>Limbs of 32 bits\<close>

lemma limb_bits: "i \<le> 7 \<Longrightarrow> drop_bit (32 * i) v AND 0xFFFFFFFF = int (take_bit 32 (drop_bit (32 * i) (nat (v mod 2 ^ 256))))"
proof -
  assume i: "i \<le> 7"
  let ?n = "nat (v mod 2 ^ 256)"
  have n: "int ?n = take_bit 256 v" by (simp add: take_bit_eq_mod)
  have m: "(0xFFFFFFFF :: int) = mask 32" by (simp add: mask_eq_exp_minus_1)
  have "drop_bit (32 * i) v AND 0xFFFFFFFF = take_bit 32 (drop_bit (32 * i) v)"
    unfolding m by (simp add: take_bit_eq_mask)
  also have "\<dots> = take_bit 32 (take_bit (256 - 32 * i) (drop_bit (32 * i) v))"
  proof -
    have "32 \<le> 256 - 32 * i" using i by simp
    then show ?thesis by (simp add: min_def)
  qed
  also have "\<dots> = take_bit 32 (drop_bit (32 * i) (take_bit 256 v))"
    by (simp add: drop_bit_take_bit)
  also have "\<dots> = int (take_bit 32 (drop_bit (32 * i) ?n))"
    unfolding n [symmetric] by (simp only: of_nat_take_bit of_nat_drop_bit)
  finally show ?thesis .
qed

lemma limbs_bits: "limbs k n = map (\<lambda>i. take_bit 32 (drop_bit (32 * i) n)) [0..<k]"
proof (induction k arbitrary: n)
  case (Suc k)
  have "drop_bit (32 * Suc i) n = drop_bit (32 * i) (n div 2 ^ 32)" for i
    by (simp add: drop_bit_eq_div power_add div_mult2_eq)
  then show ?case
    unfolding limbs.simps Suc.IH map_upt_Suc by (simp add: take_bit_eq_mod del: upt_Suc)
qed simp

lemma scalar2fea_limbs: "scalar2fea v = map word_of_nat (limbs 8 (nat (v mod 2 ^ 256)))"
proof -
  have "[0..<8] = [0, 1, 2, 3, 4, 5, 6, 7]" by code_simp
  then have eight: "limbs 8 n = map (\<lambda>i. take_bit 32 (drop_bit (32 * i) n)) [0, 1, 2, 3, 4, 5, 6, 7]" for n
    unfolding limbs_bits by simp
  have same: "map (\<lambda>i. word_of_int (drop_bit (32 * i) v AND 0xFFFFFFFF) :: u64) is =
      map (\<lambda>i. word_of_nat (take_bit 32 (drop_bit (32 * i) (nat (v mod 2 ^ 256))))) is"
    if "list_all (\<lambda>i. i \<le> 7) is" for "is"
    using that by (induction "is") (simp_all add: limb_bits del: of_nat_take_bit of_nat_drop_bit)
  have "list_all (\<lambda>i. i \<le> 7) [0, 1, 2, 3, 4, 5, 6, 7 :: nat]" by simp
  from same [OF this] show ?thesis
    unfolding scalar2fea_def eight list.map_comp comp_def .
qed

lemma fea_of_scalar: "fea2scalar 8 (scalar2fea v) = Some (nat (v mod 2 ^ 256))"
proof -
  have "fea2scalar 8 (scalar2fea v) = Some (limbs_val (limbs 8 (nat (v mod 2 ^ 256))))"
    unfolding scalar2fea_limbs
    by (intro fea2scalar_limbs_val) (auto dest!: limbs_less intro: less_trans simp del: limbs.simps)
  moreover have "nat (v mod 2 ^ 256) < 2 ^ 256" by (simp add: nat_less_iff)
  ultimately show ?thesis unfolding limbs_val_limbs by simp
qed

lemma length_scalar2fea [simp]: "length (scalar2fea v) = 8"
  by (simp add: scalar2fea_def)

lemma scalar2fea_limb: "l \<in> set (scalar2fea v) \<Longrightarrow> l < 2 ^ 32"
  using limbs_less [of _ 8 "nat (v mod 2 ^ 256)", THEN le_less_trans [OF mod_less_eq_dividend]]
  by (auto simp: scalar2fea_limbs word_less_nat_alt unat_of_nat simp del: limbs.simps)

text \<open>
  \<open>scalar2fea\<close> splits a number into eight limbs of 32 bits, the lowest first, of which \<open>fea2scalar\<close> of the
  prover's client makes the number again, up to the 256 bits that there is room for.
\<close>

theorem scalar2fea_round_trip:
  "length (scalar2fea v) = 8 \<and> list_all (\<lambda>l. l < 2 ^ 32) (scalar2fea v) \<and>
   fea2scalar 8 (scalar2fea v) = Some (nat (v mod 2 ^ 256))"
  using scalar2fea_limb fea_of_scalar by (simp add: list_all_iff length_scalar2fea)

section \<open>Keys\<close>

definition collision :: "poseidon \<Rightarrow> bool" where
  "collision poseidon \<longleftrightarrow> (\<exists>x c y d h. (x, c) \<noteq> (y, d) \<and> poseidon x c = Ok h \<and> poseidon y d = Ok h)"

lemma collisionI: "(x, c) \<noteq> (y, d) \<Longrightarrow> poseidon x c = Ok h \<Longrightarrow> poseidon y d = Ok h \<Longrightarrow> collision poseidon"
  unfolding collision_def by blast

lemma leaf_number_inj: "leaf_number s = leaf_number t \<Longrightarrow> s = t"
  by (cases s; cases t) simp_all

lemma address_limbs_inj:
  fixes a b :: address
  assumes "\<forall>i < 5. scalar2fea (uint a) ! i = scalar2fea (uint b) ! i"
  shows "a = b"
proof -
  have high: "scalar2fea (uint x) ! i = 0" if "5 \<le> i" "i < 8" for x :: address and i
  proof -
    have "uint x < 2 ^ 160" using uint_lt2p [of x] by simp
    moreover have "(2 :: int) ^ 160 \<le> 2 ^ (32 * i)" using that by (intro power_increasing) auto
    ultimately have "uint x div 2 ^ (32 * i) = 0"
      using uint_ge_0 [of x] by (intro div_pos_pos_trivial) auto
    moreover have "i = 5 \<or> i = 6 \<or> i = 7" using that by auto
    ultimately show ?thesis by (auto simp: scalar2fea_def drop_bit_eq_div)
  qed
  have "scalar2fea (uint a) ! i = scalar2fea (uint b) ! i" if "i < 8" for i
    using assms high [of i] that by (cases "i < 5") simp_all
  moreover have "length (scalar2fea v) = 8" for v by (simp add: scalar2fea_def)
  ultimately have "scalar2fea (uint a) = scalar2fea (uint b)"
    by (intro nth_equalityI) auto
  then have "nat (uint a mod 2 ^ 256) = nat (uint b mod 2 ^ 256)"
    using fea_of_scalar by (metis option.inject)
  moreover have "uint x mod 2 ^ 256 = uint x" for x :: address
  proof -
    have "uint x < 2 ^ 160" using uint_lt2p [of x] by simp
    then have "uint x < 2 ^ 256" by (rule less_le_trans) simp
    then show ?thesis using uint_ge_0 [of x] by (intro mod_pos_pos_trivial)
  qed
  ultimately show ?thesis by (metis int_nat_eq uint_ge_0 word_uint_eqI)
qed

text \<open>
  C33. Leaves of the state tree do not share keys. Two calls of \<open>keyEthAddr\<close> with the same key were for the same
  address, the same type of leaf and the same capacity, unless Poseidon maps two different inputs
  to the same hash.
\<close>

theorem keys_separate_leaves:
  assumes "\<forall>x c h. poseidon x c = Ok h \<longrightarrow> length h = 4"
    "keyEthAddr poseidon a s c = Ok k" "keyEthAddr poseidon b t d = Ok k"
  shows "a = b \<and> s = t \<and> c = d \<or> collision poseidon"
proof -
  let ?in = "\<lambda>a s. [scalar2fea (uint a) ! 0, scalar2fea (uint a) ! 1, scalar2fea (uint a) ! 2,
    scalar2fea (uint a) ! 3, scalar2fea (uint a) ! 4, 0, leaf_number s, 0]"
  obtain h h' where h: "poseidon (?in a s) c = Ok h" "h4ToFilledByteSlice h = Ok k"
    "poseidon (?in b t) d = Ok h'" "h4ToFilledByteSlice h' = Ok k"
    using assms(2,3) unfolding keyEthAddr_def Let_def obind_Ok_iff by blast
  have len: "length h = 4" "length h' = 4"
    using assms(1) h(1,3) by (metis, metis)
  have "h4_bytes h = h4_bytes h'"
    using h(2,4) h4_filled [OF len(1)] h4_filled [OF len(2)] by (metis outcome.inject(1))
  with len have "h = h'" by (rule h4_bytes_inj)
  show ?thesis
  proof (cases "?in a s = ?in b t \<and> c = d")
    case True
    have "i < 5 \<Longrightarrow> i = 0 \<or> i = 1 \<or> i = 2 \<or> i = 3 \<or> i = 4" for i :: nat by auto
    with True have "\<forall>i < 5. scalar2fea (uint a) ! i = scalar2fea (uint b) ! i" by fastforce
    then have "a = b" by (rule address_limbs_inj)
    moreover have "s = t" using True by (intro leaf_number_inj) simp
    ultimately show ?thesis using True by simp
  next
    case False
    then have "(?in a s, c) \<noteq> (?in b t, d)" by simp
    from collisionI [OF this h(1) h(3) [folded \<open>h = h'\<close>]] show ?thesis ..
  qed
qed

definition sample_poseidon :: poseidon where
  "sample_poseidon x c = Ok [x ! 0, x ! 1, x ! 6, c ! 0]"

theorem keys_separate_leaves_witness:
  "collision sample_poseidon"
proof -
  have l: "\<forall>x c h. sample_poseidon x c = Ok h \<longrightarrow> length h = 4" by (auto simp: sample_poseidon_def)
  obtain k where k: "keyEthAddr sample_poseidon 7 LeafTypeBalance [1, 2, 3, 4] = Ok k"
    "keyEthAddr sample_poseidon 7 LeafTypeBalance [1, 2, 3, 5] = Ok k"
    by (simp add: keyEthAddr_def sample_poseidon_def h4_filled Let_def)
  from keys_separate_leaves [OF l k] show ?thesis by simp
qed

section \<open>The hash of contract code\<close>

text \<open>
  A reference for the hash: the code followed by \<open>1\<close>, by zeros and by the top bit, in chunks of 56 bytes, each
  eight elements of seven bytes, the lowest byte first, and each hashed with the hash so far as
  capacity.
\<close>

definition chunk_elements :: "byte list \<Rightarrow> u64 list" where
  "chunk_elements c = map (\<lambda>j. word_of_nat (be_nat (rev (take 7 (drop (7 * j) c))))) [0..<8]"

fun hash_list :: "poseidon \<Rightarrow> byte list list \<Rightarrow> u64 list \<Rightarrow> (unit, u64 list) outcome" where
  "hash_list poseidon [] h = Ok h"
| "hash_list poseidon (c # cs) h = obind (poseidon (chunk_elements c) h) (hash_list poseidon cs)"

lemma code_elements_sevens:
  "7 * m \<le> length xs \<Longrightarrow> code_elements (7 * m) xs (replicate 7 0) 0 es =
     es @ map (\<lambda>j. word_of_nat (be_nat (rev (take 7 (drop (7 * j) xs))))) [0..<m]"
proof (induction m arbitrary: xs es)
  case (Suc m)
  then obtain a b c d e f g r where x: "xs = [a, b, c, d, e, f, g] @ r" "7 * m \<le> length r"
    by (auto simp: Suc_le_length_iff numeral_eq_Suc)
  have k: "7 * Suc m = Suc (Suc (Suc (Suc (Suc (Suc (Suc (7 * m)))))))" by simp
  have seven: "replicate 7 x = [x, x, x, x, x, x, x]" for x :: byte by (simp add: numeral_eq_Suc)
  have step: "code_elements (7 * Suc m) xs (replicate 7 0) 0 es =
      code_elements (7 * m) r (replicate 7 0) 0 (es @ [word_of_nat (be_nat [g, f, e, d, c, b, a])])"
    unfolding k by (simp add: x Let_def bytecodeBytesElement_def seven)
  have drop: "drop (7 * Suc j) xs = drop (7 * j) r" for j
    using drop_drop [of "7 * j" 7 xs] by (simp add: x add.commute)
  show ?case
    unfolding step Suc.IH [OF x(2)] map_upt_Suc drop by (simp add: x)
qed simp

lemma take_drop_within: "j + k \<le> m \<Longrightarrow> take k (drop j (take m xs)) = take k (drop j xs)"
  by (simp add: drop_take min_def)

lemma code_elements_chunk:
  assumes "56 \<le> length xs"
  shows "code_elements maxBytesToAdd xs (replicate bytecodeBytesElement 0) 0 [] = chunk_elements (take 56 xs)"
proof -
  have "code_elements (7 * 8) xs (replicate 7 0) 0 [] = chunk_elements xs"
    using code_elements_sevens [of 8 xs "[]"] assms unfolding chunk_elements_def by simp
  moreover have "chunk_elements (take 56 xs) = chunk_elements xs"
    unfolding chunk_elements_def by (intro map_cong refl) (simp add: take_drop_within)
  ultimately show ?thesis
    by (simp add: maxBytesToAdd_def bytecodeElementsHash_def bytecodeBytesElement_def)
qed

lemma hash_chunks_list:
  "length code = 56 * (i + k) \<Longrightarrow> hash_chunks poseidon k (56 * i) code h =
     hash_list poseidon (map (\<lambda>i. take 56 (drop (56 * i) code)) [i..<i + k]) h"
proof (induction k arbitrary: i h)
  case (Suc k)
  let ?upper = "min (length code - 1) (56 * i + maxBytesToAdd) + 1"
  let ?sub = "take (?upper - 56 * i) (drop (56 * i) code)"
  have m: "maxBytesToAdd = 56" by (simp add: maxBytesToAdd_def bytecodeElementsHash_def bytecodeBytesElement_def)
  have len: "56 \<le> ?upper - 56 * i" "56 \<le> length ?sub" using Suc.prems by (auto simp: m)
  then have "take 56 ?sub = take 56 (drop (56 * i) code)" by (simp add: min_def)
  with code_elements_chunk [OF len(2)]
  have e: "code_elements maxBytesToAdd ?sub (replicate bytecodeBytesElement 0) 0 [] = chunk_elements (take 56 (drop (56 * i) code))"
    by simp
  have rest: "hash_chunks poseidon k (56 * i + maxBytesToAdd) code =
      hash_list poseidon (map (\<lambda>i. take 56 (drop (56 * i) code)) [Suc i..<Suc i + k])"
    using Suc.IH [of "Suc i"] Suc.prems by (intro ext) (simp add: m add.commute)
  have upt: "[i..<i + Suc k] = i # [Suc i..<Suc i + k]" by (subst upt_rec) simp
  show ?case
    unfolding hash_chunks.simps Let_def e rest upt list.map hash_list.simps ..
qed simp

lemma pad_loop_zeros: "pad_loop code = code @ replicate ((56 - length code mod 56) mod 56) 0"
proof (induction code rule: pad_loop.induct)
  case (1 code)
  show ?case
  proof (cases "length code mod 56 = 0")
    case False
    have "length code mod 56 < 56" by simp
    moreover have "Suc (length code) mod 56 = (if Suc (length code mod 56) = 56 then 0 else Suc (length code mod 56))"
      by (rule mod_Suc)
    ultimately have "(56 - length code mod 56) mod 56 = Suc ((56 - length (code @ [0]) mod 56) mod 56)"
      using False by auto
    then show ?thesis using 1 False by (simp add: pad_loop.simps [of code])
  qed (simp add: pad_loop.simps)
qed

lemma pad_code_zeros: "pad_code code =
    (let code = (code @ [1]) @ replicate ((56 - length (code @ [1]) mod 56) mod 56) 0 in butlast code @ [last code OR 0x80])"
proof -
  have last: "xs \<noteq> [] \<Longrightarrow> xs[length xs - 1 := y] = butlast xs @ [y]" for xs and y :: byte
    by (cases xs rule: rev_cases) simp_all
  show ?thesis
    unfolding pad_code_def pad_loop_zeros Let_def by (rule last) simp
qed

lemma length_pad_code: "length (pad_code code) = 56 * ((length code + 56) div 56)"
proof -
  let ?n = "length code + 1"
  have "?n + (56 - ?n mod 56) mod 56 = 56 * ((length code + 56) div 56)"
  proof -
    obtain q r where n: "?n = 56 * q + r" "r < 56"
      using div_mult_mod_eq [of ?n 56] mod_less_divisor [of 56 ?n] by (metis mult.commute zero_less_numeral)
    have "length code + 56 = 56 * q + (r + 55)" using n by simp
    then have "(length code + 56) div 56 = q + (r + 55) div 56" by simp
    then show ?thesis using n by (cases "r = 0") auto
  qed
  then show ?thesis by (simp add: pad_code_zeros Let_def)
qed

definition unpad_code :: "byte list \<Rightarrow> byte list" where
  "unpad_code p = (if last p = 0x81 then butlast p else rev (tl (dropWhile (\<lambda>b. b = 0) (rev (butlast p)))))"

lemma unpad_pad: "unpad_code (pad_code code) = code"
proof (cases "(56 - (length code + 1) mod 56) mod 56")
  case 0
  then show ?thesis by (simp add: pad_code_zeros unpad_code_def Let_def)
next
  case (Suc k)
  have z: "dropWhile (\<lambda>b. b = 0) (replicate k 0 @ bs) = dropWhile (\<lambda>b. b = (0 :: byte)) bs" for bs
    by (induction k) simp_all
  have "replicate (Suc k) (0 :: byte) = replicate k 0 @ [0]" by (simp add: replicate_append_same)
  then have "pad_code code = code @ [1] @ replicate k 0 @ [0x80]"
    using Suc by (simp add: pad_code_zeros Let_def butlast_append del: replicate.simps)
  then show ?thesis by (simp add: unpad_code_def butlast_append z)
qed

lemma bytecode_hash_reference_eq:
  "HashContractBytecode poseidon code =
     hash_list poseidon (map (\<lambda>i. take 56 (drop (56 * i) (pad_code code))) [0..<(length code + 56) div 56]) [0, 0, 0, 0]"
proof -
  have m: "maxBytesToAdd = 56" by (simp add: maxBytesToAdd_def bytecodeElementsHash_def bytecodeBytesElement_def)
  have "(56 * n + 56 - 1) div 56 = n" for n :: nat by simp
  then have n: "(length (pad_code code) + maxBytesToAdd - 1) div maxBytesToAdd = (length code + 56) div 56"
    unfolding m length_pad_code by blast
  show ?thesis
    unfolding HashContractBytecode_def Let_def n
    using hash_chunks_list [of "pad_code code" 0 "(length code + 56) div 56"] by (simp add: length_pad_code)
qed

text \<open>
  C34. \<open>HashContractBytecode\<close> is the hash over the chunks of the padded code, and the padding loses nothing: the
  padded code is a whole number of chunks, from which the code can be read again.
\<close>

theorem bytecode_hash_reference:
  "HashContractBytecode poseidon code =
     hash_list poseidon (map (\<lambda>i. take 56 (drop (56 * i) (pad_code code))) [0..<(length code + 56) div 56]) [0, 0, 0, 0] \<and>
   length (pad_code code) = 56 * ((length code + 56) div 56) \<and> unpad_code (pad_code code) = code"
  by (intro conjI bytecode_hash_reference_eq length_pad_code unpad_pad)

section \<open>The inputs of Poseidon\<close>

text \<open>
  Poseidon is of eight elements and a capacity of four, in a field of \<open>2 ^ 64 - 2 ^ 32 + 1\<close> elements. The inputs that
  have this type and whose elements are below \<open>2 ^ 56\<close>, hence reduced.
\<close>

definition poseidon_input :: "u64 list \<Rightarrow> u64 list \<Rightarrow> bool" where
  "poseidon_input x c \<longleftrightarrow> length x = 8 \<and> length c = 4 \<and> list_all (\<lambda>l. l < 2 ^ 56) x"

definition poseidon_ok :: "poseidon \<Rightarrow> bool" where
  "poseidon_ok poseidon \<longleftrightarrow> (\<forall>x c h. poseidon_input x c \<longrightarrow> poseidon x c = Ok h \<longrightarrow> length h = 4)"

lemma scalarToh4_length: "scalarToh4 v = Ok h \<Longrightarrow> length h = 4"
  by (auto simp: scalarToh4_def obind_Ok_iff Let_def)

lemma defaultCapIn_length: "defaultCapIn = Ok c \<Longrightarrow> length c = 4"
  by (auto simp: defaultCapIn_def StringToh4_def Let_def scalarToh4_length split: option.splits)

lemma limb_small: "(l :: u64) < 2 ^ 32 \<Longrightarrow> l < 2 ^ 56"
  by (erule less_trans) simp

lemma leaf_number_small: "leaf_number lt < 2 ^ 56"
  by (cases lt) simp_all

lemma key_input: "length c = 4 \<Longrightarrow> poseidon_input
    [scalar2fea v ! 0, scalar2fea v ! 1, scalar2fea v ! 2, scalar2fea v ! 3, scalar2fea v ! 4, 0, leaf_number lt, 0] c"
  using limb_small [OF scalar2fea_limb [OF nth_mem], of _ v] leaf_number_small [of lt] by (simp add: poseidon_input_def)

lemma position_input: "poseidon_input (scalar2fea v) [0, 0, 0, 0]"
  using limb_small [OF scalar2fea_limb, of _ v] by (simp add: poseidon_input_def list_all_iff)

lemma chunk_input: "length h = 4 \<Longrightarrow> poseidon_input (chunk_elements c) h"
proof -
  assume "length h = 4"
  moreover have "(word_of_nat (be_nat (rev (take 7 bs))) :: u64) < 2 ^ 56" for bs :: "byte list"
  proof -
    have "be_nat (rev (take 7 bs)) < 256 ^ 7"
      using be_nat_less [of "rev (take 7 bs)"]
      by (rule less_le_trans) (simp only: length_rev length_take, rule power_increasing, simp_all)
    then show ?thesis by (simp add: word_less_nat_alt unat_of_nat)
  qed
  ultimately show ?thesis by (simp add: poseidon_input_def chunk_elements_def list_all_iff)
qed

lemma hash_list_typed:
  assumes "poseidon_ok poseidon" "\<And>x c. poseidon_input x c \<Longrightarrow> poseidon' x c = poseidon x c" "length h = 4"
  shows "hash_list poseidon' cs h = hash_list poseidon cs h \<and> (\<forall>h'. hash_list poseidon cs h = Ok h' \<longrightarrow> length h' = 4)"
  using assms(3)
proof (induction cs arbitrary: h)
  case (Cons c cs)
  note i = chunk_input [OF Cons.prems, of c]
  show ?case
  proof (cases "poseidon (chunk_elements c) h")
    case (Ok h1)
    with assms(1) i have "length h1 = 4" by (auto simp: poseidon_ok_def)
    from Cons.IH [OF this] show ?thesis by (simp add: Ok assms(2) [OF i])
  qed (simp_all add: assms(2) [OF i])
qed simp

lemma keyEthAddr_typed:
  assumes "poseidon_ok poseidon" "\<And>x c. poseidon_input x c \<Longrightarrow> poseidon' x c = poseidon x c" "length c = 4"
  shows "keyEthAddr poseidon' a lt c = keyEthAddr poseidon a lt c \<and>
    (\<forall>k. keyEthAddr poseidon a lt c = Ok k \<longrightarrow> length k = 32)"
proof -
  note i = key_input [OF assms(3), of "uint a" lt]
  have "length k = 32" if "keyEthAddr poseidon a lt c = Ok k" for k
  proof -
    from that obtain h where h: "length h = 4" "h4ToFilledByteSlice h = Ok k"
      using assms(1) i by (auto simp: keyEthAddr_def Let_def obind_Ok_iff poseidon_ok_def)
    with h4_scalar [OF h(1)] h4_filled [OF h(1)] show ?thesis by simp
  qed
  then show ?thesis by (simp only: keyEthAddr_def Let_def assms(2) [OF i] simp_thms) blast
qed

text \<open>The five keys of an account and the hash of its code, as functions of Poseidon.\<close>

fun account_key :: "poseidon \<Rightarrow> address \<Rightarrow> byte list \<Rightarrow> leafType \<Rightarrow> (unit, byte list) outcome" where
  "account_key poseidon a pos LeafTypeBalance = KeyEthAddrBalance poseidon a"
| "account_key poseidon a pos LeafTypeNonce = KeyEthAddrNonce poseidon a"
| "account_key poseidon a pos LeafTypeCode = KeyContractCode poseidon a"
| "account_key poseidon a pos LeafTypeStorage = KeyContractStorage poseidon a pos"
| "account_key poseidon a pos LeafTypeSCLength = KeyCodeLength poseidon a"

lemma account_key_capacity:
  "account_key poseidon a pos lt = obind
     (if lt = LeafTypeStorage then poseidon (scalar2fea (int (be_nat pos))) [0, 0, 0, 0] else defaultCapIn)
     (keyEthAddr poseidon a lt)"
  by (cases lt) (simp_all add: KeyEthAddrBalance_def KeyEthAddrNonce_def KeyContractCode_def KeyContractStorage_def KeyCodeLength_def)

text \<open>
  C39. The keys and the hash of code only depend on Poseidon at inputs of its type: eight elements below \<open>2 ^ 56\<close> and a
  capacity of four. Where Poseidon gives four elements at these, every key has 32 bytes and the hash of code
  has four elements.
\<close>

theorem poseidon_calls_typed:
  assumes "poseidon_ok poseidon" "\<forall>x c. poseidon_input x c \<longrightarrow> poseidon' x c = poseidon x c"
  shows "account_key poseidon' a pos lt = account_key poseidon a pos lt \<and>
    (\<forall>k. account_key poseidon a pos lt = Ok k \<longrightarrow> length k = 32) \<and>
    HashContractBytecode poseidon' code = HashContractBytecode poseidon code \<and>
    (\<forall>h. HashContractBytecode poseidon code = Ok h \<longrightarrow> length h = 4)"
proof -
  note same = assms(2) [rule_format]
  define cap where "cap = (if lt = LeafTypeStorage then poseidon (scalar2fea (int (be_nat pos))) [0, 0, 0, 0] else defaultCapIn)"
  have keys: "account_key poseidon a pos lt = obind cap (keyEthAddr poseidon a lt)"
    "account_key poseidon' a pos lt = obind cap (keyEthAddr poseidon' a lt)"
    by (simp_all add: account_key_capacity cap_def same [OF position_input])
  have "length c = 4" if "cap = Ok c" for c
    using that assms(1) position_input defaultCapIn_length by (auto simp: poseidon_ok_def cap_def split: if_splits)
  then have "account_key poseidon' a pos lt = account_key poseidon a pos lt \<and>
      (\<forall>k. account_key poseidon a pos lt = Ok k \<longrightarrow> length k = 32)"
    using keyEthAddr_typed [OF assms(1) same] unfolding keys by (cases cap) simp_all
  then show ?thesis
    using hash_list_typed [OF assms(1) same, of "[0, 0, 0, 0]"] by (simp add: bytecode_hash_reference_eq)
qed

theorem poseidon_calls_typed_witness:
  "HashContractBytecode (\<lambda>x c. if poseidon_input x c then sample_poseidon x c else Panic) [0x60, 0x80] =
    HashContractBytecode sample_poseidon [0x60, 0x80]"
proof -
  let ?checked = "\<lambda>x c. if poseidon_input x c then sample_poseidon x c else Panic"
  have "poseidon_ok sample_poseidon" by (simp add: poseidon_ok_def sample_poseidon_def)
  moreover have "\<forall>x c. poseidon_input x c \<longrightarrow> ?checked x c = sample_poseidon x c" by simp
  ultimately have "account_key ?checked 0 [] lt = account_key sample_poseidon 0 [] lt \<and>
      (\<forall>k. account_key sample_poseidon 0 [] lt = Ok k \<longrightarrow> length k = 32) \<and>
      HashContractBytecode ?checked code = HashContractBytecode sample_poseidon code \<and>
      (\<forall>h. HashContractBytecode sample_poseidon code = Ok h \<longrightarrow> length h = 4)" for code lt
    by (rule poseidon_calls_typed)
  then show ?thesis by blast
qed

end
