(* ===== verification/Network.thy ===== *)
theory Network
  imports Prover Merkletree
begin

text \<open>
  The network file (\<open>config/network.go\<close>, \<open>state/genesis.go\<close>, \<open>etherman.L1Config\<close>): from its JSON to the addresses of
  the contracts on L1 and to the actions that fill the state trie.
\<close>

section \<open>Data\<close>

record l1_config =
  L1ChainID :: u64
  ZkEVMAddr :: address
  RollupManagerAddr :: address
  GlobalExitRootManagerAddr :: address

text \<open>The storage of an account is a map in Go: the list has its entries in the order of the loop over it.\<close>

record genesis_account =
  acc_Balance :: string
  acc_Nonce :: string
  acc_Address :: string
  acc_Bytecode :: string
  acc_Storage :: "(string \<times> string) list"
  acc_ContractName :: string

record GenesisFromJSON =
  json_Root :: string
  json_GenesisBlockNum :: u64
  json_Genesis :: "genesis_account list"
  json_L1Config :: l1_config

record genesis_action =
  act_Address :: string
  act_Type :: int
  act_StoragePosition :: string
  act_Bytecode :: string
  act_Key :: string
  act_Value :: string
  act_Root :: string

record genesis =
  gen_BlockNumber :: u64
  gen_Root :: hash
  gen_Actions :: "genesis_action list"

record network_config =
  nc_L1Config :: l1_config
  nc_Genesis :: genesis

definition zero_l1_config :: l1_config where
  "zero_l1_config = \<lparr>L1ChainID = 0, ZkEVMAddr = 0, RollupManagerAddr = 0, GlobalExitRootManagerAddr = 0\<rparr>"

definition zero_network :: network_config where
  "zero_network = \<lparr>nc_L1Config = zero_l1_config, nc_Genesis = \<lparr>gen_BlockNumber = 0, gen_Root = 0, gen_Actions = []\<rparr>\<rparr>"

definition action :: "string \<Rightarrow> leafType \<Rightarrow> genesis_action" where
  "action a t = \<lparr>act_Address = a, act_Type = uint (leaf_number t), act_StoragePosition = '''', act_Bytecode = '''',
     act_Key = '''', act_Value = '''', act_Root = ''''\<rparr>"

section \<open>Loading\<close>

text \<open>One pass of the loop over the accounts.\<close>

definition account_actions :: "genesis_account \<Rightarrow> genesis_action list" where
  "account_actions account =
     (if acc_Balance account \<noteq> '''' \<and> acc_Balance account \<noteq> ''0''
      then [(action (acc_Address account) LeafTypeBalance)\<lparr>act_Value := acc_Balance account\<rparr>] else []) @
     (if acc_Nonce account \<noteq> '''' \<and> acc_Nonce account \<noteq> ''0''
      then [(action (acc_Address account) LeafTypeNonce)\<lparr>act_Value := acc_Nonce account\<rparr>] else []) @
     (if acc_Bytecode account \<noteq> ''''
      then [(action (acc_Address account) LeafTypeCode)\<lparr>act_Bytecode := acc_Bytecode account\<rparr>] else []) @
     (if acc_Storage account \<noteq> []
      then map (\<lambda>(storageKey, storageValue).
             (action (acc_Address account) LeafTypeStorage)\<lparr>act_StoragePosition := storageKey, act_Value := storageValue\<rparr>)
             (acc_Storage account)
      else [])"

text \<open>\<open>unmarshal\<close> is \<open>json.Unmarshal\<close> into \<open>GenesisFromJSON\<close>.\<close>

definition LoadGenesisFromJSONString ::
    "(string \<Rightarrow> ('e, GenesisFromJSON) outcome) \<Rightarrow> string \<Rightarrow> ('e, network_config) outcome" where
  "LoadGenesisFromJSONString unmarshal jsonStr =
     obind (unmarshal jsonStr) (\<lambda>cfgJSON.
     if json_Genesis cfgJSON = [] then Ok zero_network
     else Ok \<lparr>nc_L1Config = json_L1Config cfgJSON,
              nc_Genesis = \<lparr>gen_BlockNumber = json_GenesisBlockNum cfgJSON, gen_Root = hex_to_hash (json_Root cfgJSON),
                gen_Actions = fold (\<lambda>account actions. actions @ account_actions account) (json_Genesis cfgJSON) []\<rparr>\<rparr>)"

datatype 'e file_error = NoFileGiven | FileError 'e

text \<open>\<open>read_file\<close> is opening a file and reading all of it; an error of \<open>Close\<close> is logged only.\<close>

definition LoadGenesisFileAsString :: "(string \<Rightarrow> ('e, string) outcome) \<Rightarrow> string \<Rightarrow> ('e file_error, string) outcome" where
  "LoadGenesisFileAsString read_file cfgPath =
     (if cfgPath \<noteq> '''' then map_err FileError (read_file cfgPath) else Err NoFileGiven)"

text \<open>Every error ends the process: by \<open>panic\<close>, or by \<open>log.Fatalf\<close> for another network than \<open>custom\<close>.\<close>

definition loadNetworkConfig ::
    "(string \<Rightarrow> ('e, string) outcome) \<Rightarrow> (string \<Rightarrow> ('e, GenesisFromJSON) outcome) \<Rightarrow> string \<Rightarrow> string \<Rightarrow> network_config option" where
  "loadNetworkConfig read_file unmarshal network cfgPath =
     (if network = ''custom'' then
        case LoadGenesisFileAsString read_file cfgPath of
          Ok networkJSON \<Rightarrow> (case LoadGenesisFromJSONString unmarshal networkJSON of Ok config \<Rightarrow> Some config | _ \<Rightarrow> None)
        | _ \<Rightarrow> None
      else None)"

section \<open>What the actions say\<close>

text \<open>
  The reference: the leaf of an account in the trie that results when every action sets its leaf. A storage leaf
  has its position; for the other types the position is empty.
\<close>

definition leaf_text :: "genesis_action \<Rightarrow> string" where
  "leaf_text a = (if act_Type a = uint (leaf_number LeafTypeCode) then act_Bytecode a else act_Value a)"

definition apply_action :: "genesis_action \<Rightarrow> (string \<times> int \<times> string \<Rightarrow> string option) \<Rightarrow> string \<times> int \<times> string \<Rightarrow> string option" where
  "apply_action a leaves = leaves((act_Address a, act_Type a, act_StoragePosition a) \<mapsto> leaf_text a)"

definition genesis_leaves :: "genesis_action list \<Rightarrow> string \<times> int \<times> string \<Rightarrow> string option" where
  "genesis_leaves actions = fold apply_action actions (\<lambda>_. None)"

fun account_leaf :: "genesis_account \<Rightarrow> leafType \<Rightarrow> string \<Rightarrow> string option" where
  "account_leaf a LeafTypeBalance p = (if p = '''' \<and> acc_Balance a \<notin> {'''', ''0''} then Some (acc_Balance a) else None)"
| "account_leaf a LeafTypeNonce p = (if p = '''' \<and> acc_Nonce a \<notin> {'''', ''0''} then Some (acc_Nonce a) else None)"
| "account_leaf a LeafTypeCode p = (if p = '''' \<and> acc_Bytecode a \<noteq> '''' then Some (acc_Bytecode a) else None)"
| "account_leaf a LeafTypeStorage p = map_of (acc_Storage a) p"
| "account_leaf a LeafTypeSCLength p = None"

lemma actions_concat: "fold (\<lambda>a as. as @ account_actions a) accs as = as @ concat (map account_actions accs)"
  by (induction accs arbitrary: as) simp_all

lemma apply_other:
  "\<forall>x \<in> set actions. (act_Address x, act_Type x, act_StoragePosition x) \<noteq> k \<Longrightarrow> fold apply_action actions m k = m k"
  by (induction actions arbitrary: m) (auto simp: apply_action_def)

lemma actions_address: "x \<in> set (account_actions a) \<Longrightarrow> act_Address x = acc_Address a"
  by (auto simp: account_actions_def action_def split: if_splits)

lemma leaf_type_inj: "uint (leaf_number t) = uint (leaf_number u) \<longleftrightarrow> t = u"
  by (cases t; cases u) simp_all

lemma storage_actions:
  "distinct (map fst xs) \<Longrightarrow>
   fold apply_action (map (\<lambda>(k, v). (action a LeafTypeStorage)\<lparr>act_StoragePosition := k, act_Value := v\<rparr>) xs) m
     (a, uint (leaf_number LeafTypeStorage), p) =
   (case map_of xs p of Some v \<Rightarrow> Some v | None \<Rightarrow> m (a, uint (leaf_number LeafTypeStorage), p))"
proof (induction xs arbitrary: m)
  case (Cons x xs)
  obtain k v where x: "x = (k, v)" by fastforce
  with Cons.prems have "p = k \<Longrightarrow> map_of xs p = None" by (auto simp: map_of_eq_None_iff)
  with Cons x show ?case by (auto simp: apply_action_def action_def leaf_text_def split: option.split)
qed simp

definition fixed_actions :: "genesis_account \<Rightarrow> genesis_action list" where
  "fixed_actions a = account_actions (a\<lparr>acc_Storage := []\<rparr>)"

definition storage_part :: "genesis_account \<Rightarrow> genesis_action list" where
  "storage_part a = map (\<lambda>(k, v). (action (acc_Address a) LeafTypeStorage)\<lparr>act_StoragePosition := k, act_Value := v\<rparr>) (acc_Storage a)"

lemma account_actions_parts: "account_actions a = fixed_actions a @ storage_part a"
  by (simp add: account_actions_def fixed_actions_def storage_part_def)

lemma one_account:
  assumes "distinct (map fst (acc_Storage a))" "m (acc_Address a, uint (leaf_number t), p) = None"
  shows "fold apply_action (account_actions a) m (acc_Address a, uint (leaf_number t), p) = account_leaf a t p"
proof (cases "t = LeafTypeStorage")
  case True
  have "\<forall>x \<in> set (fixed_actions a). act_Type x \<noteq> uint (leaf_number LeafTypeStorage)"
    by (auto simp: fixed_actions_def account_actions_def action_def)
  then have "fold apply_action (fixed_actions a) m (acc_Address a, uint (leaf_number t), p) = None"
    using assms(2) True by (subst apply_other) auto
  then show ?thesis
    using True
    by (simp add: account_actions_parts storage_part_def storage_actions assms(1) del: leaf_number.simps split: option.split)
next
  case False
  have none: "fold apply_action (storage_part a) m' (acc_Address a, uint (leaf_number t), p) =
      m' (acc_Address a, uint (leaf_number t), p)" for m'
    using False by (intro apply_other) (auto simp: storage_part_def action_def leaf_type_inj simp del: leaf_number.simps)
  have "fold apply_action (fixed_actions a) m (acc_Address a, uint (leaf_number t), p) = account_leaf a t p"
    using False assms(2)
    by (cases t) (auto simp: fixed_actions_def account_actions_def apply_action_def action_def leaf_text_def)
  then show ?thesis by (simp add: account_actions_parts none)
qed

lemma all_accounts:
  assumes "a \<in> set accs" "distinct (map acc_Address accs)" "distinct (map fst (acc_Storage a))"
  shows "genesis_leaves (concat (map account_actions accs)) (acc_Address a, uint (leaf_number t), p) = account_leaf a t p"
proof -
  obtain bs cs where accs: "accs = bs @ a # cs" using split_list [OF assms(1)] by blast
  let ?k = "(acc_Address a, uint (leaf_number t), p)"
  have other: "fold apply_action (concat (map account_actions xs)) m ?k = m ?k" if "acc_Address a \<notin> acc_Address ` set xs" for xs m
    using that by (intro apply_other) (auto dest!: actions_address)
  have "acc_Address a \<notin> acc_Address ` set bs" "acc_Address a \<notin> acc_Address ` set cs" using assms(2) accs by auto
  then show ?thesis
    unfolding genesis_leaves_def accs using assms(3) by (simp add: other one_account del: leaf_number.simps)
qed

text \<open>
  C38. A loaded genesis sets, for every account, its balance and nonce unless they are empty or \<open>0\<close>, its code unless
  it is empty and its storage, and sets no leaf of an address that has no account. The addresses of
  the contracts are those of the file.
\<close>

theorem genesis_sets_accounts:
  assumes "unmarshal text = Ok json" "json_Genesis json \<noteq> []" "distinct (map acc_Address (json_Genesis json))"
    "\<forall>a \<in> set (json_Genesis json). distinct (map fst (acc_Storage a))"
  shows "\<exists>cfg. LoadGenesisFromJSONString unmarshal text = Ok cfg \<and> nc_L1Config cfg = json_L1Config json \<and>
    (\<forall>a \<in> set (json_Genesis json). \<forall>t p.
       genesis_leaves (gen_Actions (nc_Genesis cfg)) (acc_Address a, uint (leaf_number t), p) = account_leaf a t p) \<and>
    (\<forall>x t p. x \<notin> acc_Address ` set (json_Genesis json) \<longrightarrow> genesis_leaves (gen_Actions (nc_Genesis cfg)) (x, t, p) = None)"
proof -
  have "genesis_leaves (concat (map account_actions accs)) (x, t, p) = None" if "x \<notin> acc_Address ` set accs" for accs x t p
    unfolding genesis_leaves_def using that by (subst apply_other) (auto dest!: actions_address)
  then show ?thesis
    using assms by (auto simp: LoadGenesisFromJSONString_def actions_concat all_accounts)
qed

definition sample_account :: genesis_account where
  "sample_account = \<lparr>acc_Balance = ''100'', acc_Nonce = ''0'', acc_Address = ''0xab'', acc_Bytecode = '''',
     acc_Storage = [(''0x01'', ''0x02'')], acc_ContractName = ''''\<rparr>"

definition sample_json :: GenesisFromJSON where
  "sample_json = \<lparr>json_Root = ''0x01'', json_GenesisBlockNum = 7, json_Genesis = [sample_account],
     json_L1Config = \<lparr>L1ChainID = 1, ZkEVMAddr = 2, RollupManagerAddr = 3, GlobalExitRootManagerAddr = 4\<rparr>\<rparr>"

theorem genesis_sets_accounts_witness:
  "\<exists>cfg. LoadGenesisFromJSONString (\<lambda>_. Ok sample_json :: (unit, _) outcome) ''{}'' = Ok cfg \<and>
     genesis_leaves (gen_Actions (nc_Genesis cfg)) (''0xab'', 0, '''') = Some ''100'' \<and>
     genesis_leaves (gen_Actions (nc_Genesis cfg)) (''0xab'', 1, '''') = None \<and>
     genesis_leaves (gen_Actions (nc_Genesis cfg)) (''0xab'', 3, ''0x01'') = Some ''0x02''"
proof -
  have a: "sample_account \<in> set (json_Genesis sample_json)" "acc_Address sample_account = ''0xab''"
    by (simp_all add: sample_json_def sample_account_def)
  obtain cfg where cfg: "LoadGenesisFromJSONString (\<lambda>_. Ok sample_json :: (unit, _) outcome) ''{}'' = Ok cfg"
    "\<And>t p. genesis_leaves (gen_Actions (nc_Genesis cfg)) (''0xab'', uint (leaf_number t), p) = account_leaf sample_account t p"
    using genesis_sets_accounts [of "\<lambda>_. Ok sample_json :: (unit, _) outcome" "''{}''" sample_json] a
    by (auto simp: sample_json_def sample_account_def)
  show ?thesis
    using cfg(1) cfg(2) [of LeafTypeBalance "''''"] cfg(2) [of LeafTypeNonce "''''"] cfg(2) [of LeafTypeStorage "''0x01''"]
    by (simp add: sample_account_def)
qed

text \<open>
  A network file without accounts is accepted whatever else it says, and gives the zero value: no contract
  has an address and the chain has no identifier.
\<close>

theorem genesis_without_accounts_is_zero:
  assumes "unmarshal text = Ok json" "json_Genesis json = []"
  shows "LoadGenesisFromJSONString unmarshal text = Ok zero_network \<and>
    (path \<noteq> '''' \<and> read_file path = Ok text \<longrightarrow> loadNetworkConfig read_file unmarshal ''custom'' path = Some zero_network)"
  using assms by (simp add: LoadGenesisFromJSONString_def loadNetworkConfig_def LoadGenesisFileAsString_def)

theorem genesis_without_accounts_is_zero_witness:
  "loadNetworkConfig (\<lambda>_. Ok ''{}'') (\<lambda>_. Ok (sample_json\<lparr>json_Genesis := []\<rparr>) :: (unit, _) outcome) ''custom'' ''f'' = Some zero_network"
  using genesis_without_accounts_is_zero
    [of "\<lambda>_. Ok (sample_json\<lparr>json_Genesis := []\<rparr>) :: (unit, _) outcome" "''{}''" "sample_json\<lparr>json_Genesis := []\<rparr>" "''f''" "\<lambda>_. Ok ''{}''"]
  by simp

end
