(* ===== verification/Config_File.thy ===== *)
theory Config_File
  imports Agg_Samples Network
begin

text \<open>
  The configuration: the defaults (\<open>config/default.go\<close>), the configuration of the service, and where the file is looked for
  (\<open>config/config.go\<close>).
\<close>

section \<open>Configuration\<close>

record db_config =
  db_Name :: string
  db_User :: string
  db_Password :: string
  db_Host :: string
  db_Port :: string
  db_EnableLog :: bool
  db_MaxConns :: int

record log_config =
  log_Environment :: string
  log_Level :: string
  log_Outputs :: "string list"

record metrics_config =
  met_Host :: string
  met_Port :: int
  met_Enabled :: bool
  met_ProfilingHost :: string
  met_ProfilingPort :: int
  met_ProfilingEnabled :: bool

record sync_contracts =
  sync_GlobalExitRootManagerAddr :: address
  sync_RollupManagerAddr :: address
  sync_ZkEVMAddr :: address

text \<open>\<open>config.Config\<close>, with the parts of \<open>Aggregator\<close> that the start reads beside \<open>agg_config\<close>.\<close>

record service_config =
  sc_Aggregator :: agg_config
  sc_DB :: db_config
  sc_Log :: log_config
  sc_L1URL :: string   \<comment> \<open>\<open>Aggregator.EthTxManager.Etherman.URL\<close>\<close>
  sc_Contracts :: sync_contracts   \<comment> \<open>\<open>Aggregator.Synchronizer.Etherman.Contracts\<close>\<close>
  sc_NetworkConfig :: network_config
  sc_Metrics :: metrics_config
  sc_EventDB :: db_config

section \<open>The default values\<close>

datatype toml =
    TText string
  | TInt int
  | TBool bool
  | TArray "string list"
  | TTable "(string \<times> string) list"
  | TTables "(string \<times> string) list list"

text \<open>The tables of the text, in its order.\<close>

definition DefaultValues :: "(string \<times> (string \<times> toml) list) list" where
  "DefaultValues =
    [
     (''Aggregator'',
       [(''Host'', TText ''0.0.0.0''), (''Port'', TInt 50081), (''RetryTime'', TText ''5s''),
        (''VerifyProofInterval'', TText ''10s''), (''TxProfitabilityCheckerType'', TText ''acceptall''),
        (''TxProfitabilityMinReward'', TText ''1.1''), (''ProofStatePollingInterval'', TText ''5s''),
        (''SenderAddress'', TText ''''), (''CleanupLockedProofsInterval'', TText ''2m''),
        (''GeneratingProofCleanupThreshold'', TText ''10m''), (''BatchProofSanityCheckEnabled'', TBool True),
        (''ForkId'', TInt 9), (''GasOffset'', TInt 0), (''WitnessURL'', TText ''localhost:8123''),
        (''UseL1BatchData'', TBool True), (''UseFullWitness'', TBool False),
        (''SettlementBackend'', TText ''l1''), (''AggLayerTxTimeout'', TText ''5m''),
        (''AggLayerURL'', TText ''''), (''MaxWitnessRetrievalWorkers'', TInt 2),
        (''SyncModeOnlyEnabled'', TBool False), (''SequencerPrivateKey'', TTable [])]),
     (''Aggregator.DB'',
       [(''Name'', TText ''aggregator_db''), (''User'', TText ''aggregator_user''),
        (''Password'', TText ''aggregator_password''), (''Host'', TText ''zkevm-db''),
        (''Port'', TText ''5432''), (''EnableLog'', TBool False), (''MaxConns'', TInt 200)]),
     (''Aggregator.Log'',
       [(''Environment'', TText ''development''), (''Level'', TText ''info''),
        (''Outputs'', TArray [''stderr''])]),
     (''Aggregator.StreamClient'',
       [(''Server'', TText ''localhost:6900'')]),
     (''Aggregator.EthTxManager'',
       [(''FrequencyToMonitorTxs'', TText ''1s''), (''WaitTxToBeMined'', TText ''2m''),
        (''GetReceiptMaxTime'', TText ''250ms''), (''GetReceiptWaitInterval'', TText ''1s''),
        (''PrivateKeys'', TTables [[(''Path'', ''/pk/aggregator.keystore''), (''Password'', ''testonly'')]]),
        (''ForcedGas'', TInt 0), (''GasPriceMarginFactor'', TInt 1), (''MaxGasPriceLimit'', TInt 0),
        (''StoragePath'', TText ''''), (''ReadPendingL1Txs'', TBool False),
        (''SafeStatusL1NumberOfBlocks'', TInt 0), (''FinalizedStatusL1NumberOfBlocks'', TInt 0)]),
     (''Aggregator.EthTxManager.Etherman'',
       [(''URL'', TText ''''), (''L1ChainID'', TInt 11155111), (''HTTPHeaders'', TArray [])]),
     (''Aggregator.Synchronizer'',
       []),
     (''Aggregator.Synchronizer.DB'',
       [(''Name'', TText ''sync_db''), (''User'', TText ''sync_user''), (''Password'', TText ''sync_password''),
        (''Host'', TText ''zkevm-db''), (''Port'', TText ''5432''), (''EnableLog'', TBool False),
        (''MaxConns'', TInt 10)]),
     (''Aggregator.Synchronizer.Synchronizer'',
       [(''SyncInterval'', TText ''10s''), (''SyncChunkSize'', TInt 1000),
        (''GenesisBlockNumber'', TInt 5511080), (''SyncUpToBlock'', TText ''finalized''),
        (''BlockFinality'', TText ''finalized''), (''OverrideStorageCheck'', TBool False)]),
     (''Aggregator.Synchronizer.Etherman'',
       []),
     (''Aggregator.Synchronizer.Etherman.Validium'',
       [(''Enabled'', TBool False)]),
     (''EventLog'',
       []),
     (''EventLog.DB'',
       [])]"

section \<open>\<open>Default\<close>\<close>

text \<open>
  What viper is asked for: \<open>ReadConfig\<close> reads a text, and \<open>Unmarshal\<close> makes a \<open>Config\<close> of what has been read, beginning with
  the zero one. Either can fail.
\<close>

type_synonym toml_file = "(string \<times> (string \<times> toml) list) list"

definition Default ::
    "(toml_file \<Rightarrow> ('e, 'tree) outcome) \<Rightarrow> ('tree \<Rightarrow> ('e, service_config) outcome) \<Rightarrow> ('e, service_config) outcome" where
  "Default ReadConfig Unmarshal = obind (ReadConfig DefaultValues) Unmarshal"

section \<open>Where the file is\<close>

text \<open>\<open>filepath.Split\<close> after the last slash, and \<open>filepath.Ext\<close> from the last point of a name without slashes.\<close>

definition filepath_Split :: "string \<Rightarrow> string \<times> string" where
  "filepath_Split path =
     (let file = rev (takeWhile (\<lambda>c. c \<noteq> CHR ''/'') (rev path)) in (take (length path - length file) path, file))"

definition filepath_Ext :: "string \<Rightarrow> string" where
  "filepath_Ext name =
     (if CHR ''.'' \<in> set name then CHR ''.'' # rev (takeWhile (\<lambda>c. c \<noteq> CHR ''.'') (rev name)) else '''')"

definition TrimPrefix :: "string \<Rightarrow> string \<Rightarrow> string" where
  "TrimPrefix s prefix = (if take (length prefix) s = prefix then drop (length prefix) s else s)"

definition TrimSuffix :: "string \<Rightarrow> string \<Rightarrow> string" where
  "TrimSuffix s suffix =
     (if length suffix \<le> length s \<and> drop (length s - length suffix) s = suffix then take (length s - length suffix) s else s)"

text \<open>The directory, the name and the type that viper is told, if a path is given.\<close>

definition config_location :: "string \<Rightarrow> (string \<times> string \<times> string) option" where
  "config_location configFilePath =
     (if configFilePath = '''' then None
      else
        let (dirName, fileName) = filepath_Split configFilePath;
            fileExtension = TrimPrefix (filepath_Ext fileName) ''.'';
            fileNameWithoutExtension = TrimSuffix fileName (''.'' @ fileExtension)
        in Some (dirName, fileNameWithoutExtension, fileExtension))"

section \<open>Properties\<close>

lemma rev_takeWhile_split: "\<exists>pre. xs = pre @ rev (takeWhile P (rev xs)) \<and> (pre = [] \<or> \<not> P (last pre))"
proof (intro exI conjI)
  let ?pre = "rev (dropWhile P (rev xs))"
  show "xs = ?pre @ rev (takeWhile P (rev xs))"
    by (metis rev_append rev_rev_ident takeWhile_dropWhile_id)
  show "?pre = [] \<or> \<not> P (last ?pre)"
    using hd_dropWhile [of P "rev xs"] by (auto simp: last_rev)
qed

lemma filepath_Split_spec:
  assumes "filepath_Split path = (dir, fname)"
  shows "path = dir @ fname \<and> CHR ''/'' \<notin> set fname \<and> (dir = [] \<or> last dir = CHR ''/'')"
proof -
  let ?fname = "rev (takeWhile (\<lambda>c. c \<noteq> CHR ''/'') (rev path))"
  obtain pre where pre: "path = pre @ ?fname" "pre = [] \<or> last pre = CHR ''/''"
    using rev_takeWhile_split [of path "\<lambda>c. c \<noteq> CHR ''/''"] by blast
  then have "take (length path - length ?fname) path = pre"
    by (metis append_eq_conv_conj length_append add_diff_cancel_right')
  moreover have "CHR ''/'' \<notin> set ?fname" by (auto dest: set_takeWhileD)
  moreover have "fname = ?fname" "dir = take (length path - length ?fname) path"
    using assms by (auto simp: filepath_Split_def Let_def)
  ultimately show ?thesis using pre by metis
qed

lemma extension_split:
  fixes fname :: string
  defines "ext \<equiv> TrimPrefix (filepath_Ext fname) ''.''"
  shows "fname = TrimSuffix fname (''.'' @ ext) @ (if CHR ''.'' \<in> set fname then CHR ''.'' # ext else '''') \<and> CHR ''.'' \<notin> set ext"
proof (cases "CHR ''.'' \<in> set fname")
  case True
  let ?e = "rev (takeWhile (\<lambda>c. c \<noteq> CHR ''.'') (rev fname))"
  obtain pre where pre: "fname = pre @ ?e" "pre = [] \<or> last pre = CHR ''.''"
    using rev_takeWhile_split [of fname "\<lambda>c. c \<noteq> CHR ''.''"] by blast
  have no: "CHR ''.'' \<notin> set ?e" by (auto dest: set_takeWhileD)
  with True pre have "pre \<noteq> []" by (metis append_Nil)
  with pre obtain p where p: "pre = p @ ''.''" by (metis append_butlast_last_id)
  have e: "ext = ?e" using True by (simp add: ext_def filepath_Ext_def TrimPrefix_def)
  have "fname = p @ (''.'' @ ?e)" using pre(1) p by simp
  moreover have "TrimSuffix (p @ (''.'' @ t)) (''.'' @ t) = p" for t by (simp add: TrimSuffix_def)
  ultimately have "TrimSuffix fname (''.'' @ ext) = p" unfolding e by metis
  then show ?thesis using True no e \<open>fname = p @ (''.'' @ ?e)\<close> by simp
next
  case False
  then have ext: "ext = ''''" by (simp add: ext_def filepath_Ext_def TrimPrefix_def)
  have "drop (length fname - 1) fname \<noteq> ''.''"
    using False by (metis in_set_dropD list.set_intros(1))
  then show ?thesis using False by (simp add: ext TrimSuffix_def)
qed

text \<open>
  C32. The path of the configuration file is the directory, the name and, after a point if the file has one, the type
  that viper is told; the name has no slash and the type neither slash nor point.
\<close>

theorem config_location_round_trip:
  assumes "config_location path = Some (dir, name, ext)"
  shows "path = dir @ name @ (if CHR ''.'' \<in> set (snd (filepath_Split path)) then CHR ''.'' # ext else '''') \<and>
    (dir = '''' \<or> last dir = CHR ''/'') \<and> CHR ''/'' \<notin> set name \<and> CHR ''/'' \<notin> set ext \<and> CHR ''.'' \<notin> set ext"
proof -
  obtain fname where f: "filepath_Split path = (dir, fname)" "ext = TrimPrefix (filepath_Ext fname) ''.''"
    "name = TrimSuffix fname (''.'' @ ext)"
    using assms by (auto simp: config_location_def Let_def split: if_splits prod.splits)
  note s = filepath_Split_spec [OF f(1)] and e = extension_split [of fname, folded f(2), folded f(3)]
  have "CHR ''.'' \<notin> set fname \<Longrightarrow> ext = ''''" by (simp add: f(2) filepath_Ext_def TrimPrefix_def)
  then have parts: "set name \<union> set ext \<subseteq> set fname" using e by (cases "CHR ''.'' \<in> set fname") force+
  have "path = dir @ name @ (if CHR ''.'' \<in> set fname then CHR ''.'' # ext else '''')"
    using s e by metis
  then show ?thesis using s e parts f(1) by auto
qed

theorem config_location_round_trip_witness:
  "config_location ''/etc/node.v1.toml'' = Some (''/etc/'', ''node.v1'', ''toml'') \<and>
   ''/etc/node.v1.toml'' = ''/etc/'' @ ''node.v1'' @ ''.toml''"
proof -
  have "config_location ''/etc/node.v1.toml'' = Some (''/etc/'', ''node.v1'', ''toml'')" by code_simp
  with config_location_round_trip [OF this] show ?thesis by simp
qed

end
