(* ===== verification/Metrics.thy ===== *)
theory Metrics
  imports Prelude
begin

text \<open>
  The metrics of the service (\<open>metrics/prometheus.go\<close> and the packages \<open>metrics\<close> of the aggregator, the
  etherman and the state): six tables of collectors by name, kept beside the registerer of the
  Prometheus library. The library is a parameter, a function from the calls made so far and the next
  call to its answer.
\<close>

section \<open>The library\<close>

datatype metric_kind = GaugeKind | CounterKind | CounterVecKind | HistogramKind | HistogramVecKind | SummaryKind

text \<open>The options common to all kinds; buckets, objectives and the like go to the library unread.\<close>

record metric_opts =
  opt_Namespace :: string
  opt_Subsystem :: string
  opt_Name :: string
  opt_Help :: string
  opt_ConstLabels :: "(string \<times> string) list"

text \<open>Options and the names of the labels, which only the vectors have.\<close>

type_synonym vec_opts = "metric_opts \<times> string list"

text \<open>A collector is a pointer: \<open>col_id\<close> tells collectors with the same options apart.\<close>

record collector =
  col_id :: nat
  col_kind :: metric_kind
  col_opts :: metric_opts
  col_labels :: "string list"

text \<open>Values are of a type \<open>'v\<close>: \<open>float64\<close> values are handed on and not computed with.\<close>

datatype 'v metric_update = Set 'v | Inc | Dec | Add 'v | Observe 'v

datatype 'v prom_call =
    Make collector
  | MustRegister collector
  | Unregister collector
  | Update collector "string option" "'v metric_update"

text \<open>\<open>None\<close> is a panic of the library, \<open>Some b\<close> a return, with the result where there is one.\<close>

type_synonym 'v prom_history = "('v prom_call \<times> bool option) list"
type_synonym 'v prom = "'v prom_history \<Rightarrow> 'v prom_call \<Rightarrow> bool option"

section \<open>The package variables\<close>

record 'v metrics_state =
  initOnce :: bool
  initialized :: bool
  metrics :: "metric_kind \<Rightarrow> string \<Rightarrow> collector option"
  made :: nat
  prom_calls :: "'v prom_history"

type_synonym ('v, 'a) metrics_step = "'v metrics_state \<Rightarrow> 'a option \<times> 'v metrics_state"

definition start_metrics :: "'v metrics_state" where
  "start_metrics = \<lparr>initOnce = False, initialized = False, metrics = (\<lambda>_ _. None), made = 0, prom_calls = []\<rparr>"

definition call_prom :: "'v prom \<Rightarrow> 'v prom_call \<Rightarrow> ('v, bool) metrics_step" where
  "call_prom prom c s =
     (let answer = prom (prom_calls s) c in (answer, s\<lparr>prom_calls := (c, answer) # prom_calls s\<rparr>))"

text \<open>\<open>sync.Once\<close>: only the first call does anything.\<close>

definition Init :: "'v metrics_state \<Rightarrow> 'v metrics_state" where
  "Init s = (if initOnce s then s else s\<lparr>initOnce := True, metrics := (\<lambda>_ _. None), initialized := True\<rparr>)"

definition register_if_not_exists :: "'v prom \<Rightarrow> metric_kind \<Rightarrow> vec_opts \<Rightarrow> ('v, unit) metrics_step" where
  "register_if_not_exists prom k o_l s =
     (let name = opt_Name (fst o_l) in
      if metrics s k name \<noteq> None then (Some (), s)
      else
        let c = \<lparr>col_id = made s, col_kind = k, col_opts = fst o_l, col_labels = snd o_l\<rparr> in
        case call_prom prom (Make c) (s\<lparr>made := Suc (made s)\<rparr>) of
          (None, s) \<Rightarrow> (None, s)
        | (Some _, s) \<Rightarrow>
            (case call_prom prom (MustRegister c) s of
               (None, s) \<Rightarrow> (None, s)
             | (Some _, s) \<Rightarrow> (Some (), s\<lparr>metrics := (metrics s)(k := (metrics s k)(name \<mapsto> c))\<rparr>)))"

definition unregister_if_exists :: "'v prom \<Rightarrow> metric_kind \<Rightarrow> string \<Rightarrow> ('v, unit) metrics_step" where
  "unregister_if_exists prom k name s =
     (case metrics s k name of
        None \<Rightarrow> (Some (), s)
      | Some c \<Rightarrow>
          (case call_prom prom (Unregister c) s of
             (None, s) \<Rightarrow> (None, s)
           | (Some ok, s) \<Rightarrow>
               (Some (), if ok then s\<lparr>metrics := (metrics s)(k := (metrics s k)(name := None))\<rparr> else s)))"

fun each :: "('a \<Rightarrow> ('v, unit) metrics_step) \<Rightarrow> 'a list \<Rightarrow> ('v, unit) metrics_step" where
  "each f [] s = (Some (), s)"
| "each f (x # xs) s = (case f x s of (None, s) \<Rightarrow> (None, s) | (Some _, s) \<Rightarrow> each f xs s)"

definition lookup_metric :: "metric_kind \<Rightarrow> string \<Rightarrow> 'v metrics_state \<Rightarrow> collector option" where
  "lookup_metric k name s = (if \<not> initialized s then None else metrics s k name)"

definition update_metric ::
    "'v prom \<Rightarrow> metric_kind \<Rightarrow> string \<Rightarrow> string option \<Rightarrow> 'v metric_update \<Rightarrow> ('v, unit) metrics_step" where
  "update_metric prom k name label u s =
     (if \<not> initialized s then (Some (), s)
      else case lookup_metric k name s of
        None \<Rightarrow> (Some (), s)
      | Some c \<Rightarrow> (case call_prom prom (Update c label u) s of (a, s) \<Rightarrow> (map_option (\<lambda>_. ()) a, s)))"

section \<open>The functions of \<open>metrics/prometheus.go\<close>\<close>

definition registerGaugeIfNotExists :: "'v prom \<Rightarrow> metric_opts \<Rightarrow> ('v, unit) metrics_step" where
  "registerGaugeIfNotExists prom opts = register_if_not_exists prom GaugeKind (opts, [])"

definition unregisterGaugeIfExists :: "'v prom \<Rightarrow> string \<Rightarrow> ('v, unit) metrics_step" where
  "unregisterGaugeIfExists prom = unregister_if_exists prom GaugeKind"

definition RegisterGauges :: "'v prom \<Rightarrow> metric_opts list \<Rightarrow> ('v, unit) metrics_step" where
  "RegisterGauges prom opts s =
     (if \<not> initialized s then (Some (), s) else each (registerGaugeIfNotExists prom) opts s)"

definition UnregisterGauges :: "'v prom \<Rightarrow> string list \<Rightarrow> ('v, unit) metrics_step" where
  "UnregisterGauges prom names s =
     (if \<not> initialized s then (Some (), s) else each (unregisterGaugeIfExists prom) names s)"

definition Gauge :: "string \<Rightarrow> 'v metrics_state \<Rightarrow> collector option" where
  "Gauge = lookup_metric GaugeKind"

definition GaugeSet :: "'v prom \<Rightarrow> string \<Rightarrow> 'v \<Rightarrow> ('v, unit) metrics_step" where
  "GaugeSet prom name value = update_metric prom GaugeKind name None (Set value)"

definition GaugeInc :: "'v prom \<Rightarrow> string \<Rightarrow> ('v, unit) metrics_step" where
  "GaugeInc prom name = update_metric prom GaugeKind name None Inc"

definition GaugeDec :: "'v prom \<Rightarrow> string \<Rightarrow> ('v, unit) metrics_step" where
  "GaugeDec prom name = update_metric prom GaugeKind name None Dec"

definition registerCounterIfNotExists :: "'v prom \<Rightarrow> metric_opts \<Rightarrow> ('v, unit) metrics_step" where
  "registerCounterIfNotExists prom opts = register_if_not_exists prom CounterKind (opts, [])"

definition unregisterCounterIfExists :: "'v prom \<Rightarrow> string \<Rightarrow> ('v, unit) metrics_step" where
  "unregisterCounterIfExists prom = unregister_if_exists prom CounterKind"

definition RegisterCounters :: "'v prom \<Rightarrow> metric_opts list \<Rightarrow> ('v, unit) metrics_step" where
  "RegisterCounters prom opts s =
     (if \<not> initialized s then (Some (), s) else each (registerCounterIfNotExists prom) opts s)"

definition UnregisterCounters :: "'v prom \<Rightarrow> string list \<Rightarrow> ('v, unit) metrics_step" where
  "UnregisterCounters prom names s =
     (if \<not> initialized s then (Some (), s) else each (unregisterCounterIfExists prom) names s)"

definition Counter :: "string \<Rightarrow> 'v metrics_state \<Rightarrow> collector option" where
  "Counter = lookup_metric CounterKind"

definition CounterInc :: "'v prom \<Rightarrow> string \<Rightarrow> ('v, unit) metrics_step" where
  "CounterInc prom name = update_metric prom CounterKind name None Inc"

definition CounterAdd :: "'v prom \<Rightarrow> string \<Rightarrow> 'v \<Rightarrow> ('v, unit) metrics_step" where
  "CounterAdd prom name value = update_metric prom CounterKind name None (Add value)"

definition registerCounterVecIfNotExists :: "'v prom \<Rightarrow> vec_opts \<Rightarrow> ('v, unit) metrics_step" where
  "registerCounterVecIfNotExists prom opts = register_if_not_exists prom CounterVecKind opts"

definition unregisterCounterVecIfExists :: "'v prom \<Rightarrow> string \<Rightarrow> ('v, unit) metrics_step" where
  "unregisterCounterVecIfExists prom = unregister_if_exists prom CounterVecKind"

definition RegisterCounterVecs :: "'v prom \<Rightarrow> vec_opts list \<Rightarrow> ('v, unit) metrics_step" where
  "RegisterCounterVecs prom opts s =
     (if \<not> initialized s then (Some (), s) else each (registerCounterVecIfNotExists prom) opts s)"

definition UnregisterCounterVecs :: "'v prom \<Rightarrow> string list \<Rightarrow> ('v, unit) metrics_step" where
  "UnregisterCounterVecs prom names s =
     (if \<not> initialized s then (Some (), s) else each (unregisterCounterVecIfExists prom) names s)"

definition CounterVec :: "string \<Rightarrow> 'v metrics_state \<Rightarrow> collector option" where
  "CounterVec = lookup_metric CounterVecKind"

definition CounterVecInc :: "'v prom \<Rightarrow> string \<Rightarrow> string \<Rightarrow> ('v, unit) metrics_step" where
  "CounterVecInc prom name label = update_metric prom CounterVecKind name (Some label) Inc"

definition CounterVecAdd :: "'v prom \<Rightarrow> string \<Rightarrow> string \<Rightarrow> 'v \<Rightarrow> ('v, unit) metrics_step" where
  "CounterVecAdd prom name label value = update_metric prom CounterVecKind name (Some label) (Add value)"

definition registerHistogramIfNotExists :: "'v prom \<Rightarrow> metric_opts \<Rightarrow> ('v, unit) metrics_step" where
  "registerHistogramIfNotExists prom opts = register_if_not_exists prom HistogramKind (opts, [])"

definition unregisterHistogramIfExists :: "'v prom \<Rightarrow> string \<Rightarrow> ('v, unit) metrics_step" where
  "unregisterHistogramIfExists prom = unregister_if_exists prom HistogramKind"

definition RegisterHistograms :: "'v prom \<Rightarrow> metric_opts list \<Rightarrow> ('v, unit) metrics_step" where
  "RegisterHistograms prom opts s =
     (if \<not> initialized s then (Some (), s) else each (registerHistogramIfNotExists prom) opts s)"

definition UnregisterHistogram :: "'v prom \<Rightarrow> string list \<Rightarrow> ('v, unit) metrics_step" where
  "UnregisterHistogram prom names s =
     (if \<not> initialized s then (Some (), s) else each (unregisterHistogramIfExists prom) names s)"

definition Histogram :: "string \<Rightarrow> 'v metrics_state \<Rightarrow> collector option" where
  "Histogram = lookup_metric HistogramKind"

definition HistogramObserve :: "'v prom \<Rightarrow> string \<Rightarrow> 'v \<Rightarrow> ('v, unit) metrics_step" where
  "HistogramObserve prom name value = update_metric prom HistogramKind name None (Observe value)"

definition registerHistogramVecIfNotExists :: "'v prom \<Rightarrow> vec_opts \<Rightarrow> ('v, unit) metrics_step" where
  "registerHistogramVecIfNotExists prom opts = register_if_not_exists prom HistogramVecKind opts"

definition unregisterHistogramVecIfExists :: "'v prom \<Rightarrow> string \<Rightarrow> ('v, unit) metrics_step" where
  "unregisterHistogramVecIfExists prom = unregister_if_exists prom HistogramVecKind"

definition RegisterHistogramVecs :: "'v prom \<Rightarrow> vec_opts list \<Rightarrow> ('v, unit) metrics_step" where
  "RegisterHistogramVecs prom opts s =
     (if \<not> initialized s then (Some (), s) else each (registerHistogramVecIfNotExists prom) opts s)"

definition UnregisterHistogramVecs :: "'v prom \<Rightarrow> string list \<Rightarrow> ('v, unit) metrics_step" where
  "UnregisterHistogramVecs prom names s =
     (if \<not> initialized s then (Some (), s) else each (unregisterHistogramVecIfExists prom) names s)"

definition HistogramVec :: "string \<Rightarrow> 'v metrics_state \<Rightarrow> collector option" where
  "HistogramVec = lookup_metric HistogramVecKind"

definition HistogramVecObserve :: "'v prom \<Rightarrow> string \<Rightarrow> string \<Rightarrow> 'v \<Rightarrow> ('v, unit) metrics_step" where
  "HistogramVecObserve prom name label value = update_metric prom HistogramVecKind name (Some label) (Observe value)"

definition registerSummaryIfNotExists :: "'v prom \<Rightarrow> metric_opts \<Rightarrow> ('v, unit) metrics_step" where
  "registerSummaryIfNotExists prom opts = register_if_not_exists prom SummaryKind (opts, [])"

definition unregisterSummaryIfExists :: "'v prom \<Rightarrow> string \<Rightarrow> ('v, unit) metrics_step" where
  "unregisterSummaryIfExists prom = unregister_if_exists prom SummaryKind"

definition RegisterSummaries :: "'v prom \<Rightarrow> metric_opts list \<Rightarrow> ('v, unit) metrics_step" where
  "RegisterSummaries prom opts s =
     (if \<not> initialized s then (Some (), s) else each (registerSummaryIfNotExists prom) opts s)"

definition UnregisterSummaries :: "'v prom \<Rightarrow> string list \<Rightarrow> ('v, unit) metrics_step" where
  "UnregisterSummaries prom names s =
     (if \<not> initialized s then (Some (), s) else each (unregisterSummaryIfExists prom) names s)"

definition Summary :: "string \<Rightarrow> 'v metrics_state \<Rightarrow> collector option" where
  "Summary = lookup_metric SummaryKind"

section \<open>Sequences of calls\<close>

text \<open>One constructor for each exported function that writes.\<close>

datatype 'v metrics_request =
    Init_Req
  | RegisterGauges_Req "metric_opts list"
  | UnregisterGauges_Req "string list"
  | GaugeSet_Req string 'v
  | GaugeInc_Req string
  | GaugeDec_Req string
  | RegisterCounters_Req "metric_opts list"
  | UnregisterCounters_Req "string list"
  | CounterInc_Req string
  | CounterAdd_Req string 'v
  | RegisterCounterVecs_Req "vec_opts list"
  | UnregisterCounterVecs_Req "string list"
  | CounterVecInc_Req string string
  | CounterVecAdd_Req string string 'v
  | RegisterHistograms_Req "metric_opts list"
  | UnregisterHistogram_Req "string list"
  | HistogramObserve_Req string 'v
  | RegisterHistogramVecs_Req "vec_opts list"
  | UnregisterHistogramVecs_Req "string list"
  | HistogramVecObserve_Req string string 'v
  | RegisterSummaries_Req "metric_opts list"
  | UnregisterSummaries_Req "string list"

fun serve_metrics :: "'v prom \<Rightarrow> 'v metrics_request \<Rightarrow> ('v, unit) metrics_step" where
  "serve_metrics prom Init_Req s = (Some (), Init s)"
| "serve_metrics prom (RegisterGauges_Req opts) s = RegisterGauges prom opts s"
| "serve_metrics prom (UnregisterGauges_Req names) s = UnregisterGauges prom names s"
| "serve_metrics prom (GaugeSet_Req name value) s = GaugeSet prom name value s"
| "serve_metrics prom (GaugeInc_Req name) s = GaugeInc prom name s"
| "serve_metrics prom (GaugeDec_Req name) s = GaugeDec prom name s"
| "serve_metrics prom (RegisterCounters_Req opts) s = RegisterCounters prom opts s"
| "serve_metrics prom (UnregisterCounters_Req names) s = UnregisterCounters prom names s"
| "serve_metrics prom (CounterInc_Req name) s = CounterInc prom name s"
| "serve_metrics prom (CounterAdd_Req name value) s = CounterAdd prom name value s"
| "serve_metrics prom (RegisterCounterVecs_Req opts) s = RegisterCounterVecs prom opts s"
| "serve_metrics prom (UnregisterCounterVecs_Req names) s = UnregisterCounterVecs prom names s"
| "serve_metrics prom (CounterVecInc_Req name label) s = CounterVecInc prom name label s"
| "serve_metrics prom (CounterVecAdd_Req name label value) s = CounterVecAdd prom name label value s"
| "serve_metrics prom (RegisterHistograms_Req opts) s = RegisterHistograms prom opts s"
| "serve_metrics prom (UnregisterHistogram_Req names) s = UnregisterHistogram prom names s"
| "serve_metrics prom (HistogramObserve_Req name value) s = HistogramObserve prom name value s"
| "serve_metrics prom (RegisterHistogramVecs_Req opts) s = RegisterHistogramVecs prom opts s"
| "serve_metrics prom (UnregisterHistogramVecs_Req names) s = UnregisterHistogramVecs prom names s"
| "serve_metrics prom (HistogramVecObserve_Req name label value) s = HistogramVecObserve prom name label value s"
| "serve_metrics prom (RegisterSummaries_Req opts) s = RegisterSummaries prom opts s"
| "serve_metrics prom (UnregisterSummaries_Req names) s = UnregisterSummaries prom names s"

text \<open>A panic unwinds to the caller, which may go on: the tables stay as they are then.\<close>

definition serve_all :: "'v prom \<Rightarrow> 'v metrics_request list \<Rightarrow> 'v metrics_state \<Rightarrow> 'v metrics_state" where
  "serve_all prom rs s = fold (\<lambda>r s. snd (serve_metrics prom r s)) rs s"

section \<open>The metrics of the packages\<close>

text \<open>The options that the packages give: a name and a help text.\<close>

definition named :: "string \<Rightarrow> string \<Rightarrow> metric_opts" where
  "named name help = \<lparr>opt_Namespace = '''', opt_Subsystem = '''', opt_Name = name, opt_Help = help, opt_ConstLabels = []\<rparr>"

definition currentConnectedProversName :: string where
  "currentConnectedProversName = ''aggregator_'' @ ''current_connected_provers''"

definition currentWorkingProversName :: string where
  "currentWorkingProversName = ''aggregator_'' @ ''current_working_provers''"

definition aggregator_Register :: "'v prom \<Rightarrow> ('v, unit) metrics_step" where
  "aggregator_Register prom = RegisterGauges prom
     [named currentConnectedProversName ''[AGGREGATOR] current connected provers'',
      named currentWorkingProversName ''[AGGREGATOR] current working provers'']"

definition ConnectedProver :: "'v prom \<Rightarrow> ('v, unit) metrics_step" where
  "ConnectedProver prom = GaugeInc prom currentConnectedProversName"

definition DisconnectedProver :: "'v prom \<Rightarrow> ('v, unit) metrics_step" where
  "DisconnectedProver prom = GaugeDec prom currentConnectedProversName"

definition WorkingProver :: "'v prom \<Rightarrow> ('v, unit) metrics_step" where
  "WorkingProver prom = GaugeInc prom currentWorkingProversName"

definition IdlingProver :: "'v prom \<Rightarrow> ('v, unit) metrics_step" where
  "IdlingProver prom = GaugeDec prom currentWorkingProversName"

definition EventCounterName :: string where "EventCounterName = ''etherman_'' @ ''processed_events_counter''"
definition ReadAndProcessAllEventsTimeName :: string where
  "ReadAndProcessAllEventsTimeName = ''etherman_'' @ ''read_and_process_all_event_time''"
definition ProcessAllEventTimeName :: string where "ProcessAllEventTimeName = ''etherman_'' @ ''process_all_event_time''"
definition ProcessSingleEventTimeName :: string where "ProcessSingleEventTimeName = ''etherman_'' @ ''process_single_event_time''"
definition GetEventsTimeName :: string where "GetEventsTimeName = ''etherman_'' @ ''get_events_time''"
definition GetForksTimeName :: string where "GetForksTimeName = ''etherman_'' @ ''get_forkIDs_time''"
definition VerifyGenBlockTimeName :: string where "VerifyGenBlockTimeName = ''etherman_'' @ ''verify_genesisBlockNum_time''"

text \<open>The two calls of \<open>Register\<close>, the second only when the first returns.\<close>

definition etherman_Register :: "'v prom \<Rightarrow> ('v, unit) metrics_step" where
  "etherman_Register prom s =
     (case RegisterCounters prom [named EventCounterName ''[ETHERMAN] count processed events''] s of
        (None, s) \<Rightarrow> (None, s)
      | (Some _, s) \<Rightarrow> RegisterHistograms prom
          [named ReadAndProcessAllEventsTimeName ''[ETHERMAN] read and process all event time'',
           named ProcessAllEventTimeName ''[ETHERMAN] process all event time'',
           named ProcessSingleEventTimeName ''[ETHERMAN] process single event time'',
           named GetEventsTimeName ''[ETHERMAN] get L1 events time'',
           named GetForksTimeName ''[ETHERMAN] get forkIDs time'',
           named VerifyGenBlockTimeName ''[ETHERMAN] verify genesis block number time''] s)"

text \<open>
  \<open>seconds\<close> is the quotient of a duration in nanoseconds by \<open>time.Second\<close>, as \<open>float64\<close> has it.
\<close>

definition ReadAndProcessAllEventsTime :: "(int \<Rightarrow> 'v) \<Rightarrow> 'v prom \<Rightarrow> int \<Rightarrow> ('v, unit) metrics_step" where
  "ReadAndProcessAllEventsTime seconds prom d = HistogramObserve prom ReadAndProcessAllEventsTimeName (seconds d)"
definition ProcessAllEventTime :: "(int \<Rightarrow> 'v) \<Rightarrow> 'v prom \<Rightarrow> int \<Rightarrow> ('v, unit) metrics_step" where
  "ProcessAllEventTime seconds prom d = HistogramObserve prom ProcessAllEventTimeName (seconds d)"
definition ProcessSingleEventTime :: "(int \<Rightarrow> 'v) \<Rightarrow> 'v prom \<Rightarrow> int \<Rightarrow> ('v, unit) metrics_step" where
  "ProcessSingleEventTime seconds prom d = HistogramObserve prom ProcessSingleEventTimeName (seconds d)"
definition GetEventsTime :: "(int \<Rightarrow> 'v) \<Rightarrow> 'v prom \<Rightarrow> int \<Rightarrow> ('v, unit) metrics_step" where
  "GetEventsTime seconds prom d = HistogramObserve prom GetEventsTimeName (seconds d)"
definition GetForksTime :: "(int \<Rightarrow> 'v) \<Rightarrow> 'v prom \<Rightarrow> int \<Rightarrow> ('v, unit) metrics_step" where
  "GetForksTime seconds prom d = HistogramObserve prom GetForksTimeName (seconds d)"
definition VerifyGenBlockTime :: "(int \<Rightarrow> 'v) \<Rightarrow> 'v prom \<Rightarrow> int \<Rightarrow> ('v, unit) metrics_step" where
  "VerifyGenBlockTime seconds prom d = HistogramObserve prom VerifyGenBlockTimeName (seconds d)"
definition EventCounter :: "'v prom \<Rightarrow> ('v, unit) metrics_step" where
  "EventCounter prom = CounterInc prom EventCounterName"

definition ExecutorProcessingTimeName :: string where
  "ExecutorProcessingTimeName = ''state_'' @ ''executor_processing_time''"

definition state_Register :: "'v prom \<Rightarrow> ('v, unit) metrics_step" where
  "state_Register prom = RegisterHistogramVecs prom
     [(named ExecutorProcessingTimeName ''[STATE] processing time in executor'', [''caller''])]"

definition ExecutorProcessingTime :: "(int \<Rightarrow> 'v) \<Rightarrow> 'v prom \<Rightarrow> string \<Rightarrow> int \<Rightarrow> ('v, unit) metrics_step" where
  "ExecutorProcessingTime seconds prom caller d = HistogramVecObserve prom ExecutorProcessingTimeName caller (seconds d)"

section \<open>What the code relies on of a registerer\<close>

text \<open>
  The descriptors that are registered after some calls; \<open>base\<close> are those of other packages. A registered
  descriptor is not registered twice, and \<open>Unregister\<close> says whether there was one to remove.
\<close>

fun registered :: "(collector \<Rightarrow> 'd) \<Rightarrow> 'd set \<Rightarrow> 'v prom_history \<Rightarrow> 'd set" where
  "registered desc base [] = base"
| "registered desc base ((MustRegister c, Some b) # h) = insert (desc c) (registered desc base h)"
| "registered desc base ((Unregister c, Some True) # h) = registered desc base h - {desc c}"
| "registered desc base (_ # h) = registered desc base h"

fun updates_registered :: "(collector \<Rightarrow> 'd) \<Rightarrow> 'd set \<Rightarrow> 'v prom_history \<Rightarrow> bool" where
  "updates_registered desc base [] = True"
| "updates_registered desc base ((Update c l u, a) # h) =
     (desc c \<in> registered desc base h \<and> updates_registered desc base h)"
| "updates_registered desc base (_ # h) = updates_registered desc base h"

text \<open>The tables and the registerer agree.\<close>

definition metrics_match :: "(collector \<Rightarrow> 'd) \<Rightarrow> 'd set \<Rightarrow> 'v metrics_state \<Rightarrow> bool" where
  "metrics_match desc base s \<longleftrightarrow>
     (\<forall>k n c. metrics s k n = Some c \<longrightarrow> col_kind c = k \<and> opt_Name (col_opts c) = n \<and> desc c \<notin> base) \<and>
     (\<forall>k n c k' n' c'. metrics s k n = Some c \<longrightarrow> metrics s k' n' = Some c' \<longrightarrow> desc c = desc c' \<longrightarrow> k = k' \<and> n = n') \<and>
     registered desc base (prom_calls s) = base \<union> {d. \<exists>k n c. metrics s k n = Some c \<and> desc c = d}"

definition metrics_ok :: "(collector \<Rightarrow> 'd) \<Rightarrow> 'd set \<Rightarrow> 'v metrics_state \<Rightarrow> bool" where
  "metrics_ok desc base s \<longleftrightarrow>
     metrics_match desc base s \<and> updates_registered desc base (prom_calls s) \<and> initialized s = initOnce s \<and>
     (\<not> initOnce s \<longrightarrow> metrics s = (\<lambda>_ _. None))"

lemmas metrics_defs =
  registerGaugeIfNotExists_def unregisterGaugeIfExists_def RegisterGauges_def UnregisterGauges_def
  registerCounterIfNotExists_def unregisterCounterIfExists_def RegisterCounters_def UnregisterCounters_def
  registerCounterVecIfNotExists_def unregisterCounterVecIfExists_def RegisterCounterVecs_def
  UnregisterCounterVecs_def registerHistogramIfNotExists_def unregisterHistogramIfExists_def
  RegisterHistograms_def UnregisterHistogram_def registerHistogramVecIfNotExists_def
  unregisterHistogramVecIfExists_def RegisterHistogramVecs_def UnregisterHistogramVecs_def
  registerSummaryIfNotExists_def unregisterSummaryIfExists_def RegisterSummaries_def UnregisterSummaries_def
  GaugeSet_def GaugeInc_def GaugeDec_def CounterInc_def CounterAdd_def CounterVecInc_def CounterVecAdd_def
  HistogramObserve_def HistogramVecObserve_def

lemma each_rule:
  assumes "\<And>x s. P s \<Longrightarrow> P (snd (f x s))" "P s"
  shows "P (snd (each f xs s))"
  using assms(2)
proof (induction xs arbitrary: s)
  case (Cons x xs)
  with assms(1) [of s x] show ?case by (cases "f x s") (auto split: option.split)
qed simp

lemma register_keeps:
  "metrics s k' n \<noteq> None \<Longrightarrow> metrics (snd (register_if_not_exists prom k o_l s)) k' n \<noteq> None"
  by (auto simp: register_if_not_exists_def call_prom_def Let_def split: option.split)

lemma register_adds:
  assumes "fst (register_if_not_exists prom k o_l s) = Some ()"
  shows "metrics (snd (register_if_not_exists prom k o_l s)) k (opt_Name (fst o_l)) \<noteq> None"
proof (cases "metrics s k (opt_Name (fst o_l)) = None")
  case True
  let ?c = "\<lparr>col_id = made s, col_kind = k, col_opts = fst o_l, col_labels = snd o_l\<rparr>"
  show ?thesis
    using assms True
    by (cases "prom (prom_calls s) (Make ?c)";
        cases "prom ((Make ?c, prom (prom_calls s) (Make ?c)) # prom_calls s) (MustRegister ?c)")
      (simp_all add: register_if_not_exists_def call_prom_def Let_def)
qed (simp add: register_if_not_exists_def Let_def)

lemma each_keeps: "metrics s k' n \<noteq> None \<Longrightarrow> metrics (snd (each (register_if_not_exists prom k) os s)) k' n \<noteq> None"
  by (rule each_rule [of "\<lambda>s. metrics s k' n \<noteq> None"]) (rule register_keeps)

lemma each_adds:
  "each (register_if_not_exists prom k) os s = (Some u, s') \<Longrightarrow> o_l \<in> set os \<Longrightarrow> metrics s' k (opt_Name (fst o_l)) \<noteq> None"
proof (induction os arbitrary: s)
  case (Cons x xs)
  obtain a s1 where r: "register_if_not_exists prom k x s = (a, s1)" by fastforce
  with Cons.prems obtain v where v: "a = Some v" "each (register_if_not_exists prom k) xs s1 = (Some u, s')"
    by (cases a) auto
  show ?case
  proof (cases "o_l = x")
    case True
    have "metrics s1 k (opt_Name (fst x)) \<noteq> None"
      using register_adds [of prom k x s] r v(1) by simp
    then show ?thesis using each_keeps [of s1 k _ prom k xs] v(2) True by simp
  qed (use Cons v in auto)
qed simp

lemma each_map: "each f (map g xs) s = each (\<lambda>x. f (g x)) xs s"
  by (induction xs arbitrary: s) (auto split: prod.split option.split)

lemma each_initialized: "initialized (snd (each (register_if_not_exists prom k) os s)) = initialized s"
  by (rule each_rule [of "\<lambda>s'. initialized s' = initialized s"])
    (simp_all add: register_if_not_exists_def call_prom_def Let_def split: option.split)

text \<open>What a successful registration leaves, for options with labels and for options without.\<close>

lemma registered_all:
  assumes "each (register_if_not_exists prom k) os m = (Some u, m')"
  shows "initialized m' = initialized m" "\<forall>o_l \<in> set os. metrics m' k (opt_Name (fst o_l)) \<noteq> None"
    "\<forall>k n. metrics m k n \<noteq> None \<longrightarrow> metrics m' k n \<noteq> None"
  using each_initialized [of prom k os m] each_adds [OF assms] each_keeps [of m _ _ prom k os] assms by auto

lemmas registered_plain = registered_all [of _ _ "map (\<lambda>x. (x, [])) xs" for xs, unfolded each_map]

locale registerer =
  fixes prom :: "'v prom" and desc :: "collector \<Rightarrow> 'd" and base :: "'d set"
  assumes taken: "prom h (MustRegister c) \<noteq> None \<Longrightarrow> desc c \<notin> registered desc base h"
    and unregister: "prom h (Unregister c) = Some (desc c \<in> registered desc base h)"
begin

abbreviation ok :: "'v metrics_state \<Rightarrow> bool" where "ok \<equiv> metrics_ok desc base"

lemma ok_Init: "ok s \<Longrightarrow> ok (Init s)"
  unfolding metrics_ok_def Init_def by (cases "initOnce s") (simp_all add: metrics_match_def)

lemma match_insert:
  assumes "metrics_match desc base s" "metrics s (col_kind c) (opt_Name (col_opts c)) = None"
    "desc c \<notin> registered desc base (prom_calls s)"
    "registered desc base (prom_calls s') = insert (desc c) (registered desc base (prom_calls s))"
    "metrics s' = (metrics s)(col_kind c := (metrics s (col_kind c))(opt_Name (col_opts c) \<mapsto> c))"
  shows "metrics_match desc base s'"
proof -
  have new: "desc c' \<noteq> desc c" if "metrics s k n = Some c'" for k n c'
    using assms(1,3) that unfolding metrics_match_def by blast
  have old: "\<exists>k' n'. metrics s' k' n' = Some c'" if "metrics s k n = Some c'" for k n c'
  proof
    show "\<exists>n'. metrics s' k n' = Some c'"
      by (rule exI [of _ n]) (use that assms(2) in \<open>auto simp: assms(5)\<close>)
  qed
  have only: "c' = c \<and> k = col_kind c \<and> n = opt_Name (col_opts c) \<or> metrics s k n = Some c'" if "metrics s' k n = Some c'" for k n c'
    using that by (auto simp: assms(5) split: if_splits)
  have self: "\<exists>k n. metrics s' k n = Some c"
    by (intro exI [of _ "col_kind c"] exI [of _ "opt_Name (col_opts c)"]) (simp add: assms(5))
  have "{d. \<exists>k n c'. metrics s' k n = Some c' \<and> desc c' = d} =
      insert (desc c) {d. \<exists>k n c'. metrics s k n = Some c' \<and> desc c' = d}"
    using old only self by blast
  moreover have "desc c \<notin> base" using assms(1,3) unfolding metrics_match_def by blast
  ultimately have all: "registered desc base (prom_calls s') = base \<union> {d. \<exists>k n c. metrics s' k n = Some c \<and> desc c = d}"
    using assms(1) unfolding metrics_match_def assms(4) by simp
  have entries: "col_kind c' = k \<and> opt_Name (col_opts c') = n \<and> desc c' \<notin> base" if "metrics s' k n = Some c'" for k n c'
    using only [OF that] assms(1) \<open>desc c \<notin> base\<close> unfolding metrics_match_def by blast
  have "k = k' \<and> n = n'" if "metrics s' k n = Some c1" "metrics s' k' n' = Some c2" "desc c1 = desc c2" for k n c1 k' n' c2
  proof (cases "metrics s k n = Some c1 \<and> metrics s k' n' = Some c2")
    case True
    with that(3) assms(1) show ?thesis unfolding metrics_match_def by blast
  next
    case False
    then show ?thesis
      using only [OF that(1)] only [OF that(2)] new [of k n c1] new [of k' n' c2] that(3) by metis
  qed
  then show ?thesis
    unfolding metrics_match_def using all entries by blast
qed

lemma match_delete:
  assumes "metrics_match desc base s" "metrics s k n = Some c"
    "registered desc base (prom_calls s') = registered desc base (prom_calls s) - {desc c}"
    "metrics s' = (metrics s)(k := (metrics s k)(n := None))"
  shows "metrics_match desc base s'"
proof -
  have keep: "metrics s' k' n' = Some c' \<longleftrightarrow> metrics s k' n' = Some c' \<and> desc c' \<noteq> desc c" for k' n' c'
    using assms(1,2) unfolding metrics_match_def by (auto simp: assms(4) split: if_splits)
  have "desc c \<notin> base" using assms(1,2) unfolding metrics_match_def by blast
  then have all: "registered desc base (prom_calls s') = base \<union> {d. \<exists>k n c. metrics s' k n = Some c \<and> desc c = d}"
    using assms(1) unfolding metrics_match_def keep assms(3) by blast
  have "k = k' \<and> n = n'" if "metrics s' k n = Some c1" "metrics s' k' n' = Some c2" "desc c1 = desc c2" for k n c1 k' n' c2
    using that assms(1) unfolding metrics_match_def keep by blast
  moreover have "col_kind c' = k \<and> opt_Name (col_opts c') = n \<and> desc c' \<notin> base" if "metrics s' k n = Some c'" for k n c'
    using that assms(1) unfolding metrics_match_def keep by blast
  ultimately show ?thesis
    unfolding metrics_match_def using all by blast
qed

lemma ok_same:
  assumes "ok s" "registered desc base (prom_calls s') = registered desc base (prom_calls s)"
    "updates_registered desc base (prom_calls s') = updates_registered desc base (prom_calls s)"
    "metrics s' = metrics s" "initialized s' = initialized s" "initOnce s' = initOnce s"
  shows "ok s'"
  using assms unfolding metrics_ok_def metrics_match_def by simp

lemma ok_register:
  assumes "ok s" "initOnce s"
  shows "ok (snd (register_if_not_exists prom k o_l s))"
proof (cases "metrics s k (opt_Name (fst o_l)) = None")
  case True
  define c where "c = \<lparr>col_id = made s, col_kind = k, col_opts = fst o_l, col_labels = snd o_l\<rparr>"
  have c: "col_kind c = k" "col_opts c = fst o_l" by (simp_all add: c_def)
  define h where "h = (Make c, prom (prom_calls s) (Make c)) # prom_calls s"
  have r: "registered desc base h = registered desc base (prom_calls s)"
    "updates_registered desc base h = updates_registered desc base (prom_calls s)" by (simp_all add: h_def)
  have run: "snd (register_if_not_exists prom k o_l s) =
      (if prom (prom_calls s) (Make c) = None then s\<lparr>made := Suc (made s), prom_calls := h\<rparr>
       else if prom h (MustRegister c) = None then s\<lparr>made := Suc (made s), prom_calls := (MustRegister c, None) # h\<rparr>
       else s\<lparr>made := Suc (made s), prom_calls := (MustRegister c, prom h (MustRegister c)) # h,
              metrics := (metrics s)(k := (metrics s k)(opt_Name (fst o_l) \<mapsto> c))\<rparr>)"
    using True
    by (cases "prom (prom_calls s) (Make c)"; cases "prom h (MustRegister c)")
      (simp_all add: register_if_not_exists_def call_prom_def Let_def c_def [symmetric] h_def)
  consider (make) "prom (prom_calls s) (Make c) = None" | (refused) "prom (prom_calls s) (Make c) \<noteq> None" "prom h (MustRegister c) = None"
    | (new) b where "prom (prom_calls s) (Make c) \<noteq> None" "prom h (MustRegister c) = Some b" by fastforce
  then show ?thesis
  proof cases
    case new
    then have made: "(prom (prom_calls s) (Make c) = None) = False" by simp
    from new taken [of h c] r have "desc c \<notin> registered desc base (prom_calls s)" by simp
    then have "metrics_match desc base (snd (register_if_not_exists prom k o_l s))"
      using assms(1) True new unfolding run metrics_ok_def made
      by - (rule match_insert [of s c], simp_all add: c r)
    with assms new show ?thesis unfolding run by (simp add: metrics_ok_def r)
  next
    case make
    show ?thesis unfolding run by (rule ok_same [OF assms(1)]) (simp_all add: make r)
  next
    case refused
    show ?thesis unfolding run by (rule ok_same [OF assms(1)]) (simp_all add: refused r)
  qed
qed (use assms in \<open>simp add: register_if_not_exists_def Let_def\<close>)

lemma ok_unregister:
  assumes "ok s" "initOnce s"
  shows "ok (snd (unregister_if_exists prom k n s))"
proof (cases "metrics s k n")
  case (Some c)
  then have "desc c \<in> registered desc base (prom_calls s)"
    using assms(1) unfolding metrics_ok_def metrics_match_def by blast
  then have u: "prom (prom_calls s) (Unregister c) = Some True" using unregister by simp
  have run: "snd (unregister_if_exists prom k n s) =
      s\<lparr>prom_calls := (Unregister c, Some True) # prom_calls s, metrics := (metrics s)(k := (metrics s k)(n := None))\<rparr>"
    using Some by (simp add: unregister_if_exists_def call_prom_def u Let_def)
  have "metrics_match desc base (snd (unregister_if_exists prom k n s))"
    using assms(1) Some unfolding run metrics_ok_def by - (rule match_delete [of s k n c], simp_all)
  with assms show ?thesis unfolding run by (simp add: metrics_ok_def)
qed (use assms in \<open>simp add: unregister_if_exists_def\<close>)

lemma ok_update:
  assumes "ok s"
  shows "ok (snd (update_metric prom k n l u s))"
proof (cases "lookup_metric k n s")
  case (Some c)
  then have "desc c \<in> registered desc base (prom_calls s)"
    using assms unfolding metrics_ok_def metrics_match_def lookup_metric_def by (auto split: if_splits)
  then show ?thesis
    using assms Some
    by (cases "initialized s") (simp_all add: update_metric_def call_prom_def Let_def ok_same [of s])
qed (use assms in \<open>simp add: update_metric_def\<close>)

lemma once_register: "initOnce (snd (register_if_not_exists prom k o_l s)) = initOnce s"
  by (simp add: register_if_not_exists_def call_prom_def Let_def split: option.split)

lemma once_unregister: "initOnce (snd (unregister_if_exists prom k n s)) = initOnce s"
  by (simp add: unregister_if_exists_def call_prom_def Let_def split: option.split)

lemma ok_each:
  assumes "\<And>x s. ok s \<Longrightarrow> initOnce s \<Longrightarrow> ok (snd (f x s)) \<and> initOnce (snd (f x s))" "ok s" "initialized s"
  shows "ok (snd (each f xs s))"
  using each_rule [of "\<lambda>s. ok s \<and> initOnce s" f s xs] assms by (auto simp: metrics_ok_def)

lemma ok_serve: "ok s \<Longrightarrow> ok (snd (serve_metrics prom r s))"
  by (cases r)
    (simp_all add: ok_Init metrics_defs ok_update ok_each ok_register ok_unregister once_register once_unregister)

lemma ok_serve_all: "ok s \<Longrightarrow> ok (serve_all prom rs s)"
  unfolding serve_all_def by (induction rs arbitrary: s) (simp_all add: ok_serve)

lemma ok_start: "ok start_metrics"
  by (simp add: metrics_ok_def metrics_match_def start_metrics_def)

lemma ok_reached: "ok (serve_all prom rs start_metrics)"
  by (intro ok_serve_all ok_start)

end

section \<open>A registerer\<close>

text \<open>A collector's descriptor is its full name here; no call but a second registration panics.\<close>

definition full_name :: "collector \<Rightarrow> string list" where
  "full_name c = [opt_Namespace (col_opts c), opt_Subsystem (col_opts c), opt_Name (col_opts c)]"

fun simple_prom :: "string list set \<Rightarrow> 'v prom" where
  "simple_prom base h (MustRegister c) = (if full_name c \<in> registered full_name base h then None else Some True)"
| "simple_prom base h (Unregister c) = Some (full_name c \<in> registered full_name base h)"
| "simple_prom base h _ = Some True"

interpretation simple: registerer "simple_prom base" full_name base
  by unfold_locales (simp_all split: if_splits)

section \<open>Properties\<close>

text \<open>
  C37. After any sequence of calls of the package, panics included, what is registered beside the collectors of
  others is what the tables hold: each under its kind and name, with a descriptor of its own. No
  update ever went to a collector that was not registered at the time.
\<close>

theorem metrics_match_registerer:
  assumes "registerer prom desc base"
  shows "let s = serve_all prom rs start_metrics in
    (\<forall>d. d \<in> registered desc base (prom_calls s) \<longleftrightarrow> d \<in> base \<or> (\<exists>k n c. metrics s k n = Some c \<and> desc c = d)) \<and>
    (\<forall>k n c. metrics s k n = Some c \<longrightarrow> col_kind c = k \<and> opt_Name (col_opts c) = n \<and> desc c \<notin> base) \<and>
    (\<forall>k n c k' n' c'. metrics s k n = Some c \<longrightarrow> metrics s k' n' = Some c' \<longrightarrow> desc c = desc c' \<longrightarrow> k = k' \<and> n = n') \<and>
    updates_registered desc base (prom_calls s)"
  using registerer.ok_reached [OF assms, of rs] unfolding metrics_ok_def metrics_match_def Let_def by blast

definition sample_requests :: "nat metrics_request list" where
  "sample_requests =
     [Init_Req, RegisterGauges_Req [named ''a'' ''h'', named ''b'' ''h''], RegisterCounters_Req [named ''a'' ''h''],
      GaugeInc_Req ''a'', UnregisterGauges_Req [''b'']]"

theorem metrics_match_registerer_witness:
  "let s = serve_all (simple_prom {[''n'', '''', ''a'']}) sample_requests start_metrics in
     updates_registered full_name {[''n'', '''', ''a'']} (prom_calls s) \<and>
     metrics s GaugeKind ''a'' \<noteq> None \<and> metrics s GaugeKind ''b'' = None \<and> metrics s CounterKind ''a'' = None"
proof -
  let ?s = "serve_all (simple_prom {[''n'', '''', ''a'']}) sample_requests start_metrics"
  have "updates_registered full_name {[''n'', '''', ''a'']} (prom_calls ?s)"
    using metrics_match_registerer [OF simple.registerer_axioms, of _ sample_requests] unfolding Let_def by blast
  moreover have "metrics ?s GaugeKind ''a'' \<noteq> None \<and> metrics ?s GaugeKind ''b'' = None \<and> metrics ?s CounterKind ''a'' = None"
    by code_simp
  ultimately show ?thesis unfolding Let_def by blast
qed

text \<open>
  Without \<open>Init\<close>, as the service runs when its metrics are not enabled, no function of the package does
  anything: none panics, the tables stay empty and the library is not called.
\<close>

theorem metrics_off_no_effect:
  assumes "Init_Req \<notin> set rs"
  shows "serve_all prom rs start_metrics = start_metrics \<and>
    (\<forall>r \<in> set rs. serve_metrics prom r start_metrics = (Some (), start_metrics))"
proof -
  have one: "serve_metrics prom r start_metrics = (Some (), start_metrics)" if "r \<noteq> Init_Req" for r
    using that by (cases r) (simp_all add: metrics_defs update_metric_def start_metrics_def)
  have "serve_all prom rs start_metrics = start_metrics"
    using assms unfolding serve_all_def by (induction rs) (auto simp: one)
  with one assms show ?thesis by metis
qed

theorem metrics_off_no_effect_witness:
  "serve_all (simple_prom {}) [RegisterGauges_Req [named ''a'' ''h''], GaugeInc_Req ''a''] start_metrics =
     (start_metrics :: nat metrics_state)"
  using metrics_off_no_effect [of "[RegisterGauges_Req [named ''a'' ''h''], GaugeInc_Req ''a'']" "simple_prom {} :: nat prom"] by simp

end
