(* ===== verification/Events.thy ===== *)
theory Events
  imports Main
begin

text \<open>
  The constants of \<open>event/event.go\<close>. An event holds their texts, by which the storages and the readers of the table
  know them.
\<close>

datatype event_id =
    EventID_NodeComponentStarted | EventID_PreexecutionOOC | EventID_PreexecutionOOG | EventID_ExecutorError
  | EventID_ReprocessFullBatchOOC | EventID_ExecutorRLPError | EventID_FinalizerHalt
  | EventID_FinalizerRestart | EventID_FinalizerBreakEvenGasPriceBigDifference
  | EventID_SynchronizerRestart | EventID_SynchronizerHalt

fun event_id_text :: "event_id \<Rightarrow> string" where
  "event_id_text EventID_NodeComponentStarted = ''NODE COMPONENT STARTED''"
| "event_id_text EventID_PreexecutionOOC = ''PRE EXECUTION OOC''"
| "event_id_text EventID_PreexecutionOOG = ''PRE EXECUTION OOG''"
| "event_id_text EventID_ExecutorError = ''EXECUTOR ERROR''"
| "event_id_text EventID_ReprocessFullBatchOOC = ''REPROCESS FULL BATCH OOC''"
| "event_id_text EventID_ExecutorRLPError = ''EXECUTOR RLP ERROR''"
| "event_id_text EventID_FinalizerHalt = ''FINALIZER HALT''"
| "event_id_text EventID_FinalizerRestart = ''FINALIZER RESTART''"
| "event_id_text EventID_FinalizerBreakEvenGasPriceBigDifference = ''FINALIZER BREAK EVEN GAS PRICE BIG DIFFERENCE''"
| "event_id_text EventID_SynchronizerRestart = ''SYNCHRONIZER RESTART''"
| "event_id_text EventID_SynchronizerHalt = ''SYNCHRONIZER HALT''"

datatype event_component =
    Component_RPC | Component_Pool | Component_Sequencer | Component_Synchronizer | Component_Aggregator
  | Component_EthTxManager | Component_GasPricer | Component_Executor | Component_Broadcast
  | Component_Sequence_Sender

fun component_text :: "event_component \<Rightarrow> string" where
  "component_text Component_RPC = ''rpc''"
| "component_text Component_Pool = ''pool''"
| "component_text Component_Sequencer = ''sequencer''"
| "component_text Component_Synchronizer = ''synchronizer''"
| "component_text Component_Aggregator = ''aggregator''"
| "component_text Component_EthTxManager = ''ethtxmanager''"
| "component_text Component_GasPricer = ''gaspricer''"
| "component_text Component_Executor = ''executor''"
| "component_text Component_Broadcast = ''broadcast''"
| "component_text Component_Sequence_Sender = ''seqsender''"

datatype event_level =
    Level_Emergency | Level_Alert | Level_Critical | Level_Error | Level_Warning | Level_Notice | Level_Info
  | Level_Debug

fun level_text :: "event_level \<Rightarrow> string" where
  "level_text Level_Emergency = ''emerg''"
| "level_text Level_Alert = ''alert''"
| "level_text Level_Critical = ''crit''"
| "level_text Level_Error = ''err''"
| "level_text Level_Warning = ''warning''"
| "level_text Level_Notice = ''notice''"
| "level_text Level_Info = ''info''"
| "level_text Level_Debug = ''debug''"

definition Source_Node :: string where "Source_Node = ''node''"

lemma level_text_inj: "level_text a = level_text b \<Longrightarrow> a = b"
  by (cases a; cases b) simp_all

lemma component_text_inj: "component_text a = component_text b \<Longrightarrow> a = b"
  by (cases a; cases b) simp_all

lemma event_id_text_inj: "event_id_text a = event_id_text b \<Longrightarrow> a = b"
  by (cases a; cases b) simp_all

end
