(* ===== verification/Service.thy ===== *)
theory Service
  imports Config_File Metrics Events
begin

text \<open>
  The start of the service: \<open>cmd/run.go\<close> with what it calls of \<open>config/config.go\<close>, \<open>db/db.go\<close>, \<open>event/\<close> and
  \<open>etherman/etherman.go\<close>. Outside are the database server and the node of L1, whose state is of the type
  \<open>'w\<close>; inside is the state of the metrics.
\<close>

section \<open>The command line\<close>

text \<open>The flags of the command line.\<close>

record cli_flags =
  flag_cfg :: string
  flag_network :: string
  flag_custom_network_file :: string
  flag_migrations :: bool

section \<open>Outside\<close>

record migration =
  mig_Id :: string
  mig_Up :: "string list"
  mig_Down :: "string list"

datatype direction = Up | Down

text \<open>\<open>event.Event\<close> without \<open>Id\<close> and \<open>Json\<close>, which the service does not set.\<close>

record log_event =
  ev_ReceivedAt :: int
  ev_IPAddress :: string
  ev_Source :: string
  ev_Component :: string
  ev_Level :: string
  ev_EventID :: string
  ev_Description :: string
  ev_Data :: "byte list"

text \<open>A row of the table \<open>event\<close>; an empty address is \<open>NULL\<close>.\<close>

record event_row =
  row_ip_address :: "string option"
  row_event :: log_event

datatype read_result = ConfigRead | ConfigFileNotFound | ConfigReadError

record 'w service_lib =
  sl_ReadConfig :: "toml_file \<Rightarrow> (unit, toml_file) outcome"   \<comment> \<open>viper on the default values\<close>
  sl_UnmarshalDefault :: "toml_file \<Rightarrow> (unit, service_config) outcome"
  sl_ReadInConfig :: "(string \<times> string \<times> string) option \<Rightarrow> read_result"   \<comment> \<open>viper at a location\<close>
  sl_Unmarshal :: "(string \<times> string \<times> string) option \<Rightarrow> service_config \<Rightarrow> service_config option"
    \<comment> \<open>the file and the environment over the configuration so far\<close>
  sl_read_file :: "string \<Rightarrow> (unit, string) outcome"
  sl_unmarshal :: "string \<Rightarrow> (unit, GenesisFromJSON) outcome"
  sl_logger :: "log_config \<Rightarrow> bool"   \<comment> \<open>\<open>NewLogger\<close> returns no error\<close>
  sl_pgx_ok :: "string \<Rightarrow> bool"   \<comment> \<open>\<open>pgx.ParseConfig\<close>\<close>
  sl_pool_ok :: "string \<Rightarrow> bool"   \<comment> \<open>\<open>pgxpool.ParseConfig\<close>\<close>
  sl_connect :: "'w \<Rightarrow> string \<Rightarrow> bool \<Rightarrow> bool"   \<comment> \<open>\<open>pgxpool.ConnectConfig\<close>, with a logger or without\<close>
  sl_FindMigrations :: "migration list option"   \<comment> \<open>what the box holds\<close>
  sl_Exec :: "'w \<Rightarrow> string \<Rightarrow> direction \<Rightarrow> nat option \<times> 'w"   \<comment> \<open>\<open>migrate.Exec\<close> of the box\<close>
  sl_count :: "'w \<Rightarrow> string \<Rightarrow> int option"   \<comment> \<open>the rows of \<open>gorp_migrations\<close>\<close>
  sl_insert_event :: "'w \<Rightarrow> string \<Rightarrow> event_row \<Rightarrow> bool \<times> 'w"
  sl_Dial :: "'w \<Rightarrow> string \<Rightarrow> bool"
  sl_bind :: "address \<Rightarrow> bool"   \<comment> \<open>the generated constructors of the two contracts\<close>
  sl_contracts :: "'w \<Rightarrow> address \<Rightarrow> contracts"
  sl_RollupAddressToID :: "'w \<Rightarrow> address \<Rightarrow> address \<Rightarrow> u32 option"
  sl_now :: "'w \<Rightarrow> int"

section \<open>\<open>db/db.go\<close>\<close>

definition AggregatorMigrationName :: string where "AggregatorMigrationName = ''zkevm-aggregator-db''"

definition postgres_url :: "db_config \<Rightarrow> string" where
  "postgres_url cfg = ''postgres://'' @ db_User cfg @ '':'' @ db_Password cfg @ ''@'' @ db_Host cfg @ '':'' @
     db_Port cfg @ ''/'' @ db_Name cfg"

definition int_text :: "int \<Rightarrow> string" where
  "int_text n = (if n < 0 then ''-'' @ dec_text (nat (- n)) else dec_text (nat n))"

datatype db_error =
    ErrParseConfig | ErrConnect | ErrNoBox string | ErrFind | ErrExec | ErrCount | ErrMigrations int int

text \<open>A pool is known by its connection string.\<close>

definition NewSQLDB :: "'w service_lib \<Rightarrow> db_config \<Rightarrow> 'w \<Rightarrow> (db_error, string) outcome" where
  "NewSQLDB lib cfg w =
     (let url = postgres_url cfg @ ''?pool_max_conns='' @ int_text (db_MaxConns cfg) in
      if \<not> sl_pool_ok lib url then Err ErrParseConfig
      else if \<not> sl_connect lib w url (db_EnableLog cfg) then Err ErrConnect
      else Ok url)"

definition runMigrations :: "'w service_lib \<Rightarrow> db_config \<Rightarrow> string \<Rightarrow> direction \<Rightarrow> 'w \<Rightarrow> (db_error, unit) outcome \<times> 'w" where
  "runMigrations lib cfg packrName direction w =
     (if \<not> sl_pgx_ok lib (postgres_url cfg) then (Err ErrParseConfig, w)
      else if packrName \<noteq> AggregatorMigrationName then (Err (ErrNoBox packrName), w)
      else case sl_Exec lib w (postgres_url cfg) direction of
        (None, w) \<Rightarrow> (Err ErrExec, w)
      | (Some nMigrations, w) \<Rightarrow> (Ok (), w))"

definition RunMigrationsUp :: "'w service_lib \<Rightarrow> db_config \<Rightarrow> string \<Rightarrow> 'w \<Rightarrow> (db_error, unit) outcome \<times> 'w" where
  "RunMigrationsUp lib cfg name = runMigrations lib cfg name Up"

definition RunMigrationsDown :: "'w service_lib \<Rightarrow> db_config \<Rightarrow> string \<Rightarrow> 'w \<Rightarrow> (db_error, unit) outcome \<times> 'w" where
  "RunMigrationsDown lib cfg name = runMigrations lib cfg name Down"

definition expected_migrations :: "migration list \<Rightarrow> int" where
  "expected_migrations migrations = int (length (filter (\<lambda>m. length (mig_Up m) \<noteq> 0) migrations))"

text \<open>The direction is not used.\<close>

definition checkMigrations :: "'w service_lib \<Rightarrow> db_config \<Rightarrow> string \<Rightarrow> direction \<Rightarrow> 'w \<Rightarrow> (db_error, unit) outcome" where
  "checkMigrations lib cfg packrName direction w =
     (if \<not> sl_pgx_ok lib (postgres_url cfg) then Err ErrParseConfig
      else if packrName \<noteq> AggregatorMigrationName then Err (ErrNoBox packrName)
      else case sl_FindMigrations lib of
        None \<Rightarrow> Err ErrFind
      | Some migrations \<Rightarrow>
          (case sl_count lib w (postgres_url cfg) of
             None \<Rightarrow> Err ErrCount
           | Some actual \<Rightarrow>
               if expected_migrations migrations = actual then Ok ()
               else Err (ErrMigrations (expected_migrations migrations) actual)))"

definition CheckMigrations :: "'w service_lib \<Rightarrow> db_config \<Rightarrow> string \<Rightarrow> 'w \<Rightarrow> (db_error, unit) outcome" where
  "CheckMigrations lib cfg name = checkMigrations lib cfg name Up"

section \<open>\<open>event/\<close>\<close>

datatype event_storage = PostgresEventStorage string | NilEventStorage

definition NewPostgresEventStorage :: "'w service_lib \<Rightarrow> db_config \<Rightarrow> 'w \<Rightarrow> (db_error, event_storage) outcome" where
  "NewPostgresEventStorage lib cfg w = obind (NewSQLDB lib cfg w) (\<lambda>poolDB. Ok (PostgresEventStorage poolDB))"

text \<open>Whether the event is logged without an error; the nil storage only writes it to the log.\<close>

fun LogEvent :: "'w service_lib \<Rightarrow> event_storage \<Rightarrow> log_event \<Rightarrow> 'w \<Rightarrow> bool \<times> 'w" where
  "LogEvent lib (PostgresEventStorage pool) ev w =
     sl_insert_event lib w pool
       \<lparr>row_ip_address = (if ev_IPAddress ev \<noteq> '''' then Some (ev_IPAddress ev) else None), row_event = ev\<rparr>"
| "LogEvent lib NilEventStorage ev w = (True, w)"

section \<open>Steps\<close>

text \<open>\<open>Fail\<close> is an error that \<open>start\<close> returns, \<open>Exit\<close> a panic or \<open>log.Fatal\<close>.\<close>

datatype 'a boot_end = Done 'a | Fail | Exit

record ('w, 'v) boot =
  bs_world :: 'w
  bs_metrics :: "'v metrics_state"

type_synonym ('w, 'v, 'a) boot_step = "('w, 'v) boot \<Rightarrow> 'a boot_end \<times> ('w, 'v) boot"

definition bret :: "'a \<Rightarrow> ('w, 'v, 'a) boot_step" where "bret x s = (Done x, s)"

definition bbind :: "('w, 'v, 'a) boot_step \<Rightarrow> ('a \<Rightarrow> ('w, 'v, 'b) boot_step) \<Rightarrow> ('w, 'v, 'b) boot_step" where
  "bbind m f s = (case m s of (Done x, s) \<Rightarrow> f x s | (Fail, s) \<Rightarrow> (Fail, s) | (Exit, s) \<Rightarrow> (Exit, s))"

definition look :: "('w \<Rightarrow> 'a) \<Rightarrow> ('w, 'v, 'a) boot_step" where "look f s = (Done (f (bs_world s)), s)"

definition bexit :: "('w, 'v, 'a) boot_step" where "bexit s = (Exit, s)"

definition bfail :: "('w, 'v, 'a) boot_step" where "bfail s = (Fail, s)"

text \<open>\<open>if err != nil { log.Fatal(err) }\<close>, and a call of the metrics, whose panics are not caught.\<close>

fun fatal :: "('e, 'a) outcome \<Rightarrow> ('w, 'v, 'a) boot_step" where
  "fatal (Ok x) = bret x"
| "fatal (Err e) = bexit"
| "fatal Panic = bexit"

definition with_metrics :: "('v, unit) metrics_step \<Rightarrow> ('w, 'v, unit) boot_step" where
  "with_metrics f s =
     (case f (bs_metrics s) of (None, m) \<Rightarrow> (Exit, s\<lparr>bs_metrics := m\<rparr>) | (Some _, m) \<Rightarrow> (Done (), s\<lparr>bs_metrics := m\<rparr>))"

definition world_step :: "('w \<Rightarrow> 'a \<times> 'w) \<Rightarrow> ('w, 'v, 'a) boot_step" where
  "world_step f s = (let (x, w) = f (bs_world s) in (Done x, s\<lparr>bs_world := w\<rparr>))"

section \<open>\<open>etherman.NewClient\<close>\<close>

record client =
  cl_etherman :: etherman_client
  cl_SCAddresses :: "address list"
  cl_l1Cfg :: l1_config
  cl_URL :: string

text \<open>A failing \<open>RollupAddressToID\<close> is logged only: the identifier is \<open>0\<close> then.\<close>

definition NewClient :: "'w service_lib \<Rightarrow> 'v prom \<Rightarrow> string \<Rightarrow> l1_config \<Rightarrow> ('w, 'v, (unit, client) outcome) boot_step" where
  "NewClient lib prom url l1Config =
     bbind (look (\<lambda>w. sl_Dial lib w url)) (\<lambda>dialed.
     if \<not> dialed then bret (Err ())
     else if \<not> sl_bind lib (RollupManagerAddr l1Config) then bret (Err ())
     else
       bbind (with_metrics (etherman_Register prom)) (\<lambda>_.
       bbind (look (\<lambda>w. sl_RollupAddressToID lib w (RollupManagerAddr l1Config) (ZkEVMAddr l1Config))) (\<lambda>rollupID.
       bbind (look (\<lambda>w. sl_contracts lib w (RollupManagerAddr l1Config))) (\<lambda>contracts.
       bret (Ok \<lparr>cl_etherman = \<lparr>RollupID = (case rollupID of None \<Rightarrow> 0 | Some i \<Rightarrow> i), Contracts = contracts\<rparr>,
                cl_SCAddresses = [ZkEVMAddr l1Config, RollupManagerAddr l1Config],
                cl_l1Cfg = l1Config, cl_URL = url\<rparr>)))))"

text \<open>
  The throw-away key of \<open>BuildTrustedVerifyBatchesTxData\<close>: \<open>key\<close> is what \<open>crypto.GenerateKey\<close> gives and \<open>transactor\<close> is
  \<open>bind.NewKeyedTransactorWithChainID\<close>.
\<close>

definition generateRandomAuth :: "'key option \<Rightarrow> ('key \<Rightarrow> u64 \<Rightarrow> 'auth option) \<Rightarrow> client \<Rightarrow> (string, 'auth) outcome" where
  "generateRandomAuth key transactor etherMan =
     (case key of
        None \<Rightarrow> Err ''failed to generate a private key to estimate L1 txs''
      | Some privateKey \<Rightarrow>
          (case transactor privateKey (L1ChainID (cl_l1Cfg etherMan)) of
             None \<Rightarrow> Err ''failed to generate a fake authorization to estimate L1 txs''
           | Some auth \<Rightarrow> Ok auth))"

definition client_tx_data ::
    "'key option \<Rightarrow> ('key \<Rightarrow> u64 \<Rightarrow> 'auth option) \<Rightarrow> nat list \<Rightarrow> client \<Rightarrow> u64 \<Rightarrow> u64 \<Rightarrow> final_proof_inputs \<Rightarrow> address \<Rightarrow>
     (etherman_error, address option \<times> byte list) outcome" where
  "client_tx_data key transactor order etherMan =
     BuildTrustedVerifyBatchesTxData (case generateRandomAuth key transactor etherMan of Ok _ \<Rightarrow> True | _ \<Rightarrow> False)
       order (cl_etherman etherMan)"

text \<open>\<open>GetLatestBlockHeader\<close>: a header that is absent without an error is returned as such.\<close>

definition GetLatestBlockHeader :: "(int \<Rightarrow> ('e, 'header option) outcome) \<Rightarrow> int \<Rightarrow> ('e, 'header option) outcome" where
  "GetLatestBlockHeader HeaderByNumber LatestBlockNumber =
     (case HeaderByNumber LatestBlockNumber of
        Ok (Some header) \<Rightarrow> Ok (Some header) | Ok None \<Rightarrow> Ok None | Err e \<Rightarrow> Err e | Panic \<Rightarrow> Panic)"

section \<open>\<open>cmd/run.go\<close>\<close>

text \<open>
  \<open>config.Load\<close>: the defaults, then what viper reads, then the network file. A file that is not found is no error.
\<close>

definition read_config :: "'w service_lib \<Rightarrow> cli_flags \<Rightarrow> ('w, 'v, service_config) boot_step" where
  "read_config lib flags =
     (case Default (sl_ReadConfig lib) (sl_UnmarshalDefault lib) of
        Err _ \<Rightarrow> bfail
      | Panic \<Rightarrow> bexit
      | Ok cfg \<Rightarrow>
          let location = config_location (flag_cfg flags) in
          if sl_ReadInConfig lib location = ConfigReadError then bfail
          else case sl_Unmarshal lib location cfg of None \<Rightarrow> bfail | Some cfg \<Rightarrow> bret cfg)"

definition Load :: "'w service_lib \<Rightarrow> cli_flags \<Rightarrow> ('w, 'v, service_config) boot_step" where
  "Load lib flags =
     bbind (read_config lib flags) (\<lambda>cfg.
     case loadNetworkConfig (sl_read_file lib) (sl_unmarshal lib) (flag_network flags) (flag_custom_network_file flags) of
       None \<Rightarrow> bexit
     | Some network \<Rightarrow> bret (cfg\<lparr>sc_NetworkConfig := network\<rparr>))"

definition setupLog :: "'w service_lib \<Rightarrow> log_config \<Rightarrow> ('w, 'v, unit) boot_step" where
  "setupLog lib c = (if sl_logger lib c then bret () else bexit)"

definition runAggregatorMigrations :: "'w service_lib \<Rightarrow> db_config \<Rightarrow> ('w, 'v, unit) boot_step" where
  "runAggregatorMigrations lib c =
     bbind (world_step (RunMigrationsUp lib c AggregatorMigrationName)) fatal"

definition checkAggregatorMigrations :: "'w service_lib \<Rightarrow> db_config \<Rightarrow> ('w, 'v, unit) boot_step" where
  "checkAggregatorMigrations lib c =
     bbind (look (CheckMigrations lib c AggregatorMigrationName)) fatal"

definition newEtherman :: "'w service_lib \<Rightarrow> 'v prom \<Rightarrow> service_config \<Rightarrow> ('w, 'v, (unit, client) outcome) boot_step" where
  "newEtherman lib prom c = NewClient lib prom (sc_L1URL c) (nc_L1Config (sc_NetworkConfig c))"

record service_state =
  st_ChainID :: u64
  st_DB :: db_config
  st_pool :: string
  st_eventLog :: event_storage

definition newState ::
    "'v prom \<Rightarrow> service_config \<Rightarrow> u64 \<Rightarrow> string \<Rightarrow> event_storage \<Rightarrow> ('w, 'v, service_state) boot_step" where
  "newState prom c l2ChainID sqlDB eventLog =
     bbind (with_metrics (state_Register prom)) (\<lambda>_.
     bret \<lparr>st_ChainID = l2ChainID, st_DB = sc_DB c, st_pool = sqlDB, st_eventLog = eventLog\<rparr>)"

text \<open>What runs when \<open>start\<close> waits for a signal: the aggregator, and the two servers where enabled.\<close>

record running =
  run_Config :: service_config
  run_Client :: client
  run_State :: service_state
  run_profiling :: bool
  run_metrics :: bool

definition started_event :: "int \<Rightarrow> log_event" where
  "started_event now = \<lparr>ev_ReceivedAt = now, ev_IPAddress = '''', ev_Source = Source_Node,
     ev_Component = component_text Component_Aggregator, ev_Level = level_text Level_Info,
     ev_EventID = event_id_text EventID_NodeComponentStarted, ev_Description = ''Running aggregator'', ev_Data = []\<rparr>"

definition open_events :: "'w service_lib \<Rightarrow> service_config \<Rightarrow> ('w, 'v, event_storage) boot_step" where
  "open_events lib c =
     (if db_Name (sc_EventDB c) \<noteq> '''' then bbind (look (NewPostgresEventStorage lib (sc_EventDB c))) fatal
      else bret NilEventStorage)"

definition populate :: "u64 \<Rightarrow> service_config \<Rightarrow> service_config" where
  "populate l2ChainID c =
     (let l1 = nc_L1Config (sc_NetworkConfig c) in
      c\<lparr>sc_Aggregator := (sc_Aggregator c)\<lparr>CfgChainID := l2ChainID\<rparr>,
        sc_Contracts := \<lparr>sync_GlobalExitRootManagerAddr = GlobalExitRootManagerAddr l1,
          sync_RollupManagerAddr = RollupManagerAddr l1, sync_ZkEVMAddr = ZkEVMAddr l1\<rparr>\<rparr>)"

definition start_with :: "'w service_lib \<Rightarrow> 'v prom \<Rightarrow> cli_flags \<Rightarrow> service_config \<Rightarrow> ('w, 'v, running) boot_step" where
  "start_with lib prom flags c =
     bbind (setupLog lib (sc_Log c)) (\<lambda>_.
     bbind (if met_Enabled (sc_Metrics c) then with_metrics (\<lambda>m. (Some (), Init m)) else bret ()) (\<lambda>_.
     bbind (if \<not> flag_migrations flags then runAggregatorMigrations lib (sc_DB c) else bret ()) (\<lambda>_.
     bbind (checkAggregatorMigrations lib (sc_DB c)) (\<lambda>_.
     bbind (open_events lib c) (\<lambda>eventLog.
     bbind (look (NewSQLDB lib (sc_DB c))) (\<lambda>pool. bbind (fatal pool) (\<lambda>stateSqlDB.
     bbind (newEtherman lib prom c) (\<lambda>client. bbind (fatal client) (\<lambda>etherman.
     bbind (fatal (GetL2ChainID (cl_etherman etherman))) (\<lambda>l2ChainID.
     bbind (newState prom c l2ChainID stateSqlDB eventLog) (\<lambda>st.
     bbind (look (sl_now lib)) (\<lambda>now.
     bbind (world_step (LogEvent lib eventLog (started_event now))) (\<lambda>logged.
     if \<not> logged then bexit
     else bret \<lparr>run_Config = populate l2ChainID c, run_Client = etherman, run_State = st,
                run_profiling = met_ProfilingEnabled (sc_Metrics c), run_metrics = met_Enabled (sc_Metrics c)\<rparr>)))))))))))))"

definition start_service :: "'w service_lib \<Rightarrow> 'v prom \<Rightarrow> cli_flags \<Rightarrow> ('w, 'v, running) boot_step" where
  "start_service lib prom flags = bbind (Load lib flags) (start_with lib prom flags)"

section \<open>The HTTP servers\<close>

definition metrics_endpoint :: string where "metrics_endpoint = ''/metrics''"
definition profiling_endpoints :: "string list" where
  "profiling_endpoints = [''/debug/pprof/'', ''/debug/pprof/profile'', ''/debug/pprof/cmdline'', ''/debug/pprof/symbol'', ''/debug/pprof/trace'']"

text \<open>A server with its routes and the two timeouts, in seconds.\<close>

record http_server =
  srv_address :: string
  srv_routes :: "string list"
  srv_ReadHeaderTimeout :: int
  srv_ReadTimeout :: int

text \<open>How a server ends; none of the three ends the service.\<close>

datatype server_end = NotListening | ServerStopped | ServerClosed

text \<open>\<open>listen\<close> and \<open>accept\<close> are the network: \<open>accept\<close> says whether the server ended with \<open>ErrServerClosed\<close>.\<close>

definition run_server :: "(string \<Rightarrow> bool) \<Rightarrow> (http_server \<Rightarrow> bool) \<Rightarrow> http_server \<Rightarrow> server_end" where
  "run_server listen accept srv =
     (if \<not> listen (srv_address srv) then NotListening else if accept srv then ServerStopped else ServerClosed)"

definition startProfilingHttpServer :: "(string \<Rightarrow> bool) \<Rightarrow> (http_server \<Rightarrow> bool) \<Rightarrow> metrics_config \<Rightarrow> server_end" where
  "startProfilingHttpServer listen accept c =
     run_server listen accept
       \<lparr>srv_address = met_ProfilingHost c @ '':'' @ int_text (met_ProfilingPort c), srv_routes = profiling_endpoints,
        srv_ReadHeaderTimeout = 2 * 60, srv_ReadTimeout = 2 * 60\<rparr>"

definition startMetricsHttpServer :: "(string \<Rightarrow> bool) \<Rightarrow> (http_server \<Rightarrow> bool) \<Rightarrow> metrics_config \<Rightarrow> server_end" where
  "startMetricsHttpServer listen accept c =
     run_server listen accept
       \<lparr>srv_address = met_Host c @ '':'' @ int_text (met_Port c), srv_routes = [metrics_endpoint],
        srv_ReadHeaderTimeout = 10, srv_ReadTimeout = 10\<rparr>"

text \<open>\<open>waitSignal\<close>: the exit status at the first of the two signals; there are no functions to cancel.\<close>

datatype os_signal = Interrupt | Kill | Other_signal

fun waitSignal :: "os_signal list \<Rightarrow> int option" where
  "waitSignal [] = None"
| "waitSignal (sig # signals) = (if sig = Interrupt \<or> sig = Kill then Some 0 else waitSignal signals)"

text \<open>\<open>runAggregator\<close>: \<open>None\<close> when one of the two ends in an error or a panic, which ends the process.\<close>

definition runAggregator ::
    "'key key_lib \<Rightarrow> new_clients \<Rightarrow> keystore_config \<Rightarrow> agg_env \<Rightarrow> tables \<Rightarrow> nat \<Rightarrow> (u64 option \<times> aggregator) option" where
  "runAggregator keys clients keystore env t n =
     (case New keys clients (env_cfg env) keystore t n of
        Ok (parts, agg) \<Rightarrow> (case Start env agg of Some (Ok bookMark, agg) \<Rightarrow> Some (bookMark, agg) | _ \<Rightarrow> None)
      | _ \<Rightarrow> None)"

section \<open>\<open>version.go\<close>\<close>

text \<open>The variables are set by the linker, \<open>rt_\<close> is of the package \<open>runtime\<close>.\<close>

record build_info =
  AppVersion :: string
  GitRev :: string
  GitBranch :: string
  BuildDate :: string
  rt_Version :: string
  rt_GOOS :: string
  rt_GOARCH :: string

definition no_build_info :: "string \<Rightarrow> string \<Rightarrow> string \<Rightarrow> build_info" where
  "no_build_info version os arch = \<lparr>AppVersion = ''v0.1.0'', GitRev = ''undefined'', GitBranch = ''undefined'',
     BuildDate = ''Fri, 17 Jun 1988 01:58:00 +0200'', rt_Version = version, rt_GOOS = os, rt_GOARCH = arch\<rparr>"

definition PrintVersion :: "build_info \<Rightarrow> string" where
  "PrintVersion b = concat (map (\<lambda>l. l @ [CHR 0x0A])
     [''Version:      '' @ AppVersion b, ''Git revision: '' @ GitRev b, ''Git branch:   '' @ GitBranch b,
      ''Go version:   '' @ rt_Version b, ''Built:        '' @ BuildDate b,
      ''OS/Arch:      '' @ rt_GOOS b @ ''/'' @ rt_GOARCH b])"

text \<open>What \<open>start\<close> prints or logs of the version, which depends on the environment of the log.\<close>

definition logVersion :: "build_info \<Rightarrow> string \<times> (string \<times> string) list" where
  "logVersion b = (''Starting application'',
     [(''gitRevision'', GitRev b), (''gitBranch'', GitBranch b), (''goVersion'', rt_Version b), (''built'', BuildDate b),
      (''os/arch'', rt_GOOS b @ ''/'' @ rt_GOARCH b)])"

datatype banner = BannerText string string | BannerFields string "(string \<times> string) list" | NoBanner

definition start_banner :: "build_info \<Rightarrow> service_config \<Rightarrow> banner" where
  "start_banner b c =
     (if log_Environment (sc_Log c) = ''development'' then BannerText (PrintVersion b) ''Starting application''
      else if log_Environment (sc_Log c) = ''production'' then (case logVersion b of (msg, kv) \<Rightarrow> BannerFields msg kv)
      else NoBanner)"

section \<open>\<open>cmd/main.go\<close>\<close>

datatype command_action = VersionCmd | StartCmd

text \<open>A flag: its name, its aliases and whether it is required.\<close>

type_synonym cli_flag = "string \<times> string list \<times> bool"

definition configFileFlag :: cli_flag where "configFileFlag = (''cfg'', [''c''], True)"
definition networkFlag :: cli_flag where "networkFlag = (''network'', [''net''], True)"
definition customNetworkFlag :: cli_flag where "customNetworkFlag = (''custom-network-file'', [''net-file''], False)"

definition app_commands :: "(string \<times> command_action \<times> cli_flag list) list" where
  "app_commands =
     [(''version'', VersionCmd, []), (''run'', StartCmd, [configFileFlag, networkFlag, customNetworkFlag])]"

text \<open>What the library \<open>cli\<close> adds to every command, and to the application.\<close>

definition helpFlag :: cli_flag where "helpFlag = (''help'', [''h''], False)"
definition versionFlags :: "string list" where "versionFlags = [''--version'', ''-v'']"

text \<open>
  The library \<open>cli\<close>: a flag that is not declared and a required one that is missing are errors; \<open>String\<close> and \<open>Bool\<close> are
  empty and false for a flag that is not given, and the last value counts. The arguments are names of flags with values.
\<close>

definition flag_value :: "cli_flag list \<Rightarrow> (string \<times> string) list \<Rightarrow> string \<Rightarrow> string option" where
  "flag_value declared args name =
     (case find (\<lambda>(n, aliases, required). n = name) declared of
        None \<Rightarrow> None
      | Some (n, aliases, required) \<Rightarrow> map_option snd (find (\<lambda>(a, v). a = n \<or> a \<in> set aliases) (rev args)))"

definition flags_declared :: "cli_flag list \<Rightarrow> (string \<times> string) list \<Rightarrow> bool" where
  "flags_declared declared args \<longleftrightarrow>
     list_all (\<lambda>(a, v). list_ex (\<lambda>(n, aliases, required). a = n \<or> a \<in> set aliases) (helpFlag # declared)) args"

definition required_given :: "cli_flag list \<Rightarrow> (string \<times> string) list \<Rightarrow> bool" where
  "required_given declared args \<longleftrightarrow>
     list_all (\<lambda>(n, aliases, required). required \<longrightarrow> flag_value declared args n \<noteq> None) declared"

definition context_flags :: "cli_flag list \<Rightarrow> (string \<times> string) list \<Rightarrow> cli_flags" where
  "context_flags declared args =
     (let get = (\<lambda>name. case flag_value declared args name of None \<Rightarrow> '''' | Some v \<Rightarrow> v) in
      \<lparr>flag_cfg = get ''cfg'', flag_network = get ''network'', flag_custom_network_file = get ''custom-network-file'',
       flag_migrations = (flag_value declared args ''migrations'' = Some ''true'')\<rparr>)"

text \<open>
  What the process comes to: the text of the version, the help of the library or the service. \<open>name\<close> is the first
  argument; the help is shown for a flag of it and for a name that is no command. An error ends the process
  by \<open>log.Fatal\<close>.
\<close>

definition appName :: string where "appName = ''zkevm-aggregator''"

datatype app_end = Printed string | Help | Running running

definition main ::
    "'w service_lib \<Rightarrow> 'v prom \<Rightarrow> build_info \<Rightarrow> string \<Rightarrow> (string \<times> string) list \<Rightarrow> ('w, 'v, app_end) boot_step" where
  "main lib prom build name args s =
     (let run = (case map_of app_commands name of
            None \<Rightarrow>
              if name \<in> set versionFlags then bret (Printed (appName @ '' version '' @ AppVersion build @ [CHR 0x0A]))
              else bret Help
          | Some (act, flags) \<Rightarrow>
              if \<not> flags_declared flags args then bfail
              else if flag_value [helpFlag] args ''help'' \<noteq> None then bret Help
              else if \<not> required_given flags args then bfail
              else (case act of
                  VersionCmd \<Rightarrow> bret (Printed (PrintVersion build))
                | StartCmd \<Rightarrow> bbind (start_service lib prom (context_flags flags args)) (\<lambda>r. bret (Running r))))
      in case run s of (Fail, s) \<Rightarrow> (Exit, s) | r \<Rightarrow> r)"

section \<open>Runs\<close>

lemma bbind_Done: "bbind m f s = (Done x, s') \<longleftrightarrow> (\<exists>y s1. m s = (Done y, s1) \<and> f y s1 = (Done x, s'))"
  by (auto simp: bbind_def split: prod.splits boot_end.splits)

lemma step_Done [simp]:
  "bret x s = (Done y, s') \<longleftrightarrow> x = y \<and> s = s'"
  "look f s = (Done z, s') \<longleftrightarrow> f (bs_world s) = z \<and> s = s'"
  "\<not> bexit s = (Done y, s')" "\<not> bfail s = (Done y, s')"
  by (auto simp: bret_def look_def bexit_def bfail_def)

lemma fatal_Done [simp]: "fatal r s = (Done x, s') \<longleftrightarrow> r = Ok x \<and> s = s'"
  by (cases r) auto

lemma world_metrics: "world_step f s = (Done x, s') \<Longrightarrow> bs_metrics s' = bs_metrics s"
  by (auto simp: world_step_def split: prod.splits)

lemma metrics_Done: "with_metrics f s = (Done x, s') \<longleftrightarrow> (\<exists>u. f (bs_metrics s) = (Some u, bs_metrics s')) \<and> bs_world s' = bs_world s"
  by (cases s; cases s') (auto simp: with_metrics_def split: prod.splits option.splits)

definition names_registered :: "'v metrics_state \<Rightarrow> bool" where
  "names_registered m \<longleftrightarrow> metrics m CounterKind EventCounterName \<noteq> None \<and> metrics m HistogramKind VerifyGenBlockTimeName \<noteq> None \<and>
     metrics m HistogramVecKind ExecutorProcessingTimeName \<noteq> None"

lemma etherman_Register_on:
  assumes "etherman_Register prom m = (Some u, m')" "initialized m"
  shows "initialized m' \<and> metrics m' CounterKind EventCounterName \<noteq> None \<and> metrics m' HistogramKind VerifyGenBlockTimeName \<noteq> None"
proof -
  obtain v m1 where m1: "each (\<lambda>x. register_if_not_exists prom CounterKind (x, []))
        [named EventCounterName ''[ETHERMAN] count processed events''] m = (Some v, m1)"
      "RegisterHistograms prom
          [named ReadAndProcessAllEventsTimeName ''[ETHERMAN] read and process all event time'',
           named ProcessAllEventTimeName ''[ETHERMAN] process all event time'',
           named ProcessSingleEventTimeName ''[ETHERMAN] process single event time'',
           named GetEventsTimeName ''[ETHERMAN] get L1 events time'',
           named GetForksTimeName ''[ETHERMAN] get forkIDs time'',
           named VerifyGenBlockTimeName ''[ETHERMAN] verify genesis block number time''] m1 = (Some u, m')"
    using assms
    by (auto simp: etherman_Register_def RegisterCounters_def registerCounterIfNotExists_def [abs_def]
        split: prod.splits option.splits simp del: each.simps)
  note c = registered_plain [OF m1(1)]
  with assms(2) m1(2) have "each (\<lambda>x. register_if_not_exists prom HistogramKind (x, []))
          [named ReadAndProcessAllEventsTimeName ''[ETHERMAN] read and process all event time'',
           named ProcessAllEventTimeName ''[ETHERMAN] process all event time'',
           named ProcessSingleEventTimeName ''[ETHERMAN] process single event time'',
           named GetEventsTimeName ''[ETHERMAN] get L1 events time'',
           named GetForksTimeName ''[ETHERMAN] get forkIDs time'',
           named VerifyGenBlockTimeName ''[ETHERMAN] verify genesis block number time''] m1 = (Some u, m')"
    by (simp add: RegisterHistograms_def registerHistogramIfNotExists_def [abs_def] del: each.simps)
  note h = registered_plain [OF this]
  show ?thesis using c h assms(2) by (simp add: named_def)
qed

lemma state_Register_on:
  assumes "state_Register prom m = (Some u, m')" "initialized m"
  shows "metrics m' HistogramVecKind ExecutorProcessingTimeName \<noteq> None \<and> (\<forall>k n. metrics m k n \<noteq> None \<longrightarrow> metrics m' k n \<noteq> None)"
proof -
  have "each (register_if_not_exists prom HistogramVecKind)
      [(named ExecutorProcessingTimeName ''[STATE] processing time in executor'', [''caller''])] m = (Some u, m')"
    using assms
    by (simp add: state_Register_def RegisterHistogramVecs_def registerHistogramVecIfNotExists_def [abs_def] del: each.simps)
  from registered_all [OF this] show ?thesis by (simp add: named_def)
qed

lemma Register_off:
  "\<not> initialized m \<Longrightarrow> etherman_Register prom m = (Some (), m)" "\<not> initialized m \<Longrightarrow> state_Register prom m = (Some (), m)"
  by (simp_all add: etherman_Register_def state_Register_def metrics_defs)

lemma L2ChainID_not_0: "GetL2ChainID e = Ok n \<Longrightarrow> n \<noteq> 0"
  by (auto simp: GetL2ChainID_def split: option.splits if_splits)

lemma NewClient_Done:
  assumes "NewClient lib prom url l1 s = (Done r, s')"
  shows "bs_world s' = bs_world s"
    "r = Ok e \<Longrightarrow> cl_SCAddresses e = [ZkEVMAddr l1, RollupManagerAddr l1] \<and> cl_l1Cfg e = l1 \<and>
       RollupID (cl_etherman e) = (case sl_RollupAddressToID lib (bs_world s) (RollupManagerAddr l1) (ZkEVMAddr l1) of None \<Rightarrow> 0 | Some i \<Rightarrow> i) \<and>
       (\<exists>u. etherman_Register prom (bs_metrics s) = (Some u, bs_metrics s'))"
  using assms by (auto simp: NewClient_def bbind_Done metrics_Done split: if_splits)

lemma read_config_Done:
  "read_config lib flags s = (Done c, s') \<longleftrightarrow> s' = s \<and>
     (\<exists>cfg. Default (sl_ReadConfig lib) (sl_UnmarshalDefault lib) = Ok cfg \<and> sl_ReadInConfig lib (config_location (flag_cfg flags)) \<noteq> ConfigReadError \<and>
        sl_Unmarshal lib (config_location (flag_cfg flags)) cfg = Some c)"
  by (auto simp: read_config_def Let_def split: option.splits outcome.splits)

lemma Load_Done:
  "Load lib flags s = (Done c, s') \<longleftrightarrow> s' = s \<and>
     (\<exists>cfg network. read_config lib flags s = (Done cfg, s) \<and> c = cfg\<lparr>sc_NetworkConfig := network\<rparr> \<and>
        loadNetworkConfig (sl_read_file lib) (sl_unmarshal lib) (flag_network flags) (flag_custom_network_file flags) = Some network)"
  by (auto simp: Load_def bbind_Done read_config_Done split: option.splits)

lemma migrations_Done:
  "runAggregatorMigrations lib c s = (Done x, s') \<longleftrightarrow>
     fst (RunMigrationsUp lib c AggregatorMigrationName (bs_world s)) = Ok () \<and>
     s' = s\<lparr>bs_world := snd (RunMigrationsUp lib c AggregatorMigrationName (bs_world s))\<rparr>"
  by (auto simp: runAggregatorMigrations_def bbind_Done world_step_def split: prod.splits)

lemma check_Done:
  "checkAggregatorMigrations lib c s = (Done x, s') \<longleftrightarrow> CheckMigrations lib c AggregatorMigrationName (bs_world s) = Ok () \<and> s' = s"
  by (auto simp: checkAggregatorMigrations_def bbind_Done)

lemma open_events_Done: "open_events lib c s = (Done x, s') \<Longrightarrow> s' = s"
  by (auto simp: open_events_def bbind_Done split: if_splits)

lemma newState_Done:
  "newState prom c i pool evs s = (Done st, s') \<Longrightarrow>
     bs_world s' = bs_world s \<and> st = \<lparr>st_ChainID = i, st_DB = sc_DB c, st_pool = pool, st_eventLog = evs\<rparr> \<and>
     (\<exists>u. state_Register prom (bs_metrics s) = (Some u, bs_metrics s'))"
  by (auto simp: newState_def bbind_Done metrics_Done)

text \<open>The world after the migrations, which the check and the rest of the start see.\<close>

definition migrated :: "'w service_lib \<Rightarrow> db_config \<Rightarrow> cli_flags \<Rightarrow> 'w \<Rightarrow> (db_error, unit) outcome \<times> 'w" where
  "migrated lib c flags w =
     (if flag_migrations flags then (Ok (), w) else RunMigrationsUp lib c AggregatorMigrationName w)"

lemma exit_unless [simp]: "(if b then bexit else m) s = (Done x, s') \<longleftrightarrow> \<not> b \<and> m s = (Done x, s')"
  by simp

lemma setupLog_Done [simp]: "setupLog lib c s = (Done x, s') \<longleftrightarrow> sl_logger lib c \<and> s' = s"
  by (auto simp: setupLog_def)

lemma Load_same: "Load lib flags s = (Done c, s') \<Longrightarrow> s' = s"
  by (simp add: Load_Done)

lemma start_Done:
  assumes "start_service lib prom flags s = (Done r, s')"
  obtains c s1 s2 eventLog pool client s3 i st s4 where
    "Load lib flags s = (Done c, s)"
    "(if met_Enabled (sc_Metrics c) then with_metrics (\<lambda>m. (Some (), Init m)) else bret ()) s = (Done (), s1)"
    "(if \<not> flag_migrations flags then runAggregatorMigrations lib (sc_DB c) else bret ()) s1 = (Done (), s2)"
    "CheckMigrations lib (sc_DB c) AggregatorMigrationName (bs_world s2) = Ok ()"
    "NewClient lib prom (sc_L1URL c) (nc_L1Config (sc_NetworkConfig c)) s2 = (Done (Ok client), s3)"
    "GetL2ChainID (cl_etherman client) = Ok i"
    "newState prom c i pool eventLog s3 = (Done st, s4)"
    "world_step (LogEvent lib eventLog (started_event (sl_now lib (bs_world s4)))) s4 = (Done True, s')"
    "r = \<lparr>run_Config = populate i c, run_Client = client, run_State = st,
       run_profiling = met_ProfilingEnabled (sc_Metrics c), run_metrics = met_Enabled (sc_Metrics c)\<rparr>"
proof -
  from assms obtain c s0 where load: "Load lib flags s = (Done c, s0)" and run: "start_with lib prom flags c s0 = (Done r, s')"
    by (auto simp: start_service_def bbind_Done)
  note load [THEN Load_same, simp]
  show thesis
    using run unfolding start_with_def bbind_Done step_Done exit_unless check_Done setupLog_Done newEtherman_def fatal_Done
    by (elim exE conjE) (rule that, use load in \<open>auto dest!: open_events_Done\<close>)
qed

lemma started_checks:
  assumes "start_service lib prom flags s = (Done r, s')"
  shows "fst (migrated lib (sc_DB (run_Config r)) flags (bs_world s)) = Ok () \<and>
    CheckMigrations lib (sc_DB (run_Config r)) AggregatorMigrationName
      (snd (migrated lib (sc_DB (run_Config r)) flags (bs_world s))) = Ok ()"
  using assms
proof (rule start_Done)
  fix c s1 s2 client i st
  assume s1: "(if met_Enabled (sc_Metrics c) then with_metrics (\<lambda>m. (Some (), Init m)) else bret ()) s = (Done (), s1)"
    and s2: "(if \<not> flag_migrations flags then runAggregatorMigrations lib (sc_DB c) else bret ()) s1 = (Done (), s2)"
    and check: "CheckMigrations lib (sc_DB c) AggregatorMigrationName (bs_world s2) = Ok ()"
    and r: "r = \<lparr>run_Config = populate i c, run_Client = client, run_State = st,
       run_profiling = met_ProfilingEnabled (sc_Metrics c), run_metrics = met_Enabled (sc_Metrics c)\<rparr>"
  have "bs_world s1 = bs_world s" using s1 by (auto simp: metrics_Done split: if_splits)
  then have "fst (migrated lib (sc_DB c) flags (bs_world s)) = Ok () \<and>
      bs_world s2 = snd (migrated lib (sc_DB c) flags (bs_world s))"
    using s2 by (auto simp: migrated_def migrations_Done split: if_splits)
  then show ?thesis using check by (simp add: r populate_def Let_def)
qed

text \<open>
  C30. When the service runs, its database has been migrated unless the flag was set and has the expected number of
  migrations, the start has been logged as an event, and the aggregator is given the chain
  identifier that L1 tells, which is not \<open>0\<close>, and the contracts of the network file. The metrics of
  the etherman and of the state are registered if metrics are enabled; otherwise the library of the
  metrics has not been called.
\<close>

theorem started_service:
  assumes "start_service lib prom flags s = (Done r, s')" "bs_metrics s = start_metrics"
  shows "let c = run_Config r; l1 = nc_L1Config (sc_NetworkConfig c); w = snd (migrated lib (sc_DB c) flags (bs_world s)) in
    loadNetworkConfig (sl_read_file lib) (sl_unmarshal lib) (flag_network flags) (flag_custom_network_file flags) =
      Some (sc_NetworkConfig c) \<and>
    fst (migrated lib (sc_DB c) flags (bs_world s)) = Ok () \<and> CheckMigrations lib (sc_DB c) AggregatorMigrationName w = Ok () \<and>
    LogEvent lib (st_eventLog (run_State r)) (started_event (sl_now lib w)) w = (True, bs_world s') \<and>
    GetL2ChainID (cl_etherman (run_Client r)) = Ok (CfgChainID (sc_Aggregator c)) \<and> CfgChainID (sc_Aggregator c) \<noteq> 0 \<and>
    st_ChainID (run_State r) = CfgChainID (sc_Aggregator c) \<and>
    cl_SCAddresses (run_Client r) = [ZkEVMAddr l1, RollupManagerAddr l1] \<and>
    sc_Contracts c = \<lparr>sync_GlobalExitRootManagerAddr = GlobalExitRootManagerAddr l1,
      sync_RollupManagerAddr = RollupManagerAddr l1, sync_ZkEVMAddr = ZkEVMAddr l1\<rparr> \<and>
    (if run_metrics r then names_registered (bs_metrics s') else bs_metrics s' = start_metrics)"
proof -
  from assms(1) obtain c s1 s2 eventLog pool client s3 i st s4 where
    c: "Load lib flags s = (Done c, s)"
    and s1: "(if met_Enabled (sc_Metrics c) then with_metrics (\<lambda>m. (Some (), Init m)) else bret ()) s = (Done (), s1)"
    and s2: "(if \<not> flag_migrations flags then runAggregatorMigrations lib (sc_DB c) else bret ()) s1 = (Done (), s2)"
    and check: "CheckMigrations lib (sc_DB c) AggregatorMigrationName (bs_world s2) = Ok ()"
    and client: "NewClient lib prom (sc_L1URL c) (nc_L1Config (sc_NetworkConfig c)) s2 = (Done (Ok client), s3)"
    and i: "GetL2ChainID (cl_etherman client) = Ok i"
    and st: "newState prom c i pool eventLog s3 = (Done st, s4)"
    and logged: "world_step (LogEvent lib eventLog (started_event (sl_now lib (bs_world s4)))) s4 = (Done True, s')"
    and r: "r = \<lparr>run_Config = populate i c, run_Client = client, run_State = st,
       run_profiling = met_ProfilingEnabled (sc_Metrics c), run_metrics = met_Enabled (sc_Metrics c)\<rparr>"
    by (rule start_Done)
  let ?w = "snd (migrated lib (sc_DB c) flags (bs_world s))"
  have w1: "bs_world s1 = bs_world s" "bs_metrics s1 = (if met_Enabled (sc_Metrics c) then Init (bs_metrics s) else bs_metrics s)"
    using s1 by (auto simp: metrics_Done split: if_splits)
  have w2: "bs_metrics s2 = bs_metrics s1" "fst (migrated lib (sc_DB c) flags (bs_world s)) = Ok () \<and> bs_world s2 = ?w"
    using s2 w1 by (auto simp: migrated_def migrations_Done split: if_splits)
  note cl = NewClient_Done [OF client]
  note e = cl(2) [OF refl]
  from newState_Done [OF st] have w4: "bs_world s4 = bs_world s2"
    and st': "st_ChainID st = i" "st_eventLog st = eventLog"
    and reg: "\<exists>u. state_Register prom (bs_metrics s3) = (Some u, bs_metrics s4)" using cl(1) by auto
  have log: "LogEvent lib eventLog (started_event (sl_now lib ?w)) ?w = (True, bs_world s')"
    using logged w4 w2 by (auto simp: world_step_def split: prod.splits)
  have m: "bs_metrics s' = bs_metrics s4" using logged by (rule world_metrics)
  have metrics: "if met_Enabled (sc_Metrics c) then names_registered (bs_metrics s') else bs_metrics s' = start_metrics"
  proof (cases "met_Enabled (sc_Metrics c)")
    case True
    then have "initialized (bs_metrics s2)" by (simp add: w2 w1 assms(2) Init_def start_metrics_def)
    then obtain u v where er: "etherman_Register prom (bs_metrics s2) = (Some u, bs_metrics s3)"
      "state_Register prom (bs_metrics s3) = (Some v, bs_metrics s4)" "initialized (bs_metrics s2)" using e reg by blast
    from etherman_Register_on [OF er(1,3)] state_Register_on [OF er(2)] show ?thesis
      using True unfolding names_registered_def m by auto
  next
    case False
    then have "\<not> initialized (bs_metrics s2)" "bs_metrics s2 = start_metrics" by (simp_all add: w2 w1 assms(2) start_metrics_def)
    then show ?thesis using False e reg Register_off [of "bs_metrics s2" prom] by (auto simp: m)
  qed
  show ?thesis
    using c check w2 i L2ChainID_not_0 [OF i] st' log e metrics
    by (auto simp: r populate_def Let_def Load_Done)
qed

section \<open>A sample start\<close>

text \<open>The world is the number of rows of \<open>gorp_migrations\<close>.\<close>

definition sample_db :: db_config where
  "sample_db = \<lparr>db_Name = ''aggregator'', db_User = ''user'', db_Password = ''pw'', db_Host = ''db'', db_Port = ''5432'',
     db_EnableLog = False, db_MaxConns = 200\<rparr>"

definition sample_service :: service_config where
  "sample_service = \<lparr>sc_Aggregator = sample_cfg, sc_DB = sample_db,
     sc_Log = \<lparr>log_Environment = ''development'', log_Level = ''info'', log_Outputs = []\<rparr>, sc_L1URL = ''l1'',
     sc_Contracts = \<lparr>sync_GlobalExitRootManagerAddr = 0, sync_RollupManagerAddr = 0, sync_ZkEVMAddr = 0\<rparr>,
     sc_NetworkConfig = zero_network,
     sc_Metrics = \<lparr>met_Host = '''', met_Port = 1, met_Enabled = True, met_ProfilingHost = '''', met_ProfilingPort = 2,
       met_ProfilingEnabled = False\<rparr>, sc_EventDB = sample_db\<lparr>db_Name := ''''\<rparr>\<rparr>"

definition sample_service_lib :: "nat service_lib" where
  "sample_service_lib = \<lparr>sl_ReadConfig = Ok, sl_UnmarshalDefault = (\<lambda>_. Ok sample_service), sl_ReadInConfig = (\<lambda>_. ConfigRead),
     sl_Unmarshal = (\<lambda>_ _. Some sample_service), sl_read_file = (\<lambda>_. Ok ''{}''),
     sl_unmarshal = (\<lambda>_. Ok sample_json), sl_logger = (\<lambda>_. True), sl_pgx_ok = (\<lambda>_. True), sl_pool_ok = (\<lambda>_. True),
     sl_connect = (\<lambda>_ _ _. True), sl_FindMigrations = Some [\<lparr>mig_Id = ''0001.sql'', mig_Up = [''CREATE''], mig_Down = []\<rparr>],
     sl_Exec = (\<lambda>w _ _. (Some (1 - w), 1)), sl_count = (\<lambda>w _. Some (int w)), sl_insert_event = (\<lambda>w _ _. (True, w)),
     sl_Dial = (\<lambda>_ _. True), sl_bind = (\<lambda>_. True), sl_contracts = (\<lambda>_ _. Contracts sample_etherman),
     sl_RollupAddressToID = (\<lambda>_ _ _. Some 1), sl_now = (\<lambda>_. 1700000000)\<rparr>"

definition sample_flags :: cli_flags where
  "sample_flags = \<lparr>flag_cfg = ''node.toml'', flag_network = ''custom'', flag_custom_network_file = ''f'', flag_migrations = False\<rparr>"

definition fresh :: "(nat, nat) boot" where "fresh = \<lparr>bs_world = 0, bs_metrics = start_metrics\<rparr>"

definition sample_loaded :: service_config where
  "sample_loaded = sample_service\<lparr>sc_NetworkConfig := (case LoadGenesisFromJSONString (\<lambda>_. Ok sample_json :: (unit, _) outcome) ''{}'' of
     Ok n \<Rightarrow> n | _ \<Rightarrow> zero_network)\<rparr>"

lemma sample_load: "Load sample_service_lib sample_flags s = (Done sample_loaded, s)"
  by (simp add: Load_Done read_config_Done sample_loaded_def Default_def)
    (simp add: sample_service_lib_def sample_flags_def loadNetworkConfig_def LoadGenesisFileAsString_def
      LoadGenesisFromJSONString_def sample_json_def)

lemma sample_start: "\<exists>r s'. start_service sample_service_lib (simple_prom {}) sample_flags fresh = (Done r, s') \<and> run_metrics r"
proof -
  have "case start_with sample_service_lib (simple_prom {}) sample_flags sample_loaded fresh of (Done r, s') \<Rightarrow> run_metrics r | _ \<Rightarrow> False"
    by code_simp
  then show ?thesis by (auto simp: start_service_def bbind_Done sample_load split: prod.splits boot_end.splits)
qed

theorem started_service_witness:
  "\<exists>r s'. start_service sample_service_lib (simple_prom {}) sample_flags fresh = (Done r, s') \<and> names_registered (bs_metrics s')"
proof -
  obtain r s' where r: "start_service sample_service_lib (simple_prom {}) sample_flags fresh = (Done r, s')" "run_metrics r"
    using sample_start by blast
  have "bs_metrics fresh = start_metrics" by (simp add: fresh_def)
  from started_service [OF r(1) this] r show ?thesis unfolding Let_def by auto
qed

text \<open>
  After a migration that succeeded, the check of the migrations succeeds exactly if every migration has a part
  that goes up: \<open>sql-migrate\<close> keeps a row for each migration of the box, and the check counts those
  with such a part.
\<close>

theorem check_after_migrations:
  assumes "sl_FindMigrations lib = Some migrations"
    "\<forall>w w' n. sl_Exec lib w (postgres_url c) Up = (Some n, w') \<longrightarrow> sl_count lib w' (postgres_url c) = Some (int (length migrations))"
    "runAggregatorMigrations lib c s = (Done (), s1)"
  shows "checkAggregatorMigrations lib c s1 = (Done (), s1) \<longleftrightarrow> (\<forall>m \<in> set migrations. mig_Up m \<noteq> [])"
proof -
  have "sl_count lib (bs_world s1) (postgres_url c) = Some (int (length migrations)) \<and> sl_pgx_ok lib (postgres_url c)"
    using assms(2,3)
    by (auto simp: migrations_Done RunMigrationsUp_def runMigrations_def split: prod.splits option.splits if_splits)
  moreover have "length (filter P xs) = length xs \<longleftrightarrow> (\<forall>x \<in> set xs. P x)" for P and xs :: "migration list"
    by (metis filter_True length_filter_less less_irrefl)
  ultimately show ?thesis
    using assms(1) by (auto simp: check_Done CheckMigrations_def checkMigrations_def expected_migrations_def split: if_splits)
qed

theorem check_after_migrations_witness:
  "checkAggregatorMigrations sample_service_lib sample_db (fresh\<lparr>bs_world := 1\<rparr>) = (Done (), fresh\<lparr>bs_world := 1\<rparr>)"
proof -
  have f: "sl_FindMigrations sample_service_lib = Some [\<lparr>mig_Id = ''0001.sql'', mig_Up = [''CREATE''], mig_Down = []\<rparr>]"
    by (simp add: sample_service_lib_def)
  have r: "runAggregatorMigrations sample_service_lib sample_db fresh = (Done (), fresh\<lparr>bs_world := 1\<rparr>)"
    by (simp add: migrations_Done RunMigrationsUp_def runMigrations_def sample_service_lib_def AggregatorMigrationName_def)
  show ?thesis
    using check_after_migrations [OF f _ r] by (simp add: sample_service_lib_def)
qed

text \<open>
  C31. A service that was started from the command line has run the migrations: the flag that would skip them is read by
  \<open>start\<close>, but it is not one that the command declares, and to give it is an error.
\<close>

theorem command_line_always_migrates:
  assumes "main lib prom build ''run'' args s = (Done (Running r), s')"
  shows "fst (RunMigrationsUp lib (sc_DB (run_Config r)) AggregatorMigrationName (bs_world s)) = Ok () \<and>
    CheckMigrations lib (sc_DB (run_Config r)) AggregatorMigrationName
      (snd (RunMigrationsUp lib (sc_DB (run_Config r)) AggregatorMigrationName (bs_world s))) = Ok () \<and>
    (\<forall>v. main lib prom build ''run'' ((''migrations'', v) # args) s = (Exit, s))"
proof -
  let ?flags = "[configFileFlag, networkFlag, customNetworkFlag]"
  have cmd: "map_of app_commands ''run'' = Some (StartCmd, ?flags)" by (simp add: app_commands_def)
  obtain s1 where start: "start_service lib prom (context_flags ?flags args) s = (Done r, s1)"
    using assms by (auto simp: main_def cmd bbind_Done split: if_splits prod.splits boot_end.splits)
  have "\<not> flag_migrations (context_flags ?flags args)"
    by (simp add: context_flags_def Let_def flag_value_def configFileFlag_def networkFlag_def customNetworkFlag_def)
  moreover have "\<not> flags_declared ?flags ((''migrations'', v) # args)" for v
    by (simp add: flags_declared_def helpFlag_def configFileFlag_def networkFlag_def customNetworkFlag_def)
  then have "main lib prom build ''run'' ((''migrations'', v) # args) s = (Exit, s)" for v
    by (simp add: main_def cmd bfail_def)
  ultimately show ?thesis
    using started_checks [OF start] by (simp add: migrated_def)
qed

theorem command_line_always_migrates_witness:
  "fst (RunMigrationsUp sample_service_lib sample_db AggregatorMigrationName (0 :: nat)) = Ok ()"
proof -
  let ?args = "[(''c'', ''node.toml''), (''network'', ''custom''), (''net-file'', ''f'')]"
  obtain r s' where r: "start_service sample_service_lib (simple_prom {} :: nat prom) sample_flags fresh = (Done r, s')"
    using sample_start by blast
  have flags: "context_flags [configFileFlag, networkFlag, customNetworkFlag] ?args = sample_flags"
    "flags_declared [configFileFlag, networkFlag, customNetworkFlag] ?args"
    "required_given [configFileFlag, networkFlag, customNetworkFlag] ?args" "flag_value [helpFlag] ?args ''help'' = None"
    by (simp_all add: context_flags_def flags_declared_def required_given_def helpFlag_def flag_value_def configFileFlag_def networkFlag_def customNetworkFlag_def sample_flags_def Let_def)
  have "main sample_service_lib (simple_prom {}) (no_build_info ''go1.21'' ''linux'' ''amd64'') ''run'' ?args fresh = (Done (Running r), s')"
    using r by (simp add: main_def app_commands_def flags bbind_def bret_def)
  from command_line_always_migrates [OF this]
  have "fst (RunMigrationsUp sample_service_lib (sc_DB (run_Config r)) AggregatorMigrationName 0) = Ok ()"
    by (simp add: fresh_def)
  then show ?thesis
    by (simp add: RunMigrationsUp_def runMigrations_def sample_service_lib_def)
qed

end
