(* ===== verification/Token_Amount.thy ===== *)
theory Token_Amount
  imports Prelude Complex_Main "HOL-Library.Log_Nat"
begin

text \<open>
  \<open>TokenAmountWithDecimals.UnmarshalText\<close> (\<open>aggregator/config.go\<close>): an amount of tokens read as a \<open>big.Float\<close> of 64
  bits and turned into the smallest unit. Values are rationals; the rounding of \<open>math/big\<close>, to the
  nearest value and to the even one of two, is written out. Exponents beyond the 32 bits of \<open>big.Float\<close> are left
  aside. The text is rounded once: \<open>SetString\<close> does so when its digits fit 64 bits and its power of five 128, and is
  otherwise off by a last bit.
\<close>

section \<open>Rounding\<close>

definition pow2 :: "int \<Rightarrow> rat" where
  "pow2 k = (if 0 \<le> k then 2 ^ nat k else 1 / 2 ^ nat (- k))"

text \<open>The largest \<open>k\<close> with \<open>2 ^ k \<le> \<bar>x\<bar>\<close>.\<close>

definition exponent2 :: "rat \<Rightarrow> int" where
  "exponent2 x =
     (let (n, d) = quotient_of \<bar>x\<bar>; k = bitlen n - bitlen d in if pow2 k \<le> \<bar>x\<bar> then k else k - 1)"

definition nearest_even :: "rat \<Rightarrow> int" where
  "nearest_even q =
     (let f = \<lfloor>q\<rfloor>; r = q - of_int f in if r > 1 / 2 \<or> r = 1 / 2 \<and> odd f then f + 1 else f)"

definition round_prec :: "nat \<Rightarrow> rat \<Rightarrow> rat" where
  "round_prec prec x =
     (if x = 0 then 0
      else let s = pow2 (exponent2 x - int prec + 1) in sgn x * (of_int (nearest_even (\<bar>x\<bar> / s)) * s))"

section \<open>\<open>UnmarshalText\<close>\<close>

datatype big_float = Finite rat | Infinite

definition TenToThePowerOf18 :: int where "TenToThePowerOf18 = 1000000000000000000"

text \<open>
  \<open>scan\<close> gives the value that a text denotes, before it is rounded to the 64 bits of a new \<open>Float\<close>. A product
  has the larger precision of its factors; that of \<open>coin\<close> is 64 as well. \<open>Int\<close> truncates, and leaves its
  argument alone for an infinite value.
\<close>

definition UnmarshalText :: "(string \<Rightarrow> big_float option) \<Rightarrow> string \<Rightarrow> (unit, int) outcome" where
  "UnmarshalText scan data =
     (case scan data of
        None \<Rightarrow> Err ()
      | Some Infinite \<Rightarrow> Ok 0
      | Some (Finite x) \<Rightarrow>
          let amount = round_prec 64 x;
              coin = round_prec 64 (of_int TenToThePowerOf18);
              bigval = round_prec 64 (amount * coin)
          in Ok (if 0 \<le> bigval then \<lfloor>bigval\<rfloor> else \<lceil>bigval\<rceil>))"

section \<open>Accuracy\<close>

lemma pow2_pos: "0 < pow2 k" by (simp add: pow2_def)

lemma pow2_powi: "pow2 k = 2 powi k"
  by (simp add: pow2_def power_int_def inverse_eq_divide power_one_over)

lemma pow2_add: "pow2 (j + k) = pow2 j * pow2 k"
  by (simp add: pow2_powi power_int_add)

lemma pow2_less: "pow2 j < pow2 k \<Longrightarrow> j < k"
  by (rule ccontr) (use power_int_increasing [of k j "2 :: rat"] in \<open>simp add: pow2_powi\<close>)

lemma bitlen_pow2:
  assumes "0 < n"
  shows "pow2 (bitlen n - 1) \<le> of_int n" "of_int n < pow2 (bitlen n)"
proof -
  have "2 ^ nat (bitlen n - 1) \<le> n" "n < 2 ^ nat (bitlen n)" using bitlen_bounds [OF assms] by auto
  then have "(2 :: rat) ^ nat (bitlen n - 1) \<le> of_int n" "of_int n < (2 :: rat) ^ nat (bitlen n)"
    by (metis of_int_le_iff of_int_power of_int_numeral, metis of_int_less_iff of_int_power of_int_numeral)
  moreover have "1 \<le> bitlen n" using assms bitlen_nonneg [of n] bitlen_eq_zero_iff [of n] by linarith
  ultimately show "pow2 (bitlen n - 1) \<le> of_int n" "of_int n < pow2 (bitlen n)"
    by (simp_all add: pow2_def)
qed

lemma exponent2_bounds:
  assumes "x \<noteq> 0"
  shows "pow2 (exponent2 x) \<le> \<bar>x\<bar>" "\<bar>x\<bar> < pow2 (exponent2 x + 1)"
proof -
  obtain n d where q: "quotient_of \<bar>x\<bar> = (n, d)" by fastforce
  then have d: "0 < d" and x: "\<bar>x\<bar> = of_int n / of_int d"
    using quotient_of_denom_pos quotient_of_div by blast+
  have "0 < (of_int n :: rat)" using assms d x by (metis of_int_0_less_iff zero_less_abs_iff zero_less_divide_iff less_asym)
  then have n: "0 < n" by simp
  have "pow2 (bitlen n - 1) / pow2 (bitlen d) \<le> of_int n / of_int d"
    using bitlen_pow2 [OF n] bitlen_pow2 [OF d] d n pow2_pos by (intro frac_le) auto
  moreover have "of_int n / of_int d < pow2 (bitlen n) / pow2 (bitlen d - 1)"
    using bitlen_pow2 [OF n] bitlen_pow2 [OF d] d n pow2_pos by (intro frac_less) auto
  ultimately have "pow2 (bitlen n - bitlen d - 1) \<le> \<bar>x\<bar>" "\<bar>x\<bar> < pow2 (bitlen n - bitlen d + 1)"
    unfolding x by (simp_all add: pow2_powi power_int_diff [symmetric] algebra_simps)
  then show "pow2 (exponent2 x) \<le> \<bar>x\<bar>" "\<bar>x\<bar> < pow2 (exponent2 x + 1)"
    using q by (auto simp: exponent2_def Let_def not_le)
qed

lemma exponent2_unique: "pow2 k \<le> \<bar>x\<bar> \<Longrightarrow> \<bar>x\<bar> < pow2 (k + 1) \<Longrightarrow> exponent2 x = k"
proof -
  assume k: "pow2 k \<le> \<bar>x\<bar>" "\<bar>x\<bar> < pow2 (k + 1)"
  with pow2_pos [of k] have "x \<noteq> 0" by auto
  from exponent2_bounds [OF this] k have "k < exponent2 x + 1" "exponent2 x < k + 1"
    by (metis pow2_less le_less_trans)+
  then show ?thesis by simp
qed

text \<open>Rounding commutes with a power of two, as exponents have no bounds here.\<close>

lemma round_prec_scale: "round_prec prec (x * pow2 k) = round_prec prec x * pow2 k"
proof (cases "x = 0")
  case False
  have "exponent2 (x * pow2 k) = exponent2 x + k"
    using exponent2_bounds [OF False] pow2_pos [of k]
    by (intro exponent2_unique) (simp_all add: abs_mult pow2_add ac_simps)
  then have "pow2 (exponent2 (x * pow2 k) - int prec + 1) = pow2 (exponent2 x - int prec + 1) * pow2 k"
    by (simp add: pow2_add [symmetric] algebra_simps)
  with pow2_pos [of k] False show ?thesis
    by (simp add: round_prec_def Let_def abs_mult sgn_mult)
qed (simp add: round_prec_def)

lemma nearest_even_close: "\<bar>of_int (nearest_even q) - q\<bar> \<le> 1 / 2"
proof -
  have "of_int \<lfloor>q\<rfloor> \<le> q" "q < of_int \<lfloor>q\<rfloor> + 1" by linarith+
  then show ?thesis by (auto simp: nearest_even_def Let_def)
qed

lemma round_prec_close: "\<bar>round_prec prec x - x\<bar> \<le> \<bar>x\<bar> / 2 ^ prec"
proof (cases "x = 0")
  case False
  let ?s = "pow2 (exponent2 x - int prec + 1)"
  have s: "?s = pow2 (exponent2 x) * 2 / 2 ^ prec"
    by (simp add: pow2_powi power_int_diff power_int_add)
  have "\<bar>of_int (nearest_even (\<bar>x\<bar> / ?s)) * ?s - \<bar>x\<bar>\<bar> = \<bar>of_int (nearest_even (\<bar>x\<bar> / ?s)) - \<bar>x\<bar> / ?s\<bar> * ?s"
    using pow2_pos [of "exponent2 x - int prec + 1"] by (simp add: abs_mult_pos field_simps)
  also have "\<dots> \<le> 1 / 2 * ?s"
    using nearest_even_close pow2_pos by (intro mult_right_mono) (auto intro: less_imp_le)
  also have "\<dots> = pow2 (exponent2 x) / 2 ^ prec" by (simp add: s)
  also have "\<dots> \<le> \<bar>x\<bar> / 2 ^ prec" using exponent2_bounds [OF False] by (intro divide_right_mono) auto
  finally have "\<bar>of_int (nearest_even (\<bar>x\<bar> / ?s)) * ?s - \<bar>x\<bar>\<bar> \<le> \<bar>x\<bar> / 2 ^ prec" .
  moreover have "round_prec prec x - x = sgn x * (of_int (nearest_even (\<bar>x\<bar> / ?s)) * ?s - \<bar>x\<bar>)"
    using False by (simp add: round_prec_def Let_def right_diff_distrib sgn_mult_abs)
  ultimately show ?thesis using False by (simp add: abs_mult)
qed (simp add: round_prec_def)

lemma coin_exact: "round_prec 64 (of_int TenToThePowerOf18) = of_int TenToThePowerOf18"
  by code_simp

lemma trunc_close: "\<bar>of_int (if 0 \<le> b then \<lfloor>b\<rfloor> else \<lceil>b\<rceil>) - b\<bar> < (1 :: rat)"
  by (auto simp: abs_if) linarith+

lemma product_close:
  fixes a x b c e :: rat
  assumes "\<bar>a - x\<bar> \<le> \<bar>x\<bar> * e" "\<bar>b - a * c\<bar> \<le> \<bar>a * c\<bar> * e" "0 \<le> e" "e \<le> 1"
  shows "\<bar>b - x * c\<bar> \<le> \<bar>x * c\<bar> * (4 * e)"
proof -
  have "\<bar>a * c - x * c\<bar> = \<bar>a - x\<bar> * \<bar>c\<bar>" by (metis abs_mult left_diff_distrib)
  also have "\<dots> \<le> \<bar>x\<bar> * e * \<bar>c\<bar>" using assms(1) by (intro mult_right_mono) auto
  finally have ac: "\<bar>a * c - x * c\<bar> \<le> \<bar>x * c\<bar> * e" by (simp add: abs_mult mult.commute mult.left_commute)
  have "\<bar>x * c\<bar> * e \<le> \<bar>x * c\<bar> * 1" using assms(4) by (intro mult_left_mono) auto
  with ac have "\<bar>a * c\<bar> \<le> 2 * \<bar>x * c\<bar>" by linarith
  then have "\<bar>a * c\<bar> * e \<le> 2 * \<bar>x * c\<bar> * e" using assms(3) by (intro mult_right_mono)
  with assms(2) ac have "\<bar>b - x * c\<bar> \<le> 3 * (\<bar>x * c\<bar> * e)" by linarith
  moreover have "0 \<le> \<bar>x * c\<bar> * e" using assms(3) by (intro mult_nonneg_nonneg) auto
  ultimately show ?thesis by linarith
qed

text \<open>
  C35. The amount read is the one that the text denotes, in units of 10 to the -18, but for less than one unit and
  a part in \<open>2 ^ 62\<close>.
\<close>

theorem token_amount_accuracy:
  assumes "scan text = Some (Finite x)"
  shows "\<exists>r. UnmarshalText scan text = Ok r \<and> \<bar>of_int r - x * 10 ^ 18\<bar> < 1 + \<bar>x * 10 ^ 18\<bar> / 2 ^ 62"
proof -
  let ?C = "10 ^ 18 :: rat"
  let ?a = "round_prec 64 x" let ?b = "round_prec 64 (?a * ?C)"
  have c: "round_prec 64 (of_int TenToThePowerOf18) = ?C" using coin_exact by (simp add: TenToThePowerOf18_def)
  have "\<bar>?b - x * ?C\<bar> \<le> \<bar>x * ?C\<bar> * (4 * (1 / 2 ^ 64))"
    using round_prec_close [of 64 x] round_prec_close [of 64 "?a * ?C"] by (intro product_close) auto
  then have "\<bar>?b - x * ?C\<bar> \<le> \<bar>x * ?C\<bar> / 2 ^ 62" by simp
  then have "\<bar>of_int (if 0 \<le> ?b then \<lfloor>?b\<rfloor> else \<lceil>?b\<rceil>) - x * ?C\<bar> < 1 + \<bar>x * ?C\<bar> / 2 ^ 62"
    using trunc_close [of ?b] by linarith
  moreover have "UnmarshalText scan text = Ok (if 0 \<le> ?b then \<lfloor>?b\<rfloor> else \<lceil>?b\<rceil>)"
    unfolding UnmarshalText_def assms option.case big_float.case Let_def c ..
  ultimately show ?thesis by blast
qed

lemma halved: "(2 :: rat) ^ k / 2 ^ 14 \<le> 2 ^ (k - 14) \<and> (2 :: rat) ^ (k - 14) < 2 ^ k / 2 ^ 14 + 1"
proof (cases "14 \<le> k")
  case True
  then have "(2 :: rat) ^ k = 2 ^ (k - 14) * 2 ^ 14" by (metis le_add_diff_inverse2 power_add)
  then show ?thesis by simp
next
  case False
  then have "(2 :: rat) ^ k \<le> 2 ^ 14" "(0 :: rat) < 2 ^ k" by (intro power_increasing) auto
  with False show ?thesis by simp
qed

text \<open>
  C36. The result is not the nearest amount. The amounts \<open>0.001\<close>, \<open>0.002\<close>, \<open>0.004\<close> and so on are read too low, though all are
  whole numbers of units: the 64 bits nearest to them are below, and the product is truncated. One unit
  is lost up to \<open>0.001 * 2 ^ 14\<close>, and then twice as many with each doubling.
\<close>

theorem token_amount_loses_units:
  assumes "scan text = Some (Finite (2 ^ k / 1000))"
  shows "UnmarshalText scan text = Ok (2 ^ k * 10 ^ 15 - 2 ^ (k - 14))"
proof -
  let ?C = "of_int TenToThePowerOf18 :: rat" and ?p = "pow2 (int k)"
  have p: "2 ^ k / 1000 = 1 / 1000 * ?p" by (simp add: pow2_def)
  have "round_prec 64 (round_prec 64 (1 / 1000) * ?C) = 10 ^ 15 - 1 / 2 ^ 14" by code_simp
  moreover have "round_prec 64 (round_prec 64 (1 / 1000 * ?p) * ?C) = round_prec 64 (round_prec 64 (1 / 1000) * ?C) * ?p"
    using round_prec_scale [of 64 "1 / 1000" "int k"] round_prec_scale [of 64 "round_prec 64 (1 / 1000) * ?C" "int k"]
    by (simp add: ac_simps)
  ultimately have b: "round_prec 64 (round_prec 64 (1 / 1000 * ?p) * ?C) = of_int (2 ^ k * 10 ^ 15) - 2 ^ k / 2 ^ 14"
    by (simp add: pow2_def algebra_simps)
  have "\<lfloor>of_int (2 ^ k * 10 ^ 15) - 2 ^ k / 2 ^ 14 :: rat\<rfloor> = 2 ^ k * 10 ^ 15 - 2 ^ (k - 14)"
    by (rule floor_unique) (use halved [of k] in simp_all)
  moreover have "(2 :: rat) ^ k / 2 ^ 14 \<le> of_int (2 ^ k * 10 ^ 15)" by simp
  ultimately show ?thesis
    unfolding UnmarshalText_def assms option.case big_float.case Let_def coin_exact p b by simp
qed

theorem token_amount_accuracy_witness:
  "\<exists>r. UnmarshalText (\<lambda>_. Some (Finite (11 / 10))) ''1.1'' = Ok r \<and> \<bar>of_int r - (11 / 10) * 10 ^ 18\<bar> < (2 :: rat)"
  using token_amount_accuracy [of "\<lambda>_. Some (Finite (11 / 10))" "''1.1''" "11 / 10"] by fastforce

theorem token_amount_loses_units_witness:
  "UnmarshalText (\<lambda>_. Some (Finite (1024 / 1000))) ''1.024'' = Ok 1023999999999999999 \<and>
   UnmarshalText (\<lambda>_. Some (Finite (2 ^ 20 / 1000))) ''1048.576'' = Ok 1048575999999999999936"
  using token_amount_loses_units [of "\<lambda>_. Some (Finite (1024 / 1000))" "''1.024''" 10]
    token_amount_loses_units [of "\<lambda>_. Some (Finite (2 ^ 20 / 1000))" "''1048.576''" 20] by simp

end
