(* ===== verification/Durations.thy ===== *)
theory Durations
  imports Prover Token_Amount
begin

text \<open>
  Durations as the configuration writes them (\<open>config/types/duration.go\<close>): \<open>UnmarshalText\<close> is
  \<open>time.ParseDuration\<close>, of which the digits, the units, the checks against overflow and the arithmetic on
  fractions in \<open>float64\<close> are written out. A text is a list of bytes; a duration is in nanoseconds.
\<close>

section \<open>\<open>time.ParseDuration\<close>\<close>

datatype duration_error = ErrInvalidDuration | ErrMissingUnit | ErrUnknownUnit string

definition digit :: "char \<Rightarrow> nat option" where
  "digit c = Option.bind (hex_digit_val c) (\<lambda>d. if d < 10 then Some d else None)"

text \<open>\<open>leadingInt\<close>: the number and the rest, or an error when the number exceeds \<open>2 ^ 63\<close>.\<close>

fun leadingInt :: "nat \<Rightarrow> string \<Rightarrow> (nat \<times> string) option" where
  "leadingInt x [] = Some (x, [])"
| "leadingInt x (c # s) =
     (case digit c of
        None \<Rightarrow> Some (x, c # s)
      | Some d \<Rightarrow>
          if x > 2 ^ 63 div 10 then None
          else let x = x * 10 + d in if x > 2 ^ 63 then None else leadingInt x s)"

text \<open>
  \<open>leadingFraction\<close>: digits that no longer fit are skipped. The scale is a \<open>float64\<close>, which has 53 bits.
\<close>

fun leadingFraction :: "bool \<Rightarrow> nat \<Rightarrow> rat \<Rightarrow> string \<Rightarrow> nat \<times> rat \<times> string" where
  "leadingFraction overflow x scale [] = (x, scale, [])"
| "leadingFraction overflow x scale (c # s) =
     (case digit c of
        None \<Rightarrow> (x, scale, c # s)
      | Some d \<Rightarrow>
          if overflow then leadingFraction True x scale s
          else if x > (2 ^ 63 - 1) div 10 then leadingFraction True x scale s
          else
            let y = x * 10 + d in
            if y > 2 ^ 63 then leadingFraction True x scale s
            else leadingFraction False y (round_prec 53 (scale * 10)) s)"

text \<open>The two spellings of microseconds with a Greek letter are those of \<open>U+00B5\<close> and \<open>U+03BC\<close> in UTF-8.\<close>

definition unitMap :: "string \<Rightarrow> nat option" where
  "unitMap = map_of
     [(''ns'', 1), (''us'', 1000), ([CHR 0xC2, CHR 0xB5, CHR ''s''], 1000), ([CHR 0xCE, CHR 0xBC, CHR ''s''], 1000),
      (''ms'', 1000000), (''s'', 1000000000), (''m'', 60 * 1000000000), (''h'', 3600 * 1000000000)]"

text \<open>A unit goes on up to the next point or digit.\<close>

definition unit_char :: "char \<Rightarrow> bool" where
  "unit_char c \<longleftrightarrow> c \<noteq> CHR ''.'' \<and> digit c = None"

text \<open>The value of \<open>v\<close> and the fraction \<open>f / scale\<close> in a unit, or \<open>None\<close> for an overflow.\<close>

definition part_value :: "nat \<Rightarrow> nat \<Rightarrow> rat \<Rightarrow> nat \<Rightarrow> nat option" where
  "part_value v f scale unit =
     (if v > 2 ^ 63 div unit then None
      else
        let v = v * unit in
        if f > 0 then
          let v = v + nat \<lfloor>round_prec 53 (round_prec 53 (of_nat f) * round_prec 53 (of_nat unit / scale))\<rfloor> in
          if v > 2 ^ 63 then None else Some v
        else Some v)"

lemma leadingInt_length: "leadingInt x s = Some (v, r) \<Longrightarrow> length r \<le> length s"
proof (induction s arbitrary: x)
  case (Cons c s)
  show ?case
  proof (cases "digit c")
    case (Some d)
    with Cons.prems have "leadingInt (x * 10 + d) s = Some (v, r)" by (simp add: Let_def split: if_splits)
    from Cons.IH [OF this] show ?thesis by simp
  qed (use Cons.prems in auto)
qed simp

lemma leadingFraction_length: "leadingFraction b x sc s = (f, scale, r) \<Longrightarrow> length r \<le> length s"
proof (induction s arbitrary: b x sc)
  case (Cons c s)
  show ?case
  proof (cases "digit c")
    case (Some d)
    with Cons.prems obtain b x sc where "leadingFraction b x sc s = (f, scale, r)"
      by (auto simp: Let_def split: if_splits)
    from Cons.IH [OF this] show ?thesis by simp
  qed (use Cons.prems in auto)
qed simp

text \<open>The fraction, if there is one.\<close>

definition fraction_part :: "string \<Rightarrow> nat \<times> rat \<times> string" where
  "fraction_part s1 =
     (case s1 of [] \<Rightarrow> (0, 1, s1) | c # t \<Rightarrow> if c = CHR ''.'' then leadingFraction False 0 1 t else (0, 1, s1))"

lemma fraction_part_length: "fraction_part s1 = (f, scale, s2) \<Longrightarrow> length s2 \<le> length s1"
  by (cases s1) (auto simp: fraction_part_def dest: leadingFraction_length split: if_splits)

text \<open>One number with its unit: its value and the rest of the text.\<close>

definition duration_part :: "string \<Rightarrow> (duration_error, nat \<times> string) outcome" where
  "duration_part s =
     (if s = [] \<or> \<not> (hd s = CHR ''.'' \<or> digit (hd s) \<noteq> None) then Err ErrInvalidDuration
      else case leadingInt 0 s of
        None \<Rightarrow> Err ErrInvalidDuration
      | Some (v, s1) \<Rightarrow>
          let pre = (length s \<noteq> length s1);
              (f, scale, s2) = fraction_part s1;
              post = (s1 \<noteq> [] \<and> hd s1 = CHR ''.'' \<and> length (tl s1) \<noteq> length s2);
              u = takeWhile unit_char s2; s3 = dropWhile unit_char s2
          in if \<not> pre \<and> \<not> post then Err ErrInvalidDuration
             else if u = [] then Err ErrMissingUnit
             else case unitMap u of
               None \<Rightarrow> Err (ErrUnknownUnit u)
             | Some unit \<Rightarrow> (case part_value v f scale unit of None \<Rightarrow> Err ErrInvalidDuration | Some v \<Rightarrow> Ok (v, s3)))"

lemma duration_part_shorter:
  assumes "duration_part s = Ok (v, r)"
  shows "length r < length s"
proof -
  obtain x s1 where s1: "leadingInt 0 s = Some (x, s1)"
    using assms by (auto simp: duration_part_def split: if_splits option.splits)
  obtain f scale s2 where s2: "fraction_part s1 = (f, scale, s2)" by (metis prod_cases3)
  have u: "takeWhile unit_char s2 \<noteq> []" "r = dropWhile unit_char s2"
    using assms s1 s2 by (auto simp: duration_part_def Let_def split: if_splits option.splits)
  have "length s2 = length (takeWhile unit_char s2) + length (dropWhile unit_char s2)"
    by (metis length_append takeWhile_dropWhile_id)
  with u have "length r < length s2" by simp
  with fraction_part_length [OF s2] leadingInt_length [OF s1] show ?thesis by simp
qed

function duration_parts :: "nat \<Rightarrow> string \<Rightarrow> (duration_error, nat) outcome" where
  "duration_parts d s =
     (if s = [] then Ok d
      else case duration_part s of
        Ok (v, r) \<Rightarrow> let d = (d + v) mod 2 ^ 64 in if d > 2 ^ 63 then Err ErrInvalidDuration else duration_parts d r
      | Err e \<Rightarrow> Err e
      | Panic \<Rightarrow> Panic)"
  by pat_completeness auto

termination
  by (relation "measure (\<lambda>(d, s). length s)") (auto dest: duration_part_shorter)

declare duration_parts.simps [simp del]

definition ParseDuration :: "string \<Rightarrow> (duration_error, int) outcome" where
  "ParseDuration s =
     (let neg = (s \<noteq> [] \<and> hd s = CHR ''-'');
          s = (if s \<noteq> [] \<and> hd s \<in> {CHR ''-'', CHR ''+''} then tl s else s)
      in if s = ''0'' then Ok 0
         else if s = [] then Err ErrInvalidDuration
         else obind (duration_parts 0 s) (\<lambda>d.
           if neg then Ok (- int d)
           else if d > 2 ^ 63 - 1 then Err ErrInvalidDuration
           else Ok (int d)))"

section \<open>\<open>config/types/duration.go\<close>\<close>

text \<open>The duration that a \<open>Duration\<close> holds afterwards; it keeps its value \<open>d\<close> on an error.\<close>

definition Duration_UnmarshalText :: "int \<Rightarrow> string \<Rightarrow> (duration_error, unit) outcome \<times> int" where
  "Duration_UnmarshalText d data =
     (case ParseDuration data of Ok duration \<Rightarrow> (Ok (), duration) | Err e \<Rightarrow> (Err e, d) | Panic \<Rightarrow> (Panic, d))"

definition NewDuration :: "int \<Rightarrow> int" where "NewDuration duration = duration"

text \<open>The units that the schema for the configuration names.\<close>

definition schema_units :: "string list" where
  "schema_units = [''ns'', ''us'', ''ms'', ''s'', ''m'', ''h'', ''d'']"

section \<open>Whole numbers of a unit\<close>

lemma digits_val_mono: "digits_val 10 x ds = Some y \<Longrightarrow> x \<le> y"
proof (induction ds arbitrary: x)
  case (Cons c ds)
  then obtain d where "digits_val 10 (x * 10 + d) ds = Some y" by (auto split: option.splits if_splits)
  from Cons.IH [OF this] show ?case by simp
qed simp

lemma leadingInt_digits:
  "digits_val 10 x ds = Some y \<Longrightarrow> x \<le> 2 ^ 63 \<Longrightarrow> u \<noteq> [] \<Longrightarrow> digit (hd u) = None \<Longrightarrow>
     leadingInt x (ds @ u) = (if y \<le> 2 ^ 63 then Some (y, u) else None)"
proof (induction ds arbitrary: x)
  case Nil
  then show ?case by (cases u) auto
next
  case (Cons c ds)
  then obtain d where d: "digit c = Some d" "digits_val 10 (x * 10 + d) ds = Some y"
    by (auto simp: digit_def split: option.splits if_splits)
  note m = digits_val_mono [OF d(2)]
  show ?case
  proof (cases "x * 10 + d \<le> 2 ^ 63")
    case True
    then show ?thesis using Cons.IH [OF d(2) True Cons.prems(3,4)] d(1) by (simp add: Let_def)
  next
    case False
    then show ?thesis using d(1) m by (simp add: Let_def)
  qed
qed

lemma unit_word:
  assumes "unitMap u = Some k \<or> u = ''d''"
  shows "u \<noteq> [] \<and> list_all unit_char u \<and> digit (hd u) = None \<and> hd u \<noteq> CHR ''.''"
  using assms unfolding unitMap_def
  by (auto simp: unit_char_def digit_def hex_digit_val_def split: if_splits)

lemma duration_part_whole:
  assumes "unitMap u = Some k \<or> u = ''d''"
  shows "duration_part (dec_text n @ u) =
    (if n > 2 ^ 63 then Err ErrInvalidDuration
     else case unitMap u of
       None \<Rightarrow> Err (ErrUnknownUnit u)
     | Some k \<Rightarrow> if n > 2 ^ 63 div k then Err ErrInvalidDuration else Ok (n * k, []))"
proof -
  note u = unit_word [OF assms]
  have ne: "dec_text n \<noteq> []" by (rule dec_text_not_Nil)
  have li: "leadingInt 0 (dec_text n @ u) = (if n \<le> 2 ^ 63 then Some (n, u) else None)"
    by (rule leadingInt_digits) (use u digits_val_dec_text in auto)
  have hd: "digit (hd (dec_text n @ u)) \<noteq> None"
    using digits_val_dec_text [of n] ne
    by (cases "dec_text n") (auto simp: digit_def split: option.splits if_splits)
  have f: "fraction_part u = (0, 1, u)" using u by (cases u) (auto simp: fraction_part_def)
  have t: "takeWhile unit_char u = u" "dropWhile unit_char u = []" using u by (auto simp: list_all_iff)
  show ?thesis
    using u ne hd li by (auto simp: duration_part_def f t part_value_def Let_def split: option.split)
qed

lemma unitMap_pos: "unitMap u = Some k \<Longrightarrow> 0 < k \<and> k \<le> 2 ^ 63"
  unfolding unitMap_def by (auto split: if_splits)

lemma duration_parts_whole:
  assumes "unitMap u = Some k"
  shows "duration_parts 0 (dec_text n @ u) = (if n * k \<le> 2 ^ 63 then Ok (n * k) else Err ErrInvalidDuration)"
proof -
  from unitMap_pos [OF assms] have k: "0 < k" "k \<le> 2 ^ 63" by auto
  have "n > 2 ^ 63 div k \<longleftrightarrow> n * k > 2 ^ 63"
    using less_eq_div_iff_mult_less_eq [OF k(1), of n "2 ^ 63"] by (simp only: not_le [symmetric])
  moreover have "n > 2 ^ 63 \<Longrightarrow> n * k > 2 ^ 63"
    using k by (metis less_le_trans mult.right_neutral mult_le_mono2 Suc_leI One_nat_def)
  ultimately have part: "duration_part (dec_text n @ u) = (if n * k \<le> 2 ^ 63 then Ok (n * k, []) else Err ErrInvalidDuration)"
    unfolding duration_part_whole [OF disjI1 [OF assms]] using assms by auto
  have "dec_text n @ u \<noteq> []" by simp
  then show ?thesis
    by (subst duration_parts.simps) (simp add: part duration_parts.simps [of _ "[]"] Let_def)
qed

lemma signless:
  assumes "unitMap u = Some k \<or> u = ''d''"
  shows "ParseDuration (dec_text n @ u) =
      obind (duration_parts 0 (dec_text n @ u)) (\<lambda>d. if d > 2 ^ 63 - 1 then Err ErrInvalidDuration else Ok (int d))"
    "ParseDuration (CHR ''-'' # dec_text n @ u) = obind (duration_parts 0 (dec_text n @ u)) (\<lambda>d. Ok (- int d))"
    "ParseDuration (CHR ''+'' # dec_text n @ u) = ParseDuration (dec_text n @ u)"
proof -
  have "u \<noteq> []" using unit_word [OF assms] by simp
  then have "dec_text n @ u \<noteq> ''0''"
    using dec_text_not_Nil [of n] by (cases "dec_text n"; cases u) auto
  moreover have "hd (dec_text n @ u) \<noteq> CHR ''-''" "hd (dec_text n @ u) \<noteq> CHR ''+''"
    using hd_dec_text [of n] by auto
  ultimately show "ParseDuration (dec_text n @ u) =
      obind (duration_parts 0 (dec_text n @ u)) (\<lambda>d. if d > 2 ^ 63 - 1 then Err ErrInvalidDuration else Ok (int d))"
    "ParseDuration (CHR ''-'' # dec_text n @ u) = obind (duration_parts 0 (dec_text n @ u)) (\<lambda>d. Ok (- int d))"
    "ParseDuration (CHR ''+'' # dec_text n @ u) = ParseDuration (dec_text n @ u)"
    by (simp_all add: ParseDuration_def Let_def)
qed

lemma ParseDuration_unit:
  "unitMap u = Some k \<Longrightarrow> ParseDuration (dec_text n @ u) = (if n * k < 2 ^ 63 then Ok (int (n * k)) else Err ErrInvalidDuration)"
  using signless [of u k n] duration_parts_whole [of u k n] by simp

text \<open>
  C40. A whole number of one of the units is read exactly, as far as the duration fits the 64 bits of an \<open>int64\<close>, and
  refused beyond, where the duration keeps the value it had; with a minus sign the least value fits too,
  and a plus sign changes nothing.
\<close>

theorem whole_durations:
  assumes "unitMap u = Some k"
  shows "Duration_UnmarshalText d (dec_text n @ u) =
      (if n * k < 2 ^ 63 then (Ok (), int (n * k)) else (Err ErrInvalidDuration, d)) \<and>
    Duration_UnmarshalText d (CHR ''-'' # dec_text n @ u) =
      (if n * k \<le> 2 ^ 63 then (Ok (), - int (n * k)) else (Err ErrInvalidDuration, d)) \<and>
    Duration_UnmarshalText d (CHR ''+'' # dec_text n @ u) = Duration_UnmarshalText d (dec_text n @ u)"
  unfolding Duration_UnmarshalText_def signless [OF disjI1 [OF assms]] duration_parts_whole [OF assms] by simp

theorem whole_durations_witness:
  "Duration_UnmarshalText 0 (dec_text 5 @ ''s'') = (Ok (), 5000000000)"
  using whole_durations [of "''s''" 1000000000 0 5] by (simp add: unitMap_def)

text \<open>
  Of the units that the schema of the configuration names, the days are refused: every number of days is an error, and
  the duration keeps the value it had.
\<close>

theorem days_are_refused:
  "''d'' \<in> set schema_units \<and> (\<forall>u \<in> set schema_units. unitMap u \<noteq> None \<longleftrightarrow> u \<noteq> ''d'') \<and>
   (\<exists>e. Duration_UnmarshalText d (dec_text n @ ''d'') = (Err e, d))"
proof (intro conjI)
  have none: "unitMap ''d'' = None" by (simp add: unitMap_def)
  have part: "duration_part (dec_text n @ ''d'') = Err (if n > 2 ^ 63 then ErrInvalidDuration else ErrUnknownUnit ''d'')"
    unfolding duration_part_whole [OF disjI2 [OF refl]] none by simp
  have "dec_text n @ ''d'' \<noteq> []" by simp
  then have "\<exists>e. duration_parts 0 (dec_text n @ ''d'') = Err e"
    by (subst duration_parts.simps) (simp add: part)
  then show "\<exists>e. Duration_UnmarshalText d (dec_text n @ ''d'') = (Err e, d)"
    by (auto simp: Duration_UnmarshalText_def signless [OF disjI2 [OF refl]])
qed (simp_all add: schema_units_def unitMap_def)

lemma sample_fraction: "part_value 1 5 10 1000000000 = Some 1500000000"
proof -
  have "round_prec 53 (round_prec 53 (of_nat 5) * round_prec 53 (of_nat 1000000000 / 10)) = 500000000"
    unfolding of_nat_numeral by code_simp
  then show ?thesis by (simp add: part_value_def)
qed

lemma sample_duration: "ParseDuration ''1.5s'' = Ok 1500000000"
proof -
  have "leadingFraction False 0 1 ''5s'' = (5, 10, ''s'')"
  proof -
    have "round_prec 53 10 = 10" by code_simp
    then show ?thesis by (simp add: digit_def hex_digit_val_def Let_def)
  qed
  then have "duration_part ''1.5s'' = Ok (1500000000, [])"
    using sample_fraction
    by (simp add: duration_part_def digit_def hex_digit_val_def Let_def fraction_part_def unit_char_def unitMap_def)
  then show ?thesis
    by (simp add: ParseDuration_def Let_def duration_parts.simps [of _ "''1.5s''"] duration_parts.simps [of _ "[]"])
qed

end
