(* ===== verification/Log.thy ===== *)
theory Log
  imports Hex Events
begin

text \<open>
  The logger (\<open>log/log.go\<close>) with the two packages that hand messages on to it (\<open>db/logger.go\<close> and
  \<open>event/nileventstorage\<close>). The library zap writes the messages: the model keeps what is handed to it.
\<close>

section \<open>Loggers and messages\<close>

datatype log_level = DebugLevel | InfoLevel | WarnLevel | ErrorLevel | FatalLevel

text \<open>An argument is an error, a text or any other value.\<close>

datatype ('e, 'a) log_arg = ErrorArg 'e | TextArg string | OtherArg 'a

datatype log_environment = EnvironmentProduction | EnvironmentDevelopment

record logger_config =
  lc_Environment :: log_environment
  lc_Level :: string
  lc_Outputs :: "string list"

text \<open>A logger: its configuration, the callers that it skips and the fields that every message gets.\<close>

record ('e, 'a) logger =
  lg_config :: logger_config
  lg_skip :: int
  lg_fields :: "('e, 'a) log_arg list"

datatype ('e, 'a) log_message =
    Plain log_level "('e, 'a) log_arg list"
  | Formatted log_level string "('e, 'a) log_arg list"
  | Keyed log_level string "('e, 'a) log_arg list"

record ('e, 'a) log_state =
  root :: "('e, 'a) logger option"
  written :: "(('e, 'a) logger \<times> ('e, 'a) log_message) list"

text \<open>\<open>None\<close> is a panic, or the end of the process after a fatal message.\<close>

type_synonym ('e, 'a, 'r) log_step = "('e, 'a) log_state \<Rightarrow> 'r option \<times> ('e, 'a) log_state"

text \<open>A frame of a stack trace: path, line and function.\<close>

type_synonym frame = "string \<times> nat \<times> string"

text \<open>
  zap and tracerr: whether a level can be read and a logger built, the text of an error and the frames of its trace.
\<close>

record 'e log_lib =
  ll_level_ok :: "string \<Rightarrow> bool"
  ll_Build :: "logger_config \<Rightarrow> bool"
  ll_text :: "'e \<Rightarrow> string"
  ll_StackTrace :: "'e \<Rightarrow> frame list"

section \<open>The root logger\<close>

definition NewLogger :: "'e log_lib \<Rightarrow> logger_config \<Rightarrow> ('e, 'a) logger option" where
  "NewLogger lib cfg =
     (if \<not> ll_level_ok lib (lc_Level cfg) then None
      else if \<not> ll_Build lib cfg then None
      else Some \<lparr>lg_config = cfg, lg_skip = 2, lg_fields = []\<rparr>)"

definition getDefaultLog :: "'e log_lib \<Rightarrow> ('e, 'a, ('e, 'a) logger) log_step" where
  "getDefaultLog lib s =
     (case root s of
        Some l \<Rightarrow> (Some l, s)
      | None \<Rightarrow>
          (case NewLogger lib \<lparr>lc_Environment = EnvironmentDevelopment, lc_Level = ''debug'', lc_Outputs = [''stderr'']\<rparr> of
             None \<Rightarrow> (None, s)
           | Some l \<Rightarrow> (Some l, s\<lparr>root := Some l\<rparr>)))"

definition log_Init :: "'e log_lib \<Rightarrow> logger_config \<Rightarrow> ('e, 'a, unit) log_step" where
  "log_Init lib cfg s = (case NewLogger lib cfg of None \<Rightarrow> (None, s) | Some l \<Rightarrow> (Some (), s\<lparr>root := Some l\<rparr>))"

text \<open>\<open>With\<close> adds the fields; the function of the package skips one caller less than the root logger.\<close>

definition Logger_WithFields :: "('e, 'a) logger \<Rightarrow> ('e, 'a) log_arg list \<Rightarrow> ('e, 'a) logger" where
  "Logger_WithFields l keyValuePairs = l\<lparr>lg_fields := lg_fields l @ keyValuePairs\<rparr>"

definition with_root :: "'e log_lib \<Rightarrow> (('e, 'a) logger \<Rightarrow> ('e, 'a, 'r) log_step) \<Rightarrow> ('e, 'a, 'r) log_step" where
  "with_root lib f s = (case getDefaultLog lib s of (None, s) \<Rightarrow> (None, s) | (Some l, s) \<Rightarrow> f l s)"

definition log_WithFields :: "'e log_lib \<Rightarrow> ('e, 'a) log_arg list \<Rightarrow> ('e, 'a, ('e, 'a) logger) log_step" where
  "log_WithFields lib keyValuePairs =
     with_root lib (\<lambda>l s. let l = Logger_WithFields l keyValuePairs in (Some (l\<lparr>lg_skip := lg_skip l - 1\<rparr>), s))"

section \<open>Stack traces\<close>

definition sprintStackTrace :: "frame list \<Rightarrow> string" where
  "sprintStackTrace st =
     (let st = (if length st > 0 then butlast st else st) in
      concat (map (\<lambda>(path, line, func). CHR 0x0A # path @ '':'' @ dec_text line @ '' '' @ func @ ''()'') st) @ [CHR 0x0A])"

text \<open>The trace of the first error among the arguments.\<close>

fun first_trace :: "'e log_lib \<Rightarrow> ('e, 'a) log_arg list \<Rightarrow> string option" where
  "first_trace lib [] = None"
| "first_trace lib (ErrorArg e # args) = Some (sprintStackTrace (ll_StackTrace lib e))"
| "first_trace lib (_ # args) = first_trace lib args"

definition appendStackTraceMaybeArgs :: "'e log_lib \<Rightarrow> ('e, 'a) log_arg list \<Rightarrow> ('e, 'a) log_arg list" where
  "appendStackTraceMaybeArgs lib args =
     (case first_trace lib args of None \<Rightarrow> args | Some t \<Rightarrow> args @ [TextArg t])"

text \<open>Only the values, at the odd positions, are looked at.\<close>

fun appendStackTraceMaybeKV :: "'e log_lib \<Rightarrow> string \<Rightarrow> ('e, 'a) log_arg list \<Rightarrow> string" where
  "appendStackTraceMaybeKV lib msg (k # ErrorArg e # kv) =
     msg @ '': '' @ ll_text lib e @ sprintStackTrace (ll_StackTrace lib e) @ [CHR 0x0A]"
| "appendStackTraceMaybeKV lib msg (k # v # kv) = appendStackTraceMaybeKV lib msg kv"
| "appendStackTraceMaybeKV lib msg _ = msg"

section \<open>The functions\<close>

definition write_message :: "log_level \<Rightarrow> ('e, 'a) logger \<Rightarrow> ('e, 'a) log_message \<Rightarrow> ('e, 'a, unit) log_step" where
  "write_message level l m s = (if level = FatalLevel then None else Some (), s\<lparr>written := written s @ [(l, m)]\<rparr>)"

definition Logger_Debug :: "('e, 'a) logger \<Rightarrow> ('e, 'a) log_arg list \<Rightarrow> ('e, 'a, unit) log_step" where
  "Logger_Debug l args = write_message DebugLevel l (Plain DebugLevel args)"

definition log_Debug :: "'e log_lib \<Rightarrow> ('e, 'a) log_arg list \<Rightarrow> ('e, 'a, unit) log_step" where
  "log_Debug lib args = with_root lib (\<lambda>l. Logger_Debug l args)"

definition Logger_Debugf :: "('e, 'a) logger \<Rightarrow> string \<Rightarrow> ('e, 'a) log_arg list \<Rightarrow> ('e, 'a, unit) log_step" where
  "Logger_Debugf l template args = write_message DebugLevel l (Formatted DebugLevel template args)"

definition log_Debugf :: "'e log_lib \<Rightarrow> string \<Rightarrow> ('e, 'a) log_arg list \<Rightarrow> ('e, 'a, unit) log_step" where
  "log_Debugf lib template args = with_root lib (\<lambda>l. Logger_Debugf l template args)"

definition Logger_Debugw :: "('e, 'a) logger \<Rightarrow> string \<Rightarrow> ('e, 'a) log_arg list \<Rightarrow> ('e, 'a, unit) log_step" where
  "Logger_Debugw l msg kv = write_message DebugLevel l (Keyed DebugLevel msg kv)"

definition log_Debugw :: "'e log_lib \<Rightarrow> string \<Rightarrow> ('e, 'a) log_arg list \<Rightarrow> ('e, 'a, unit) log_step" where
  "log_Debugw lib msg kv = with_root lib (\<lambda>l. Logger_Debugw l msg kv)"

definition Logger_Info :: "('e, 'a) logger \<Rightarrow> ('e, 'a) log_arg list \<Rightarrow> ('e, 'a, unit) log_step" where
  "Logger_Info l args = write_message InfoLevel l (Plain InfoLevel args)"

definition log_Info :: "'e log_lib \<Rightarrow> ('e, 'a) log_arg list \<Rightarrow> ('e, 'a, unit) log_step" where
  "log_Info lib args = with_root lib (\<lambda>l. Logger_Info l args)"

definition Logger_Infof :: "('e, 'a) logger \<Rightarrow> string \<Rightarrow> ('e, 'a) log_arg list \<Rightarrow> ('e, 'a, unit) log_step" where
  "Logger_Infof l template args = write_message InfoLevel l (Formatted InfoLevel template args)"

definition log_Infof :: "'e log_lib \<Rightarrow> string \<Rightarrow> ('e, 'a) log_arg list \<Rightarrow> ('e, 'a, unit) log_step" where
  "log_Infof lib template args = with_root lib (\<lambda>l. Logger_Infof l template args)"

definition Logger_Infow :: "('e, 'a) logger \<Rightarrow> string \<Rightarrow> ('e, 'a) log_arg list \<Rightarrow> ('e, 'a, unit) log_step" where
  "Logger_Infow l msg kv = write_message InfoLevel l (Keyed InfoLevel msg kv)"

definition log_Infow :: "'e log_lib \<Rightarrow> string \<Rightarrow> ('e, 'a) log_arg list \<Rightarrow> ('e, 'a, unit) log_step" where
  "log_Infow lib msg kv = with_root lib (\<lambda>l. Logger_Infow l msg kv)"

definition Logger_Warn :: "('e, 'a) logger \<Rightarrow> ('e, 'a) log_arg list \<Rightarrow> ('e, 'a, unit) log_step" where
  "Logger_Warn l args = write_message WarnLevel l (Plain WarnLevel args)"

definition log_Warn :: "'e log_lib \<Rightarrow> ('e, 'a) log_arg list \<Rightarrow> ('e, 'a, unit) log_step" where
  "log_Warn lib args = with_root lib (\<lambda>l. Logger_Warn l args)"

definition Logger_Warnf :: "('e, 'a) logger \<Rightarrow> string \<Rightarrow> ('e, 'a) log_arg list \<Rightarrow> ('e, 'a, unit) log_step" where
  "Logger_Warnf l template args = write_message WarnLevel l (Formatted WarnLevel template args)"

definition log_Warnf :: "'e log_lib \<Rightarrow> string \<Rightarrow> ('e, 'a) log_arg list \<Rightarrow> ('e, 'a, unit) log_step" where
  "log_Warnf lib template args = with_root lib (\<lambda>l. Logger_Warnf l template args)"

definition Logger_Warnw :: "('e, 'a) logger \<Rightarrow> string \<Rightarrow> ('e, 'a) log_arg list \<Rightarrow> ('e, 'a, unit) log_step" where
  "Logger_Warnw l msg kv = write_message WarnLevel l (Keyed WarnLevel msg kv)"

definition log_Warnw :: "'e log_lib \<Rightarrow> string \<Rightarrow> ('e, 'a) log_arg list \<Rightarrow> ('e, 'a, unit) log_step" where
  "log_Warnw lib msg kv = with_root lib (\<lambda>l. Logger_Warnw l msg kv)"

definition Logger_Error :: "('e, 'a) logger \<Rightarrow> ('e, 'a) log_arg list \<Rightarrow> ('e, 'a, unit) log_step" where
  "Logger_Error l args = write_message ErrorLevel l (Plain ErrorLevel args)"

definition log_Error :: "'e log_lib \<Rightarrow> ('e, 'a) log_arg list \<Rightarrow> ('e, 'a, unit) log_step" where
  "log_Error lib args = with_root lib (\<lambda>l. Logger_Error l (appendStackTraceMaybeArgs lib args))"

definition Logger_Errorf :: "('e, 'a) logger \<Rightarrow> string \<Rightarrow> ('e, 'a) log_arg list \<Rightarrow> ('e, 'a, unit) log_step" where
  "Logger_Errorf l template args = write_message ErrorLevel l (Formatted ErrorLevel template args)"

definition log_Errorf :: "'e log_lib \<Rightarrow> string \<Rightarrow> ('e, 'a) log_arg list \<Rightarrow> ('e, 'a, unit) log_step" where
  "log_Errorf lib template args = with_root lib (\<lambda>l. Logger_Errorf l template (appendStackTraceMaybeArgs lib args))"

definition Logger_Errorw :: "('e, 'a) logger \<Rightarrow> string \<Rightarrow> ('e, 'a) log_arg list \<Rightarrow> ('e, 'a, unit) log_step" where
  "Logger_Errorw l msg kv = write_message ErrorLevel l (Keyed ErrorLevel msg kv)"

definition log_Errorw :: "'e log_lib \<Rightarrow> string \<Rightarrow> ('e, 'a) log_arg list \<Rightarrow> ('e, 'a, unit) log_step" where
  "log_Errorw lib msg kv = with_root lib (\<lambda>l. Logger_Errorw l (appendStackTraceMaybeKV lib msg kv) kv)"

definition Logger_Fatal :: "('e, 'a) logger \<Rightarrow> ('e, 'a) log_arg list \<Rightarrow> ('e, 'a, unit) log_step" where
  "Logger_Fatal l args = write_message FatalLevel l (Plain FatalLevel args)"

definition log_Fatal :: "'e log_lib \<Rightarrow> ('e, 'a) log_arg list \<Rightarrow> ('e, 'a, unit) log_step" where
  "log_Fatal lib args = with_root lib (\<lambda>l. Logger_Fatal l (appendStackTraceMaybeArgs lib args))"

definition Logger_Fatalf :: "('e, 'a) logger \<Rightarrow> string \<Rightarrow> ('e, 'a) log_arg list \<Rightarrow> ('e, 'a, unit) log_step" where
  "Logger_Fatalf l template args = write_message FatalLevel l (Formatted FatalLevel template args)"

definition log_Fatalf :: "'e log_lib \<Rightarrow> string \<Rightarrow> ('e, 'a) log_arg list \<Rightarrow> ('e, 'a, unit) log_step" where
  "log_Fatalf lib template args = with_root lib (\<lambda>l. Logger_Fatalf l template (appendStackTraceMaybeArgs lib args))"

definition Logger_Fatalw :: "('e, 'a) logger \<Rightarrow> string \<Rightarrow> ('e, 'a) log_arg list \<Rightarrow> ('e, 'a, unit) log_step" where
  "Logger_Fatalw l msg kv = write_message FatalLevel l (Keyed FatalLevel msg kv)"

definition log_Fatalw :: "'e log_lib \<Rightarrow> string \<Rightarrow> ('e, 'a) log_arg list \<Rightarrow> ('e, 'a, unit) log_step" where
  "log_Fatalw lib msg kv = with_root lib (\<lambda>l. Logger_Fatalw l (appendStackTraceMaybeKV lib msg kv) kv)"

section \<open>Messages of the database and events\<close>

datatype pgx_level = PgxInfo | PgxWarn | PgxError | PgxOther string

text \<open>\<open>sprint\<close> is \<open>fmt.Sprintf("%s %v", msg, data)\<close>.\<close>

definition pgx_Log :: "'e log_lib \<Rightarrow> (string \<Rightarrow> 'd \<Rightarrow> string) \<Rightarrow> pgx_level \<Rightarrow> string \<Rightarrow> 'd \<Rightarrow> ('e, 'a, unit) log_step" where
  "pgx_Log lib sprint level msg data =
     (let m = sprint msg data in
      case level of
        PgxInfo \<Rightarrow> log_Info lib [TextArg m]
      | PgxWarn \<Rightarrow> log_Warn lib [TextArg m]
      | PgxError \<Rightarrow> log_Error lib [TextArg m]
      | PgxOther name \<Rightarrow> log_Debug lib [TextArg (name @ '' '' @ m)])"

text \<open>The levels of events are texts; one of no known level is not written.\<close>

definition nil_LogEvent :: "'e log_lib \<Rightarrow> string \<Rightarrow> 'a \<Rightarrow> ('e, 'a, unit) log_step" where
  "nil_LogEvent lib level ev s =
     (if level \<in> level_text ` {Level_Emergency, Level_Alert, Level_Critical, Level_Error} then
        log_Errorf lib ''Event: %+v'' [OtherArg ev] s
      else if level \<in> level_text ` {Level_Warning, Level_Notice} then log_Warnf lib ''Event: %+v'' [OtherArg ev] s
      else if level = level_text Level_Info then log_Infof lib ''Event: %+v'' [OtherArg ev] s
      else if level = level_text Level_Debug then log_Debugf lib ''Event: %+v'' [OtherArg ev] s
      else (Some (), s))"

section \<open>Properties\<close>

lemma first_trace_None: "first_trace lib xs = None \<longleftrightarrow> (\<forall>e. ErrorArg e \<notin> set xs)"
  by (induction lib xs rule: first_trace.induct) auto

lemma first_trace_Some:
  "first_trace lib xs = Some t \<Longrightarrow>
     \<exists>pre e post. xs = pre @ ErrorArg e # post \<and> (\<forall>x. ErrorArg x \<notin> set pre) \<and> t = sprintStackTrace (ll_StackTrace lib e)"
proof (induction xs)
  case (Cons x xs)
  show ?case
  proof (cases "\<exists>e. x = ErrorArg e")
    case True
    with Cons.prems show ?thesis by (intro exI [of _ "[]"]) auto
  next
    case False
    then have "first_trace lib (x # xs) = first_trace lib xs" by (cases x) simp_all
    with Cons obtain pre e post where "xs = pre @ ErrorArg e # post" "\<forall>y. ErrorArg y \<notin> set pre"
      "t = sprintStackTrace (ll_StackTrace lib e)" by auto
    with False show ?thesis by (intro exI [of _ "x # pre"]) auto
  qed
qed simp

lemma appended_args:
  "if \<exists>e. ErrorArg e \<in> set args
   then length (appendStackTraceMaybeArgs lib args) = length args + 1 \<and>
     (\<exists>pre e post. args = pre @ ErrorArg e # post \<and> (\<forall>x. ErrorArg x \<notin> set pre) \<and>
        appendStackTraceMaybeArgs lib args = args @ [TextArg (sprintStackTrace (ll_StackTrace lib e))])
   else appendStackTraceMaybeArgs lib args = args"
proof (cases "first_trace lib args")
  case None
  then show ?thesis using first_trace_None [of lib args] by (simp add: appendStackTraceMaybeArgs_def)
next
  case (Some t)
  from first_trace_Some [OF Some] show ?thesis using Some by (auto simp: appendStackTraceMaybeArgs_def)
qed

text \<open>
  \<open>Errorf\<close> hands zap, beside the arguments of its caller, the stack trace of the first error among them, so that a
  template with a verb for each argument is one short. Without an error the arguments are handed on as they are. The
  first message makes the root logger, which later ones use.
\<close>

theorem errorf_extra_argument:
  assumes "getDefaultLog lib s = (Some l, s1)"
  shows "\<exists>args' s2. log_Errorf lib template args s = (Some (), s2) \<and> root s2 = Some l \<and> getDefaultLog lib s2 = (Some l, s2) \<and>
    written s2 = written s @ [(l, Formatted ErrorLevel template args')] \<and>
    (if \<exists>e. ErrorArg e \<in> set args
     then length args' = length args + 1 \<and>
       (\<exists>pre e post. args = pre @ ErrorArg e # post \<and> (\<forall>x. ErrorArg x \<notin> set pre) \<and>
          args' = args @ [TextArg (sprintStackTrace (ll_StackTrace lib e))])
     else args' = args)"
proof -
  have s1: "root s1 = Some l" "written s1 = written s"
    using assms by (auto simp: getDefaultLog_def split: option.splits)
  let ?args = "appendStackTraceMaybeArgs lib args"
  let ?s2 = "s1\<lparr>written := written s @ [(l, Formatted ErrorLevel template ?args)]\<rparr>"
  have run: "log_Errorf lib template args s = (Some (), ?s2)"
    using assms s1 by (simp add: log_Errorf_def with_root_def Logger_Errorf_def write_message_def)
  have get: "getDefaultLog lib ?s2 = (Some l, ?s2)" using s1 by (simp add: getDefaultLog_def)
  show ?thesis
    by (rule exI [of _ ?args], rule exI [of _ ?s2]) (use run get s1 appended_args [of args lib] in simp)
qed

definition sample_log_lib :: "string log_lib" where
  "sample_log_lib = \<lparr>ll_level_ok = (\<lambda>_. True), ll_Build = (\<lambda>_. True), ll_text = (\<lambda>e. e),
     ll_StackTrace = (\<lambda>_. [(''a.go'', 7, ''f''), (''rt.go'', 1, ''main'')])\<rparr>"

theorem errorf_extra_argument_witness:
  "\<exists>l s2. log_Errorf sample_log_lib ''err: %v'' [ErrorArg ''e'', OtherArg ()] \<lparr>root = None, written = []\<rparr> = (Some (), s2) \<and>
     written s2 = [(l, Formatted ErrorLevel ''err: %v''
       [ErrorArg ''e'', OtherArg (), TextArg (CHR 0x0A # ''a.go:7 f()'' @ [CHR 0x0A])])]"
proof -
  let ?s = "\<lparr>root = None, written = []\<rparr> :: (string, unit) log_state"
  obtain l s1 where l: "getDefaultLog sample_log_lib ?s = (Some l, s1)"
    by (simp add: getDefaultLog_def NewLogger_def sample_log_lib_def)
  have "sprintStackTrace (ll_StackTrace sample_log_lib e) = CHR 0x0A # ''a.go:7 f()'' @ [CHR 0x0A]" for e
    by (simp add: sprintStackTrace_def sample_log_lib_def dec_text.simps hex_char_def)
  with errorf_extra_argument [OF l, of "''err: %v''" "[ErrorArg ''e'', OtherArg ()]"] show ?thesis by fastforce
qed

end
