(* ===== verification/Spec2Isabelle.thy ===== *)
theory Spec2Isabelle
  imports Agg_Properties Service Token_Amount Durations Log
begin

text \<open>
  The aggregator of a zkEVM rollup: a Go service that reads batches of transactions from a data
  stream, has remote provers prove and join them, and settles the final proof on L1 or through the
  agglayer. This library models the packages that decide what is proved, stored and sent, function
  by function, and proves what they do.

  \<^bold>\<open>Parts and theories.\<close> \<open>Prelude\<close> has what all share: the outcome of a Go function (\<open>Ok\<close>, \<open>Err\<close> or
  \<open>Panic\<close>), slices with Go's bounds, bytes, hashes and addresses.

  \<^item> \<open>Hex\<close> (\<open>hex/hex.go\<close>), \<open>Encoding\<close> (\<open>encoding/encoding.go\<close>): texts of numbers and bytes, with the parts
    of \<open>strconv\<close>, \<open>encoding/hex\<close> and \<open>math/big\<close> they use; round trips and validity.
  \<^item> \<open>Rlp\<close>: what the code relies on of the RLP codec of go-ethereum, as a locale, with a reference codec
    that interprets it.
  \<^item> \<open>State_Helper\<close> (\<open>state/helper.go\<close>): transactions in batch data; \<open>Batch_V2\<close> (\<open>state/encoding_batch_v2.go\<close>):
    Etrog batches. Round trips, agreement of the two transaction decoders, totality, and the lengths
    that make a decoder panic or return nothing.
  \<^item> \<open>L1_Info_Tree\<close> (\<open>l1infotree/\<close>): the incremental Merkle tree, its proofs and the batch computation of
    its root; the locale \<open>accumulator\<close> is the contract of an append-only accumulator, which the
    incremental tree refines to the full tree \<open>node\<close>.
  \<^item> \<open>Acc_Input_Hash\<close> (\<open>aggregator/accinputhash\<close>): the layout of the accumulated input hash.
  \<^item> \<open>Storage\<close> (\<open>state/types.go\<close>, \<open>state/pgstatestorage/\<close>, \<open>db/migrations\<close>): each SQL statement as a function
    on the three tables with the constraints of the schema; \<open>storage_call\<close> is the list of calls that
    write. Well-formedness under any sequence of calls, and what the two queries for proofs return, by
    predicates that are stated apart from the queries.
  \<^item> \<open>Prover\<close> (\<open>aggregator/prover/prover.go\<close>), \<open>Etherman\<close> (\<open>etherman/aggregator.go\<close>, \<open>errors.go\<close>), \<open>Agglayer\<close>
    (\<open>aggregator/agglayer_tx.go\<close>, \<open>agglayer_client.go\<close>): the clients; a connection is a function from
    requests to replies, a wait is the list of its polls. The bytes
    that an agglayer transaction is signed for determine all of it but the rollup.
  \<^item> \<open>Merkletree\<close> (\<open>merkletree/\<close>): limbs, keys of the leaves of the state trie and the hash of code, over a
    Poseidon function that is a parameter. Texts and numbers are read back, leaves with the same key
    are the same leaf unless Poseidon collides, the hash of code is the one of a reference, and
    Poseidon is only called with inputs of its type.
  \<^item> \<open>Token_Amount\<close> (\<open>TokenAmountWithDecimals\<close> in \<open>aggregator/config.go\<close>): the rounding of \<open>big.Float\<close> written out,
    how close the amount is, and amounts that lose units.
  \<^item> \<open>Network\<close> (\<open>config/network.go\<close>, \<open>state/genesis.go\<close>): from the network file to the contracts and the actions
    of the genesis; the leaves that these actions set are those of the accounts.
  \<^item> \<open>Metrics\<close> (\<open>metrics/prometheus.go\<close> and the metrics of the packages): the tables of collectors over the
    Prometheus library; the locale \<open>registerer\<close> holds what is relied on of the library, and the tables
    agree with the registerer after any calls.
  \<^item> \<open>Durations\<close> (\<open>config/types/duration.go\<close>, with the \<open>time.ParseDuration\<close> it calls) and \<open>Config_File\<close> (\<open>config/default.go\<close>,
    \<open>config/config.go\<close>): which durations are read exactly and which refused, the default values, and where the
    file is looked for.
  \<^item> \<open>Events\<close> (\<open>event/event.go\<close>) and \<open>Log\<close> (\<open>log/log.go\<close>, \<open>db/logger.go\<close>): the constants of events, and what each function of
    the logger hands to zap.
  \<^item> \<open>Service\<close> (\<open>cmd/\<close>, \<open>version.go\<close>, \<open>db/db.go\<close>, \<open>etherman/etherman.go\<close>, \<open>event/\<close>): the command line, the loading of the
    configuration, the start of the service up to the running aggregator, and the HTTP servers, over
    an outside world of any type; what has been migrated, checked, logged and registered by then.
  \<^item> \<open>Agg_Base\<close> to \<open>Agg_Properties\<close> (\<open>aggregator/aggregator.go\<close>, \<open>config.go\<close>, \<open>profitabilitychecker.go\<close>): the
    aggregator itself.

  \<^bold>\<open>The aggregator.\<close> Its state is the record \<open>aggregator\<close>: the tables, the turn to verify with its time, the
  batch that is being streamed, what went through the two channels, and a counter of interactions.
  A function is a \<open>step\<close>: from the state it gives no result (it does not return), or an outcome and a
  state. Whatever a step asks for is one interaction, and \<open>agg_env\<close> says for each interaction what the
  database, the clock, L1, the prover and the other services answer, and which storage calls the other
  goroutines have made since the one before. A theorem for every \<open>agg_env\<close> is thus a theorem for
  every interleaving of calls to the database; \<open>quiet\<close> environments are those where nobody
  else writes. A transaction takes place at one point of the history, and so does a critical section
  of a mutex.

  \<^item> \<open>Agg_Base\<close>: environment, state, steps and their rules; the locales \<open>table_invariant\<close> and
    \<open>proof_invariant\<close> hold the laws that an invariant of the tables has to satisfy, and each handler is
    proved once, inside them, to keep any such invariant. They are interpreted with the constraints
    of the schema (\<open>wf\<close>) and with these and the identifiers of proofs (\<open>ok\<close>).
  \<^item> \<open>Agg_Final\<close> (\<open>tryBuildFinalProof\<close>, \<open>sendFinalProof\<close>, the settlements), \<open>Agg_Aggregate\<close>
    (\<open>tryAggregateProofs\<close>), \<open>Agg_Generate\<close> (\<open>tryGenerateBatchProof\<close>, \<open>buildInputProver\<close>, profitability),
    \<open>Agg_Stream\<close> (\<open>handleReceivedDataStream\<close>, \<open>retrieveWitness\<close>, \<open>handleReorg\<close>), \<open>Agg_Server\<close> (\<open>New\<close>, \<open>Start\<close>,
    \<open>Channel\<close>, clean-up, and the relation \<open>agg_step\<close> with the reachable states).
  \<^item> The theories ending in \<open>_Runs\<close> and \<open>Agg_Stream_Batches\<close> compute what each handler does in a quiet
    environment. \<open>Agg_Samples\<close> is one such environment, and \<open>Agg_Properties\<close> has the theorems on whole
    handlers, with runs in it.

  \<^bold>\<open>What is shown.\<close> The two handlers that make proofs either complete or leave proofs, locks and messages as
  they were; a final proof continues the verified batches and covers whole sequences; the Merkle
  data given to a prover verifies against the root of the batch; a streamed batch is stored as a
  reference definition computes it; every reachable state is well formed and no handler
  dereferences an identifier that is missing; the start cleans up; waiting ends when L1 answers.
  Some theorems show behaviour that is hardly meant: they say so in their texts.

  \<^bold>\<open>Loops.\<close> Every loop that terminates is a total function. Polling is over the list of polls that take
  place, or a \<open>partial_function\<close> over the numbered interactions, whose value is \<open>None\<close> when it never
  ends. There is no fuel; the search for a batch ends at \<open>2 ^ 63\<close>, where the database refuses.

  \<^bold>\<open>Libraries.\<close> Keccak, RLP, \<open>types.NewTx\<close>, protobuf, JSON, the contract bindings and signatures are
  parameters (\<open>libraries\<close>, \<open>agg_env\<close>); the JSON of a stored batch is the batch. Lengths of byte slices are below \<open>2 ^ 63\<close>, as in Go.

  \<^bold>\<open>Not modelled.\<close> The generated bindings (\<open>etherman/smartcontracts\<close>, protobuf) are parameters, and so are the libraries:
  viper reads the default values and the configuration file, zap formats messages, pgx, \<open>sql-migrate\<close> and gRPC make the
  connections. \<open>Stop\<close> hands over to the context and the gRPC server, and \<open>printInputProver\<close> logs lengths; the calls
  of the logger in the other packages are left out, but for the fatal ones, which are outcomes.
  \<open>aggregator.New\<close> and \<open>Start\<close> are composed in \<open>Service\<close> as \<open>runAggregator\<close>. Timing is modelled only as far as the code
  compares times.
\<close>

end
